(* ===== verification/Prelude.thy ===== *)
theory Prelude
  imports Main "HOL-Library.Word"
begin

text \<open>
  Shared vocabulary of the LedgerX development: the fact collections the component
  proofs rewrite with, the machine integers of the Go code, the interfaces (locales) that
  several components implement, and generic lemmas on lists and sums.
\<close>

named_theorems session_simps \<open>unfolding of database sessions and statement execution\<close>
named_theorems query_simps \<open>unfolding of the SQL statements\<close>
named_theorems row_simps \<open>rows and tables\<close>

section \<open>Machine integers\<close>

text \<open>
  Money is \<open>int64\<close> in Go and \<open>BIGINT\<close> in the schema: a 64 bit word read with \<open>sint\<close>.
  Go's \<open>+\<close> and unary \<open>-\<close> wrap, as the word operations do. Postgres sums \<open>BIGINT\<close>
  columns exactly and refuses a total that does not fit back into \<open>BIGINT\<close>.
  Row identifiers and times are mathematical integers: the code compares them and never
  computes with them in a way that wraps.
\<close>

type_synonym int64 = "64 word"

definition MinInt64 :: int64 where
  "MinInt64 = 2 ^ 63"

definition MaxInt64 :: int where
  "MaxInt64 = 2 ^ 63 - 1"

definition in_int64 :: "int \<Rightarrow> bool" where
  "in_int64 k \<longleftrightarrow> - (2 ^ 63) \<le> k \<and> k < 2 ^ 63"

lemma sint_ge_min: "- (2 ^ 63) \<le> sint (a :: int64)"
  using sint_greater_eq [of a] by simp

lemma sint_lt_max: "sint (a :: int64) < 2 ^ 63"
  using sint_less [of a] by simp

lemma in_int64_sint [simp]: "in_int64 (sint (a :: int64))"
  using sint_ge_min [of a] sint_lt_max [of a] by (simp add: in_int64_def)

lemma sint_of_int_in [simp]: "in_int64 k \<Longrightarrow> sint (word_of_int k :: int64) = k"
  by (simp add: in_int64_def sint_sbintrunc' signed_take_bit_int_eq_self)

lemma sint_MinInt64 [simp]: "sint MinInt64 = - (2 ^ 63)"
  by (simp add: MinInt64_def)

lemma sint_eq_min_iff: "sint (a :: int64) = - (2 ^ 63) \<longleftrightarrow> a = MinInt64"
proof
  assume "sint a = - (2 ^ 63)"
  then have "(word_of_int (sint a) :: int64) = word_of_int (- (2 ^ 63))" by simp
  then show "a = MinInt64" by (simp add: MinInt64_def)
qed simp

lemma sint_eq_zero_iff [simp]: "sint (a :: int64) = 0 \<longleftrightarrow> a = 0"
proof
  assume "sint a = 0"
  then have "(word_of_int (sint a) :: int64) = word_of_int 0" by simp
  then show "a = 0" by simp
qed simp

text \<open>Negation is exact everywhere but at the least value, where it returns that value.\<close>

lemma sint_uminus:
  assumes "a \<noteq> MinInt64"
  shows "sint (- a :: int64) = - sint a"
proof -
  from assms have "sint a \<noteq> - (2 ^ 63)" by (simp only: sint_eq_min_iff not_False_eq_True)
  then have "- (2 ^ 63) \<le> - sint a" and "- sint a < 2 ^ 63"
    using sint_ge_min [of a] sint_lt_max [of a] by auto
  then show ?thesis by (simp add: sint_word_ariths signed_take_bit_int_eq_self)
qed

lemma uminus_MinInt64 [simp]: "- MinInt64 = MinInt64"
  by (simp add: MinInt64_def)

lemma sint_add_exact:
  assumes "in_int64 (sint a + sint b)"
  shows "sint (a + b :: int64) = sint a + sint b"
  using assms by (simp add: sint_word_ariths signed_take_bit_int_eq_self in_int64_def)

lemma uminus_zero_iff [simp]: "- (a :: int64) = 0 \<longleftrightarrow> a = 0"
  by simp

section \<open>Interfaces\<close>

text \<open>
  An encoder and a decoder that agree on a domain: the JSON documents kept in the
  database, the decimal and time formats, base64 and the pagination cursor.
\<close>

locale codec =
  fixes enc :: "'a \<Rightarrow> 'b"
    and dec :: "'b \<Rightarrow> 'a option"
    and ok :: "'a \<Rightarrow> bool"
  assumes dec_enc: "ok x \<Longrightarrow> dec (enc x) = Some x"
begin

lemma enc_inj: "ok x \<Longrightarrow> ok y \<Longrightarrow> enc x = enc y \<Longrightarrow> x = y"
  by (metis dec_enc option.inject)

lemma enc_inj_on: "inj_on enc {x. ok x}"
  by (auto intro!: inj_onI enc_inj)

lemma dec_enc_unique: "ok x \<Longrightarrow> dec (enc x) = Some y \<Longrightarrow> y = x"
  by (simp add: dec_enc)

end

text \<open>
  A transition system with an invariant. Every component with long-lived state (the
  ledger, the token bucket, the outbox, the exports) interprets it on its own step
  relation, and takes the induction over reachable states from here.
\<close>

inductive reaches :: "('s \<Rightarrow> 's \<Rightarrow> bool) \<Rightarrow> 's \<Rightarrow> 's \<Rightarrow> bool" for step where
  here: "reaches step s s"
| onward: "reaches step s t \<Longrightarrow> step t u \<Longrightarrow> reaches step s u"

lemma reaches_trans: "reaches step t u \<Longrightarrow> reaches step s t \<Longrightarrow> reaches step s u"
  by (induction rule: reaches.induct) (auto intro: reaches.intros)

lemma reaches_one: "step s t \<Longrightarrow> reaches step s t"
  by (rule reaches.onward [OF reaches.here])

locale stable =
  fixes step :: "'s \<Rightarrow> 's \<Rightarrow> bool"
    and inv :: "'s \<Rightarrow> bool"
  assumes step_inv: "step s t \<Longrightarrow> inv s \<Longrightarrow> inv t"
begin

lemma reaches_inv: "reaches step s t \<Longrightarrow> inv s \<Longrightarrow> inv t"
  by (induction rule: reaches.induct) (auto intro: step_inv)

end

text \<open>What a call keeps of a state, as a relation between before and after: it composes, also over a loop. The sessions, the
  readers and the calls that never write the cache each have such a frame.\<close>

locale frame =
  fixes keeps :: "'s \<Rightarrow> 's \<Rightarrow> bool"
  assumes keeps_refl: "keeps s s"
    and keeps_trans: "keeps s t \<Longrightarrow> keeps t u \<Longrightarrow> keeps s u"
begin

lemma keeps_fold: "(\<And>x s. keeps s (f x s)) \<Longrightarrow> keeps s (fold f xs s)"
  by (induction xs arbitrary: s) (auto intro: keeps_refl keeps_trans)

lemma keeps_run: "reaches keeps s t \<Longrightarrow> keeps s t"
  by (induction rule: reaches.induct) (auto intro: keeps_refl keeps_trans)

end

text \<open>A quantity that no step of an invariant system changes, or that only grows.\<close>

locale monotone_in = stable step inv + frame grows
  for step :: "'s \<Rightarrow> 's \<Rightarrow> bool" and inv :: "'s \<Rightarrow> bool" and grows :: "'s \<Rightarrow> 's \<Rightarrow> bool" +
  assumes step_grows: "step s t \<Longrightarrow> inv s \<Longrightarrow> grows s t"
begin

lemma reaches_grows: "reaches step s t \<Longrightarrow> inv s \<Longrightarrow> grows s t"
proof (induction rule: reaches.induct)
  case here
  show ?case by (rule keeps_refl)
next
  case (onward s t u)
  then show ?case by (blast intro: keeps_trans step_grows reaches_inv)
qed

end

section \<open>Lists and sums\<close>

lemma sum_list_map_filter_split:
  "(\<Sum>x\<leftarrow>filter P xs. f x) + (\<Sum>x\<leftarrow>filter (\<lambda>x. \<not> P x) xs. f x) = (\<Sum>x\<leftarrow>xs. f x :: int)"
  by (induction xs) auto

lemma sum_list_uminus: "(\<Sum>x\<leftarrow>xs. - f x) = - (\<Sum>x\<leftarrow>xs. f x :: int)"
  by (induction xs) auto

lemma filter_key_once: "distinct (map f xs) \<Longrightarrow> length (filter (\<lambda>x. f x = k) xs) \<le> 1"
proof (induction xs)
  case (Cons x xs)
  then have "f x = k \<Longrightarrow> filter (\<lambda>x. f x = k) xs = []" by (intro filter_False) (auto simp: image_iff)
  with Cons show ?case by auto
qed simp

lemma find_append: "find P (xs @ ys) = (case find P xs of None \<Rightarrow> find P ys | Some x \<Rightarrow> Some x)"
  by (induction xs) auto

lemma find_Some_in: "find P xs = Some x \<Longrightarrow> x \<in> set xs \<and> P x"
  by (induction xs) (auto split: if_splits)

lemma find_None_all: "find P xs = None \<longleftrightarrow> (\<forall>x\<in>set xs. \<not> P x)"
  by (auto simp: find_None_iff)

lemma find_unique:
  assumes "x \<in> set xs" and "P x" and "\<And>y. y \<in> set xs \<Longrightarrow> P y \<Longrightarrow> y = x"
  shows "find P xs = Some x"
proof (cases "find P xs")
  case None
  with assms(1,2) show ?thesis by (simp add: find_None_all)
next
  case (Some y)
  with find_Some_in [OF Some] assms(3) [of y] show ?thesis by simp
qed

lemma map_if_id: "(\<And>x. x \<in> set xs \<Longrightarrow> \<not> P x) \<Longrightarrow> map (\<lambda>x. if P x then f x else x) xs = xs"
  by (induction xs) auto

lemma filter_False_all: "(\<And>x. x \<in> set xs \<Longrightarrow> \<not> P x) \<Longrightarrow> filter P xs = []"
  by (induction xs) auto

lemma distinct_map_eqD: "distinct (map f xs) \<Longrightarrow> x \<in> set xs \<Longrightarrow> y \<in> set xs \<Longrightarrow> f x = f y \<Longrightarrow> x = y"
  by (auto simp: distinct_map inj_on_def)

lemma sum_list_partition_by:
  assumes "distinct ks" and "\<And>x. x \<in> set xs \<Longrightarrow> g x \<in> set ks"
  shows "(\<Sum>k\<leftarrow>ks. \<Sum>x\<leftarrow>filter (\<lambda>x. g x = k) xs. f x) = (\<Sum>x\<leftarrow>xs. f x :: int)"
  using assms
proof (induction ks arbitrary: xs)
  case Nil
  then show ?case by (cases xs) auto
next
  case (Cons k ks)
  let ?rest = "filter (\<lambda>x. g x \<noteq> k) xs"
  have "filter (\<lambda>x. g x = k') ?rest = filter (\<lambda>x. g x = k') xs" if "k' \<in> set ks" for k'
    using that Cons.prems(1) by (induction xs) auto
  then have "(\<Sum>k'\<leftarrow>ks. \<Sum>x\<leftarrow>filter (\<lambda>x. g x = k') xs. f x)
      = (\<Sum>k'\<leftarrow>ks. \<Sum>x\<leftarrow>filter (\<lambda>x. g x = k') ?rest. f x)"
    by (intro arg_cong [where f = sum_list] map_cong) auto
  also have "\<dots> = (\<Sum>x\<leftarrow>?rest. f x)"
    using Cons.prems by (intro Cons.IH) auto
  finally show ?case using sum_list_map_filter_split [of f "\<lambda>x. g x = k" xs] by simp
qed

end
