(* ===== verification/GoText.thy ===== *)
theory GoText
  imports Prelude
begin

text \<open>
  Text as the Go sources handle it: decimal printing (\<open>strconv.FormatInt\<close>, \<open>fmt\<close>'s
  \<open>%d\<close>), decimal parsing (\<open>strconv.ParseInt\<close> and \<open>strconv.Atoi\<close>, base 10, 64 bit) and the
  \<open>strings\<close> functions the handlers call. A Go string is a byte sequence, and so is a
  \<open>string\<close> here. These are standard-library functions: the definitions follow their
  documented behaviour and have no counterpart under src/.
\<close>

section \<open>Digits\<close>

definition is_digit :: "char \<Rightarrow> bool" where
  "is_digit c \<longleftrightarrow> 48 \<le> (of_char c :: nat) \<and> (of_char c :: nat) \<le> 57"

definition digit_val :: "char \<Rightarrow> nat" where
  "digit_val c = of_char c - 48"

definition digit_char :: "nat \<Rightarrow> char" where
  "digit_char n = char_of (48 + n)"

lemma of_char_digit_char: "n < 10 \<Longrightarrow> of_char (digit_char n) = 48 + n"
  by (simp add: digit_char_def of_char_of)

lemma is_digit_digit_char [simp]: "n < 10 \<Longrightarrow> is_digit (digit_char n)"
  by (simp add: is_digit_def of_char_digit_char)

lemma digit_val_digit_char [simp]: "n < 10 \<Longrightarrow> digit_val (digit_char n) = n"
  by (simp add: digit_val_def of_char_digit_char)

lemma digit_char_not: "n < 10 \<Longrightarrow> \<not> is_digit c \<Longrightarrow> digit_char n \<noteq> c"
  using is_digit_digit_char by blast

section \<open>Decimal printing\<close>

fun dec_nat :: "nat \<Rightarrow> string" where
  "dec_nat n = (if n < 10 then [digit_char n] else dec_nat (n div 10) @ [digit_char (n mod 10)])"

declare dec_nat.simps [simp del]

definition fmt_int :: "int \<Rightarrow> string" where
  "fmt_int k = (if k < 0 then ''-'' @ dec_nat (nat (- k)) else dec_nat (nat k))"

text \<open>\<open>time\<close>'s \<open>appendInt\<close>: at least \<open>w\<close> digits, the sign in front of the padding.\<close>

definition zero_pad :: "nat \<Rightarrow> string \<Rightarrow> string" where
  "zero_pad w s = replicate (w - length s) (digit_char 0) @ s"

definition append_int :: "nat \<Rightarrow> int \<Rightarrow> string" where
  "append_int w k = (if k < 0 then ''-'' @ zero_pad w (dec_nat (nat (- k))) else zero_pad w (dec_nat (nat k)))"

text \<open>Code equations that compute with binary integers instead of unary naturals.\<close>

definition int_digit :: "int \<Rightarrow> char" where
  "int_digit k = (if k = 0 then CHR ''0'' else if k = 1 then CHR ''1'' else if k = 2 then CHR ''2''
     else if k = 3 then CHR ''3'' else if k = 4 then CHR ''4'' else if k = 5 then CHR ''5''
     else if k = 6 then CHR ''6'' else if k = 7 then CHR ''7'' else if k = 8 then CHR ''8'' else CHR ''9'')"

lemma digit_char_eqs:
  "digit_char 0 = CHR ''0''" "digit_char 1 = CHR ''1''" "digit_char 2 = CHR ''2''" "digit_char 3 = CHR ''3''"
  "digit_char 4 = CHR ''4''" "digit_char 5 = CHR ''5''" "digit_char 6 = CHR ''6''" "digit_char 7 = CHR ''7''"
  "digit_char 8 = CHR ''8''" "digit_char 9 = CHR ''9''"
  by code_simp+

lemma int_digit_char:
  assumes "0 \<le> k" "k < 10"
  shows "int_digit k = digit_char (nat k)"
proof -
  from assms have "k = 0 \<or> k = 1 \<or> k = 2 \<or> k = 3 \<or> k = 4 \<or> k = 5 \<or> k = 6 \<or> k = 7 \<or> k = 8 \<or> k = 9"
    by arith
  then show ?thesis by (elim disjE) (simp_all add: int_digit_def digit_char_eqs [simplified])
qed

function dec_int :: "int \<Rightarrow> string" where
  "dec_int k = (if k < 10 then [int_digit k] else dec_int (k div 10) @ [int_digit (k mod 10)])"
  by auto
termination by (relation "measure nat") auto

declare dec_int.simps [simp del]

lemma dec_int_nat: "0 \<le> k \<Longrightarrow> dec_int k = dec_nat (nat k)"
proof (induction k rule: dec_int.induct)
  case (1 k)
  then show ?case
    using dec_int.simps [of k] dec_nat.simps [of "nat k"]
    by (auto simp: int_digit_char nat_div_distrib nat_mod_distrib)
qed

lemma fmt_int_code [code]: "fmt_int k = (if k < 0 then ''-'' @ dec_int (- k) else dec_int k)"
  by (simp add: fmt_int_def dec_int_nat)

lemma append_int_code [code]:
  "append_int w k = (if k < 0 then ''-'' @ zero_pad w (dec_int (- k)) else zero_pad w (dec_int k))"
  by (simp add: append_int_def dec_int_nat)

lemma zero_pad_code [code]: "zero_pad w s = replicate (w - length s) CHR ''0'' @ s"
  by (simp add: zero_pad_def digit_char_eqs)

section \<open>Decimal parsing\<close>

fun digits_from :: "nat \<Rightarrow> string \<Rightarrow> nat option" where
  "digits_from a [] = Some a"
| "digits_from a (c # cs) = (if is_digit c then digits_from (10 * a + digit_val c) cs else None)"

definition parse_uint :: "string \<Rightarrow> nat option" where
  "parse_uint cs = (if cs = [] then None else digits_from 0 cs)"

definition ParseInt :: "string \<Rightarrow> int option" where
  "ParseInt s =
     (case s of
        [] \<Rightarrow> None
      | c # cs \<Rightarrow>
          (if c = CHR ''-'' then
             (case parse_uint cs of None \<Rightarrow> None
              | Some n \<Rightarrow> if n \<le> 2 ^ 63 then Some (- int n) else None)
           else
             (case parse_uint (if c = CHR ''+'' then cs else s) of None \<Rightarrow> None
              | Some n \<Rightarrow> if n < 2 ^ 63 then Some (int n) else None)))"

text \<open>The same over integers, for evaluation.\<close>

fun int_digits_from :: "int \<Rightarrow> string \<Rightarrow> int option" where
  "int_digits_from a [] = Some a"
| "int_digits_from a (c # cs) = (if is_digit c then int_digits_from (10 * a + int (digit_val c)) cs else None)"

lemma int_digits_from_nat: "int_digits_from (int a) cs = map_option int (digits_from a cs)"
proof (induction cs arbitrary: a)
  case (Cons c cs)
  from Cons [of "10 * a + digit_val c"] show ?case by simp
qed simp

definition int_parse_uint :: "string \<Rightarrow> int option" where
  "int_parse_uint cs = (if cs = [] then None else int_digits_from 0 cs)"

lemma int_parse_uint_nat: "int_parse_uint cs = map_option int (parse_uint cs)"
  using int_digits_from_nat [of 0 cs] by (simp add: int_parse_uint_def parse_uint_def)

lemma ParseInt_code [code]:
  "ParseInt s =
     (case s of
        [] \<Rightarrow> None
      | c # cs \<Rightarrow>
          (if c = CHR ''-'' then
             (case int_parse_uint cs of None \<Rightarrow> None
              | Some n \<Rightarrow> if n \<le> 2 ^ 63 then Some (- n) else None)
           else
             (case int_parse_uint (if c = CHR ''+'' then cs else s) of None \<Rightarrow> None
              | Some n \<Rightarrow> if n < 2 ^ 63 then Some n else None)))"
  by (auto simp: ParseInt_def int_parse_uint_nat split: list.splits option.splits)

section \<open>Round trip of decimal integers\<close>

lemma dec_nat_not_Nil [simp]: "dec_nat n \<noteq> []"
  by (subst dec_nat.simps) simp

lemma dec_nat_digits: "c \<in> set (dec_nat n) \<Longrightarrow> is_digit c"
proof (induction n arbitrary: c rule: dec_nat.induct)
  case (1 n)
  then show ?case
    by (cases "n < 10") (auto simp: dec_nat.simps [of n])
qed

lemma digits_from_append:
  "digits_from a (xs @ ys) = Option.bind (digits_from a xs) (\<lambda>b. digits_from b ys)"
  by (induction xs arbitrary: a) auto

lemma digits_from_dec_nat: "digits_from 0 (dec_nat n) = Some n"
proof (induction n rule: dec_nat.induct)
  case (1 n)
  show ?case
  proof (cases "n < 10")
    case True
    then show ?thesis by (simp add: dec_nat.simps [of n])
  next
    case False
    with "1.IH" show ?thesis
      by (simp add: dec_nat.simps [of n] digits_from_append)
  qed
qed

lemma digits_from_zeros: "digits_from 0 (replicate k (digit_char 0) @ s) = digits_from 0 s"
  by (induction k) auto

lemma digits_from_zero_pad [simp]: "digits_from 0 (zero_pad w (dec_nat n)) = Some n"
  by (simp add: zero_pad_def digits_from_zeros digits_from_dec_nat)

lemma zero_pad_digits: "c \<in> set (zero_pad w (dec_nat n)) \<Longrightarrow> is_digit c"
  by (auto simp: zero_pad_def dest: dec_nat_digits)

lemma parse_uint_dec_nat [simp]: "parse_uint (dec_nat n) = Some n"
  by (simp add: parse_uint_def digits_from_dec_nat)

lemma not_is_digit_sign [simp]: "\<not> is_digit CHR ''-''" "\<not> is_digit CHR ''+''" "\<not> is_digit CHR '':''"
  "\<not> is_digit CHR ''|''" "\<not> is_digit CHR ''.''" "\<not> is_digit CHR '',''" "\<not> is_digit CHR ''Z''"
  "\<not> is_digit CHR ''T''"
  by (simp_all add: is_digit_def)

lemma ParseInt_dec_nat: "n < 2 ^ 63 \<Longrightarrow> ParseInt (dec_nat n) = Some (int n)"
proof -
  assume n: "n < 2 ^ 63"
  obtain c cs where e: "dec_nat n = c # cs" by (cases "dec_nat n") auto
  then have "is_digit c" using dec_nat_digits [of c n] by simp
  then have c: "c \<noteq> CHR ''-''" "c \<noteq> CHR ''+''" by auto
  have "parse_uint (c # cs) = Some n" using e parse_uint_dec_nat [of n] by simp
  with n c e show ?thesis by (simp add: ParseInt_def)
qed

lemma ParseInt_fmt_int: "in_int64 k \<Longrightarrow> ParseInt (fmt_int k) = Some k"
proof (cases "k < 0")
  case True
  assume "in_int64 k"
  with True have "nat (- k) \<le> 2 ^ 63" by (simp add: in_int64_def)
  with True show ?thesis by (simp add: fmt_int_def ParseInt_def)
next
  case False
  assume "in_int64 k"
  with False have "nat k < 2 ^ 63" by (simp add: in_int64_def)
  with False show ?thesis by (simp add: fmt_int_def ParseInt_dec_nat)
qed

interpretation int_text: codec fmt_int ParseInt in_int64
  by unfold_locales (rule ParseInt_fmt_int)

lemma ParseInt_range: "ParseInt s = Some k \<Longrightarrow> in_int64 k"
  by (auto simp: ParseInt_def in_int64_def split: list.splits option.splits if_splits)

text \<open>Without the range check printing is still injective: keys built from ids are distinct.\<close>

lemma dec_nat_inj: "dec_nat m = dec_nat n \<Longrightarrow> m = n"
  by (metis digits_from_dec_nat option.inject)

lemma fmt_int_inj: "fmt_int j = fmt_int k \<longleftrightarrow> j = k"
proof
  assume e: "fmt_int j = fmt_int k"
  have no: "dec_nat m \<noteq> CHR ''-'' # cs" for m cs
    using dec_nat_digits [of "CHR ''-''" m] by (metis list.set_intros(1) not_is_digit_sign(1))
  from e show "j = k"
    by (auto simp: fmt_int_def no no [symmetric] split: if_splits dest!: dec_nat_inj)
qed simp

lemma fmt_int_chars: "c \<in> set (fmt_int k) \<Longrightarrow> is_digit c \<or> c = CHR ''-''"
  by (auto simp: fmt_int_def split: if_splits dest: dec_nat_digits)

section \<open>Splitting a text at a separator\<close>

text \<open>\<open>strings.SplitN(s, sep, 2)\<close> with a one-byte separator: one part when it does not occur.\<close>

definition split2 :: "char \<Rightarrow> string \<Rightarrow> string list" where
  "split2 c s = (let p = takeWhile (\<lambda>x. x \<noteq> c) s
                 in if length p = length s then [s] else [p, drop (Suc (length p)) s])"

lemma takeWhile_sep: "c \<notin> set xs \<Longrightarrow> takeWhile (\<lambda>x. x \<noteq> c) (xs @ c # ys) = xs"
  by (induction xs) auto

lemma split2_sep: "c \<notin> set xs \<Longrightarrow> split2 c (xs @ [c] @ ys) = [xs, ys]"
  by (simp add: split2_def takeWhile_sep)

lemma append_sep_inj:
  assumes "c \<notin> set xs" and "c \<notin> set xs'" and "xs @ c # ys = xs' @ c # ys'"
  shows "xs = xs' \<and> ys = ys'"
proof -
  have "takeWhile (\<lambda>x. x \<noteq> c) (xs @ c # ys) = takeWhile (\<lambda>x. x \<noteq> c) (xs' @ c # ys')"
    using assms(3) by simp
  then have "xs = xs'" using assms(1,2) by (simp add: takeWhile_sep)
  with assms(3) show ?thesis by simp
qed

section \<open>Prefixes, trimming and case\<close>

text \<open>
  \<open>strings.HasPrefix\<close>, \<open>strings.TrimPrefix\<close>, and \<open>strings.TrimSpace\<close>, \<open>strings.ToLower\<close> and
  \<open>strings.EqualFold\<close> on ASCII text.
\<close>

fun HasPrefix :: "string \<Rightarrow> string \<Rightarrow> bool" where
  "HasPrefix s [] = True"
| "HasPrefix [] (p # ps) = False"
| "HasPrefix (c # cs) (p # ps) = (c = p \<and> HasPrefix cs ps)"

definition TrimPrefix :: "string \<Rightarrow> string \<Rightarrow> string" where
  "TrimPrefix s p = (if HasPrefix s p then drop (length p) s else s)"

lemma HasPrefix_append [simp]: "HasPrefix (p @ s) p"
  by (induction p) auto

lemma HasPrefix_iff: "HasPrefix s p \<longleftrightarrow> (\<exists>r. s = p @ r)"
  by (induction s p rule: HasPrefix.induct) auto

lemma TrimPrefix_append [simp]: "TrimPrefix (p @ s) p = s"
  by (simp add: TrimPrefix_def)

definition is_space :: "char \<Rightarrow> bool" where
  "is_space c \<longleftrightarrow> (of_char c :: nat) \<in> {9, 10, 11, 12, 13, 32}"

definition TrimSpace :: "string \<Rightarrow> string" where
  "TrimSpace s = rev (dropWhile is_space (rev (dropWhile is_space s)))"

definition to_lower :: "char \<Rightarrow> char" where
  "to_lower c = (if 65 \<le> (of_char c :: nat) \<and> (of_char c :: nat) \<le> 90 then char_of ((of_char c :: nat) + 32) else c)"

definition ToLower :: "string \<Rightarrow> string" where
  "ToLower = map to_lower"

definition EqualFold :: "string \<Rightarrow> string \<Rightarrow> bool" where
  "EqualFold s t \<longleftrightarrow> ToLower s = ToLower t"

lemma to_lower_idem [simp]: "to_lower (to_lower c) = to_lower c"
  by (auto simp: to_lower_def of_char_of)

lemma is_space_to_lower [simp]: "is_space (to_lower c) = is_space c"
  by (auto simp: to_lower_def is_space_def of_char_of)

lemma ToLower_TrimSpace: "ToLower (TrimSpace s) = TrimSpace (ToLower s)"
  by (simp add: ToLower_def TrimSpace_def rev_map dropWhile_map o_def)

lemma dropWhile_idem: "dropWhile P (dropWhile P xs) = dropWhile P xs"
  by (induction xs) auto

lemma dropWhile_rev_dropWhile:
  "dropWhile P (rev (dropWhile P (rev (dropWhile P xs)))) = rev (dropWhile P (rev (dropWhile P xs)))"
proof -
  let ?ys = "dropWhile P xs"
  have "dropWhile P (rev (dropWhile P (rev ?ys))) = rev (dropWhile P (rev ?ys))"
  proof (cases "rev (dropWhile P (rev ?ys))")
    case Nil
    then show ?thesis by (simp only: dropWhile.simps)
  next
    case (Cons y zs)
    obtain ws where "rev ?ys = ws @ dropWhile P (rev ?ys)"
      by (metis takeWhile_dropWhile_id)
    then have "?ys = rev (dropWhile P (rev ?ys)) @ rev ws"
      by (metis rev_append rev_rev_ident)
    with Cons have "?ys = y # zs @ rev ws" by simp
    then have "\<not> P y" by (metis dropWhile_eq_Cons_conv)
    with Cons show ?thesis by simp
  qed
  then show ?thesis .
qed

lemma TrimSpace_idem: "TrimSpace (TrimSpace s) = TrimSpace s"
  unfolding TrimSpace_def by (simp add: dropWhile_rev_dropWhile dropWhile_idem)

end
