(* ===== verification/GoTime.thy ===== *)
theory GoTime
  imports GoText
begin

text \<open>
  Times as the Go sources handle them. A \<open>time.Time\<close> is an instant (nanoseconds since the
  Unix epoch) and the UTC offset of its location, in seconds; a Postgres \<open>timestamptz\<close> is
  an instant in microseconds and a \<open>date\<close> a day number. The theory gives the civil calendar,
  \<open>time.Date\<close>, the layouts the code formats with (\<open>RFC3339Nano\<close>, \<open>RFC3339\<close>, \<open>2006-01\<close>,
  \<open>2006-01-02\<close>), and \<open>time.Parse\<close> for them, with the round trips the components rely on.
  These are standard-library functions and have no counterpart under src/.
\<close>

section \<open>The civil calendar\<close>

text \<open>
  Years are counted from March, so that the leap day is the last of its year:
  \<open>days_before y\<close> is the number of days before 1 March of year \<open>y\<close>, counted from 1 March of
  year 0.
\<close>

definition days_before :: "int \<Rightarrow> int" where
  "days_before y = 365 * y + y div 4 - y div 100 + y div 400"

definition march_year :: "int \<Rightarrow> int" where
  "march_year n = (let y = 400 * n div 146097 in if days_before (y + 1) \<le> n then y + 1 else y)"

definition month_start :: "int \<Rightarrow> int" where
  "month_start mp = (153 * mp + 2) div 5"

definition is_leap :: "int \<Rightarrow> bool" where
  "is_leap y \<longleftrightarrow> y mod 4 = 0 \<and> (y mod 100 \<noteq> 0 \<or> y mod 400 = 0)"

lemma div_lo: "numeral k * (y div numeral k) \<le> (y :: int)"
proof -
  have "numeral k * (y div numeral k) = y - y mod numeral k" by (simp only: minus_mod_eq_mult_div)
  then show ?thesis using pos_mod_sign [of "numeral k" y] by simp
qed

lemma div_hi: "(y :: int) < numeral k * (y div numeral k) + numeral k"
proof -
  have "numeral k * (y div numeral k) = y - y mod numeral k" by (simp only: minus_mod_eq_mult_div)
  then show ?thesis using pos_mod_bound [of "numeral k" y] by simp
qed

lemmas div_bounds = div_lo div_hi

lemma div_step:
  assumes "0 < (k :: int)"
  shows "y div k - (y - 1) div k = (if y mod k = 0 then 1 else 0)"
proof -
  have e: "y = k * (y div k) + y mod k" by simp
  have "(y - 1) div k = (if y mod k = 0 then y div k - 1 else y div k)"
  proof (cases "y mod k = 0")
    case True
    then have "y - 1 = k * (y div k - 1) + (k - 1)" using e by (simp add: algebra_simps)
    then have "(y - 1) div k = y div k - 1" by (rule int_div_pos_eq) (use assms in auto)
    then show ?thesis using True by simp
  next
    case False
    then have "y - 1 = k * (y div k) + (y mod k - 1)" using e by simp
    moreover have "0 \<le> y mod k - 1" using False pos_mod_sign [OF assms, of y] by linarith
    moreover have "y mod k - 1 < k" using pos_mod_bound [OF assms, of y] by linarith
    ultimately have "(y - 1) div k = y div k" by (rule int_div_pos_eq)
    then show ?thesis using False by simp
  qed
  then show ?thesis by simp
qed

lemma days_before_bounds:
  "146097 * y - 699 \<le> 400 * days_before y" "400 * days_before y \<le> 146097 * y + 396"
proof -
  define q4 q100 q400 where "q4 = y div 4" and "q100 = y div 100" and "q400 = y div 400"
  note q = q4_def q100_def q400_def
  have "4 * q4 \<le> y" "y < 4 * q4 + 4" "100 * q100 \<le> y" "y < 100 * q100 + 100"
    "400 * q400 \<le> y" "y < 400 * q400 + 400"
    unfolding q by (rule div_bounds)+
  moreover have "days_before y = 365 * y + q4 - q100 + q400"
    by (simp add: days_before_def q)
  ultimately show "146097 * y - 699 \<le> 400 * days_before y" "400 * days_before y \<le> 146097 * y + 396"
    by linarith+
qed

lemma leap_count:
  "C \<longrightarrow> B \<Longrightarrow> B \<longrightarrow> A \<Longrightarrow>
   (365 + (if A then 1 else 0) - (if B then 1 else 0) + (if C then 1 else 0) :: int)
   = (if A \<and> (\<not> B \<or> C) then 366 else 365)"
  by (cases A; cases B; cases C) simp_all

lemma year_length: "days_before y - days_before (y - 1) = (if is_leap y then 366 else 365)"
proof -
  have "y mod 400 = 0 \<longrightarrow> y mod 100 = 0" and "y mod 100 = 0 \<longrightarrow> y mod 4 = 0"
    by (auto simp: mod_eq_0_iff_dvd dest: dvd_trans [of 100 400 y, rotated] dvd_trans [of 4 100 y, rotated])
  note leap = leap_count [OF this]
  have "days_before y - days_before (y - 1) = 365 + (y div 4 - (y - 1) div 4)
      - (y div 100 - (y - 1) div 100) + (y div 400 - (y - 1) div 400)"
    unfolding days_before_def by (simp only: right_diff_distrib)
  also have "\<dots> = (if is_leap y then 366 else 365)"
    by (simp only: div_step zero_less_numeral leap is_leap_def)
  finally show ?thesis .
qed

lemma year_length_ge: "days_before y + 365 \<le> days_before (y + 1)"
  using year_length [of "y + 1"] by (auto split: if_splits)

lemma days_before_mono: "y < z \<Longrightarrow> days_before y < days_before z"
proof (induction z rule: int_gr_induct)
  case base
  show ?case using year_length_ge [of y] by simp
next
  case (step i)
  then show ?case using year_length_ge [of i] by simp
qed

lemma days_before_less_iff: "days_before y < days_before z \<longleftrightarrow> y < z"
  using days_before_mono [of y z] days_before_mono [of z y] by (cases y z rule: linorder_cases) auto

lemma days_before_le_iff: "days_before y \<le> days_before z \<longleftrightarrow> y \<le> z"
  using days_before_less_iff [of z y] by auto

lemma march_year_bounds:
  "days_before (march_year n) \<le> n \<and> n < days_before (march_year n + 1)"
proof -
  define y where "y = 400 * n div 146097"
  have "146097 * y \<le> 400 * n" and "400 * n < 146097 * y + 146097"
    unfolding y_def by (rule div_bounds)+
  moreover define z where "z = y + 1 + 1"
  ultimately have "days_before y \<le> n" and "n < days_before z"
    using days_before_bounds(2) [of y] days_before_bounds(1) [of z] by linarith+
  then show ?thesis by (auto simp: march_year_def Let_def y_def [symmetric] z_def)
qed

lemma march_year_unique:
  assumes "days_before y \<le> n" and "n < days_before (y + 1)"
  shows "march_year n = y"
proof -
  let ?m = "march_year n"
  have "days_before y < days_before (?m + 1)" and "days_before ?m < days_before (y + 1)"
    using assms march_year_bounds [of n] by auto
  then show ?thesis by (simp add: days_before_less_iff)
qed

text \<open>\<open>civil_days y m d\<close>: the day number of a civil date; day 0 is 1 January 1970.\<close>

definition civil_days :: "int \<Rightarrow> int \<Rightarrow> int \<Rightarrow> int" where
  "civil_days y m d =
     (if m \<le> 2 then days_before (y - 1) + month_start (m + 9)
      else days_before y + month_start (m - 3)) + d - 1 - 719468"

definition civil_of :: "int \<Rightarrow> int \<times> int \<times> int" where
  "civil_of day =
     (let n = day + 719468; y = march_year n; doy = n - days_before y; mp = (5 * doy + 2) div 153
      in (if mp < 10 then y else y + 1, if mp < 10 then mp + 3 else mp - 9, doy - month_start mp + 1))"

definition days_in :: "int \<Rightarrow> int \<Rightarrow> int" where
  "days_in y m = (if m = 2 then (if is_leap y then 29 else 28)
                  else if m \<in> {4, 6, 9, 11} then 30 else 31)"

definition valid_date :: "int \<Rightarrow> int \<Rightarrow> int \<Rightarrow> bool" where
  "valid_date y m d \<longleftrightarrow> 1 \<le> m \<and> m \<le> 12 \<and> 1 \<le> d \<and> d \<le> days_in y m"

lemma month_start_bounds: "153 * mp - 2 \<le> 5 * month_start mp" "5 * month_start mp \<le> 153 * mp + 2"
  using div_lo [of "num.Bit1 (num.Bit0 num.One)" "153 * mp + 2"]
    div_hi [of "153 * mp + 2" "num.Bit1 (num.Bit0 num.One)"]
  unfolding month_start_def by linarith+

lemma month_of_day:
  assumes "month_start mp \<le> doy" and "doy < month_start (mp + 1)"
  shows "(5 * doy + 2) div 153 = mp"
proof (rule int_div_pos_eq)
  show "5 * doy + 2 = 153 * mp + (5 * doy + 2 - 153 * mp)" by simp
  show "0 \<le> 5 * doy + 2 - 153 * mp"
    using assms(1) month_start_bounds(1) [of mp] by linarith
  define M where "M = mp + 1"
  show "5 * doy + 2 - 153 * mp < 153"
    using assms(2) month_start_bounds(2) [of M] unfolding M_def [symmetric] using M_def by linarith
qed

lemma civil_of_march:
  assumes "0 \<le> doy" and "doy < days_before (y + 1) - days_before y"
    and "month_start mp \<le> doy" and "doy < month_start (mp + 1)"
  shows "civil_of (days_before y + doy - 719468)
       = (if mp < 10 then y else y + 1, if mp < 10 then mp + 3 else mp - 9, doy - month_start mp + 1)"
proof -
  have "march_year (days_before y + doy) = y"
    using assms by (intro march_year_unique) auto
  moreover have "(5 * doy + 2) div 153 = mp"
    using assms by (intro month_of_day)
  ultimately show ?thesis by (simp add: civil_of_def Let_def)
qed

text \<open>The month lengths agree with the month starts of the March year.\<close>

lemma civil_of_civil_days:
  assumes "valid_date y m d"
  shows "civil_of (civil_days y m d) = (y, m, d)"
proof -
  have m: "m \<in> {1, 2, 3, 4, 5, 6, 7, 8, 9, 10, 11, 12}"
    using assms unfolding valid_date_def insert_iff empty_iff by presburger
  show ?thesis
  proof (cases "m \<le> 2")
    case True
    with m have "m = 1 \<or> m = 2" by auto
    then have "month_start (m + 9) + d - 1 < days_before (y - 1 + 1) - days_before (y - 1)"
      and "0 \<le> month_start (m + 9) + d - 1" "d \<ge> 1"
        "month_start (m + 9) + d - 1 < month_start (m + 9 + 1)"
      using assms year_length [of y]
      by (auto simp: valid_date_def days_in_def month_start_def split: if_splits)
    then show ?thesis
      using True m civil_of_march [of "month_start (m + 9) + d - 1" "y - 1" "m + 9"]
      by (auto simp: civil_days_def algebra_simps)
  next
    case False
    then have "month_start (m - 3) + d - 1 < days_before (y + 1) - days_before y"
      and "0 \<le> month_start (m - 3) + d - 1" "d \<ge> 1"
        "month_start (m - 3) + d - 1 < month_start (m - 3 + 1)"
      using assms m year_length_ge [of y]
      by (auto simp: valid_date_def days_in_def month_start_def split: if_splits)
    then show ?thesis
      using False m civil_of_march [of "month_start (m - 3) + d - 1" y "m - 3"]
      by (auto simp: civil_days_def algebra_simps)
  qed
qed

lemma march_day_bound:
  assumes "0 \<le> doy" and "doy < 366" and "mp = (5 * doy + 2) div 153"
  shows "0 \<le> mp" "mp \<le> 11" "month_start mp \<le> doy" "doy < month_start (mp + 1)"
proof -
  have "153 * mp \<le> 5 * doy + 2" and "5 * doy + 2 < 153 * mp + 153"
    unfolding assms(3) by (rule div_bounds)+
  moreover define M where "M = mp + 1"
  ultimately show "0 \<le> mp" "mp \<le> 11" "month_start mp \<le> doy" "doy < month_start (mp + 1)"
    using assms(1,2) month_start_bounds(2) [of mp] month_start_bounds(1) [of M]
    unfolding M_def [symmetric] using M_def by linarith+
qed

lemma civil_of_valid:
  assumes "civil_of n = (y, m, d)"
  shows "valid_date y m d \<and> civil_days y m d = n"
proof -
  let ?n = "n + 719468"
  define Y where "Y = march_year ?n"
  define doy where "doy = ?n - days_before Y"
  define mp where "mp = (5 * doy + 2) div 153"
  have n: "n = days_before Y + doy - 719468" by (simp add: doy_def)
  have len: "days_before (Y + 1) - days_before Y = (if is_leap (Y + 1) then 366 else 365)"
    using year_length [of "Y + 1"] by simp
  have doy: "0 \<le> doy" "doy < days_before (Y + 1) - days_before Y"
    using march_year_bounds [of ?n] by (auto simp: Y_def doy_def)
  then have "doy < 366" using len by (auto split: if_splits)
  then have mp: "0 \<le> mp" "mp \<le> 11" "month_start mp \<le> doy" "doy < month_start (mp + 1)"
    using march_day_bound [OF doy(1) _ mp_def] by auto
  have r: "(y, m, d) = (if mp < 10 then Y else Y + 1, if mp < 10 then mp + 3 else mp - 9, doy - month_start mp + 1)"
    using assms unfolding civil_of_def Let_def Y_def [symmetric] doy_def [symmetric] mp_def [symmetric]
    by simp
  have mpc: "mp \<in> {0, 1, 2, 3, 4, 5, 6, 7, 8, 9, 10, 11}"
    using mp(1,2) unfolding insert_iff empty_iff by presburger
  have "valid_date y m d"
    using mpc r mp(3,4) doy(2) unfolding len insert_iff empty_iff
    by (elim disjE) (simp_all add: valid_date_def days_in_def month_start_def split: if_split_asm)
  moreover have "civil_days y m d = n"
    using r mp(1,2) by (cases "mp < 10") (simp_all add: civil_days_def n)
  ultimately show ?thesis ..
qed

section \<open>Instants\<close>

record gtime =
  unix_ns :: int
  zone_off :: int

definition wall_secs :: "gtime \<Rightarrow> int" where
  "wall_secs t = unix_ns t div 1000000000 + zone_off t"

definition Nanosecond :: "gtime \<Rightarrow> int" where
  "Nanosecond t = unix_ns t mod 1000000000"

definition wall_date :: "gtime \<Rightarrow> int \<times> int \<times> int" where
  "wall_date t = civil_of (wall_secs t div 86400)"

definition Year :: "gtime \<Rightarrow> int" where
  "Year t = fst (wall_date t)"

definition Month :: "gtime \<Rightarrow> int" where
  "Month t = fst (snd (wall_date t))"

definition Day :: "gtime \<Rightarrow> int" where
  "Day t = snd (snd (wall_date t))"

definition Hour :: "gtime \<Rightarrow> int" where
  "Hour t = wall_secs t mod 86400 div 3600"

definition Minute :: "gtime \<Rightarrow> int" where
  "Minute t = wall_secs t mod 86400 mod 3600 div 60"

definition Second :: "gtime \<Rightarrow> int" where
  "Second t = wall_secs t mod 86400 mod 3600 mod 60"

text \<open>\<open>time.Date\<close> for fields in range, in a location of fixed offset; \<open>t.UTC()\<close>; \<open>t.IsZero()\<close>.\<close>

definition time_Date :: "int \<Rightarrow> int \<Rightarrow> int \<Rightarrow> int \<Rightarrow> int \<Rightarrow> int \<Rightarrow> int \<Rightarrow> int \<Rightarrow> gtime" where
  "time_Date y m d hh mm ss ns off =
     \<lparr>unix_ns = (civil_days y m d * 86400 + hh * 3600 + mm * 60 + ss - off) * 1000000000 + ns,
      zone_off = off\<rparr>"

definition UTC :: "gtime \<Rightarrow> gtime" where
  "UTC t = t\<lparr>zone_off := 0\<rparr>"

definition IsZero :: "gtime \<Rightarrow> bool" where
  "IsZero t \<longleftrightarrow> unix_ns t = civil_days 1 1 1 * 86400 * 1000000000"

text \<open>The value pgx sends for a \<open>timestamptz\<close> parameter: whole microseconds, rounded down.\<close>

definition pg_time :: "gtime \<Rightarrow> int" where
  "pg_time t = unix_ns t div 1000"

lemma wall_date_valid: "valid_date (Year t) (Month t) (Day t)"
  and wall_date_days: "civil_days (Year t) (Month t) (Day t) = wall_secs t div 86400"
  using civil_of_valid [of "wall_secs t div 86400" "Year t" "Month t" "Day t"]
  by (auto simp: Year_def Month_def Day_def wall_date_def)

lemma clock_fields:
  "0 \<le> Hour t" "Hour t < 24" "0 \<le> Minute t" "Minute t < 60" "0 \<le> Second t" "Second t < 60"
  "0 \<le> Nanosecond t" "Nanosecond t < 1000000000"
  by (auto simp: Hour_def Minute_def Second_def Nanosecond_def)

lemma clock_sum: "Hour t * 3600 + Minute t * 60 + Second t = wall_secs t mod 86400"
  using mult_div_mod_eq [of 3600 "wall_secs t mod 86400"]
    mult_div_mod_eq [of 60 "wall_secs t mod 86400 mod 3600"]
  by (simp add: Hour_def Minute_def Second_def)

text \<open>A time is its fields: \<open>time.Date\<close> of the fields of \<open>t\<close> is \<open>t\<close>.\<close>

lemma time_Date_fields:
  "time_Date (Year t) (Month t) (Day t) (Hour t) (Minute t) (Second t) (Nanosecond t) (zone_off t) = t"
proof -
  have "civil_days (Year t) (Month t) (Day t) * 86400 + Hour t * 3600 + Minute t * 60 + Second t
      = wall_secs t"
    unfolding wall_date_days using clock_sum [of t] div_mult_mod_eq [of "wall_secs t" 86400] by linarith
  then have "(civil_days (Year t) (Month t) (Day t) * 86400 + Hour t * 3600 + Minute t * 60 + Second t
      - zone_off t) * 1000000000 + Nanosecond t = unix_ns t"
    using mult_div_mod_eq [of 1000000000 "unix_ns t"]
    by (simp add: wall_secs_def Nanosecond_def)
  then show ?thesis by (cases t) (simp add: time_Date_def)
qed

text \<open>The fields of a \<open>time.Date\<close> are its arguments.\<close>

lemma wall_secs_time_Date:
  "0 \<le> ns \<Longrightarrow> ns < 1000000000 \<Longrightarrow>
   wall_secs (time_Date y m d hh mm ss ns off) = civil_days y m d * 86400 + hh * 3600 + mm * 60 + ss"
  by (simp add: wall_secs_def time_Date_def)

lemma date_of_time_Date:
  assumes "valid_date y m d" and "0 \<le> hh" "hh < 24" "0 \<le> mm" "mm < 60" "0 \<le> ss" "ss < 60"
    and "0 \<le> ns" "ns < 1000000000"
  shows "Year (time_Date y m d hh mm ss ns off) = y" "Month (time_Date y m d hh mm ss ns off) = m"
    "Day (time_Date y m d hh mm ss ns off) = d"
proof -
  define n where "n = civil_days y m d"
  define r where "r = hh * 3600 + mm * 60 + ss"
  have "0 \<le> r" "r < 86400" using assms by (auto simp: r_def)
  moreover have "wall_secs (time_Date y m d hh mm ss ns off) = n * 86400 + r"
    using assms by (simp add: wall_secs_time_Date n_def r_def)
  ultimately have "wall_date (time_Date y m d hh mm ss ns off) = (y, m, d)"
    using assms(1) by (simp add: wall_date_def civil_of_civil_days n_def)
  then show "Year (time_Date y m d hh mm ss ns off) = y" "Month (time_Date y m d hh mm ss ns off) = m"
    "Day (time_Date y m d hh mm ss ns off) = d"
    by (simp_all add: Year_def Month_def Day_def)
qed

end
