(* ===== verification/GoTimeText.thy ===== *)
theory GoTimeText
  imports GoTime
begin

text \<open>
  The textual forms of a time: the layouts \<open>RFC3339Nano\<close> (pagination cursors and JSON
  documents), \<open>RFC3339\<close> (CSV export), \<open>2006-01\<close> (cache keys, query parameters) and
  \<open>2006-01-02\<close> (job payloads), and \<open>time.Parse\<close> for the layouts the code parses. The parser
  follows \<open>time\<close>'s chunk by chunk rules: a one-digit hour, a comma before the fraction and a
  fraction of any length are accepted, as they are by the library.
\<close>

section \<open>Formatting\<close>

definition fixed2 :: "int \<Rightarrow> string" where
  "fixed2 k = append_int 2 k"

definition fmt_date :: "gtime \<Rightarrow> string" where
  "fmt_date t = append_int 4 (Year t) @ ''-'' @ fixed2 (Month t) @ ''-'' @ fixed2 (Day t)"

definition fmt_month :: "gtime \<Rightarrow> string" where
  "fmt_month t = append_int 4 (Year t) @ ''-'' @ fixed2 (Month t)"

definition fmt_clock :: "gtime \<Rightarrow> string" where
  "fmt_clock t = fixed2 (Hour t) @ '':'' @ fixed2 (Minute t) @ '':'' @ fixed2 (Second t)"

text \<open>The fraction of a second: nine digits without their trailing zeros, nothing for zero.\<close>

definition strip_zeros :: "string \<Rightarrow> string" where
  "strip_zeros s = rev (dropWhile (\<lambda>c. c = digit_char 0) (rev s))"

lemma strip_zeros_code [code]: "strip_zeros s = rev (dropWhile (\<lambda>c. c = CHR ''0'') (rev s))"
  by (simp add: strip_zeros_def digit_char_eqs)

definition fmt_frac :: "gtime \<Rightarrow> string" where
  "fmt_frac t = (if Nanosecond t = 0 then [] else ''.'' @ strip_zeros (append_int 9 (Nanosecond t)))"

definition fmt_zone :: "gtime \<Rightarrow> string" where
  "fmt_zone t =
     (if zone_off t = 0 then ''Z''
      else let mins = \<bar>zone_off t\<bar> div 60
           in (if zone_off t < 0 then ''-'' else ''+'') @ fixed2 (mins div 60) @ '':'' @ fixed2 (mins mod 60))"

definition fmt_RFC3339Nano :: "gtime \<Rightarrow> string" where
  "fmt_RFC3339Nano t = fmt_date t @ ''T'' @ fmt_clock t @ fmt_frac t @ fmt_zone t"

definition fmt_RFC3339 :: "gtime \<Rightarrow> string" where
  "fmt_RFC3339 t = fmt_date t @ ''T'' @ fmt_clock t @ fmt_zone t"

section \<open>Parsing\<close>

definition skip :: "char \<Rightarrow> string \<Rightarrow> string option" where
  "skip c s = (case s of [] \<Rightarrow> None | x # r \<Rightarrow> if x = c then Some r else None)"

definition getnum :: "bool \<Rightarrow> string \<Rightarrow> (nat \<times> string) option" where
  "getnum fixed s =
     (case s of
        [] \<Rightarrow> None
      | a # r \<Rightarrow>
          if \<not> is_digit a then None
          else (case r of
                  [] \<Rightarrow> if fixed then None else Some (digit_val a, r)
                | b # r' \<Rightarrow>
                    if is_digit b then Some (10 * digit_val a + digit_val b, r')
                    else if fixed then None else Some (digit_val a, r)))"

definition parse_year :: "string \<Rightarrow> (nat \<times> string) option" where
  "parse_year s =
     (if length s < 4 then None
      else case parse_uint (take 4 s) of None \<Rightarrow> None | Some n \<Rightarrow> Some (n, drop 4 s))"

definition parse_frac :: "string \<Rightarrow> nat \<times> string" where
  "parse_frac s =
     (case s of
        p # c # r \<Rightarrow>
          if (p = CHR ''.'' \<or> p = CHR '','') \<and> is_digit c then
            (let ds = take 9 (takeWhile is_digit (c # r))
             in ((case digits_from 0 ds of None \<Rightarrow> 0 | Some n \<Rightarrow> n) * 10 ^ (9 - length ds),
                 dropWhile is_digit (c # r)))
          else (0, s)
      | _ \<Rightarrow> (0, s))"

definition parse_zone :: "string \<Rightarrow> (int \<times> string) option" where
  "parse_zone s =
     (case s of
        [] \<Rightarrow> None
      | z # r \<Rightarrow>
          if z = CHR ''Z'' then Some (0, r)
          else if length s < 6 \<or> s ! 3 \<noteq> CHR '':'' then None
          else (case (getnum True (take 2 r), getnum True (take 2 (drop 3 r))) of
                  (Some (hh, _), Some (mm, _)) \<Rightarrow>
                    if 24 < hh \<or> 60 < mm then None
                    else if z = CHR ''+'' then Some ((int hh * 60 + int mm) * 60, drop 5 r)
                    else if z = CHR ''-'' then Some (- ((int hh * 60 + int mm) * 60), drop 5 r)
                    else None
                | _ \<Rightarrow> None))"

definition parse_ymd :: "string \<Rightarrow> ((int \<times> int \<times> int) \<times> string) option" where
  "parse_ymd s =
     Option.bind (parse_year s) (\<lambda>(y, s).
     Option.bind (skip CHR ''-'' s) (\<lambda>s.
     Option.bind (getnum True s) (\<lambda>(m, s).
     Option.bind (skip CHR ''-'' s) (\<lambda>s.
     Option.bind (getnum True s) (\<lambda>(d, s).
       if valid_date (int y) (int m) (int d) then Some ((int y, int m, int d), s) else None)))))"

definition parse_hms :: "string \<Rightarrow> ((int \<times> int \<times> int) \<times> string) option" where
  "parse_hms s =
     Option.bind (getnum False s) (\<lambda>(hh, s).
     Option.bind (skip CHR '':'' s) (\<lambda>s.
     Option.bind (getnum True s) (\<lambda>(mm, s).
     Option.bind (skip CHR '':'' s) (\<lambda>s.
     Option.bind (getnum True s) (\<lambda>(ss, s).
       if hh < 24 \<and> mm < 60 \<and> ss < 60 then Some ((int hh, int mm, int ss), s) else None)))))"

definition parse_RFC3339Nano :: "string \<Rightarrow> gtime option" where
  "parse_RFC3339Nano s =
     Option.bind (parse_ymd s) (\<lambda>((y, m, d), s).
     Option.bind (skip CHR ''T'' s) (\<lambda>s.
     Option.bind (parse_hms s) (\<lambda>((hh, mm, ss), s).
       (case parse_frac s of (ns, s) \<Rightarrow>
     Option.bind (parse_zone s) (\<lambda>(off, s).
       if s = [] then Some (time_Date y m d hh mm ss (int ns) off) else None)))))"

text \<open>\<open>Time.UnmarshalJSON\<close> accepts the same texts: the stricter checks of its parser (two digits for the hour, no comma before
  the fraction) are switched off in the library.\<close>

definition parse_month :: "string \<Rightarrow> gtime option" where
  "parse_month s =
     Option.bind (parse_year s) (\<lambda>(y, s).
     Option.bind (skip CHR ''-'' s) (\<lambda>s.
     Option.bind (getnum True s) (\<lambda>(m, s).
       if 1 \<le> m \<and> m \<le> 12 \<and> s = [] then Some (time_Date (int y) (int m) 1 0 0 0 0 0) else None)))"

definition parse_date :: "string \<Rightarrow> gtime option" where
  "parse_date s =
     Option.bind (parse_ymd s) (\<lambda>((y, m, d), s).
       if s = [] then Some (time_Date y m d 0 0 0 0 0) else None)"

section \<open>Fixed-width digits\<close>

primrec fixed_digits :: "nat \<Rightarrow> nat \<Rightarrow> string" where
  "fixed_digits 0 n = []"
| "fixed_digits (Suc w) n = fixed_digits w (n div 10) @ [digit_char (n mod 10)]"

lemma fixed_digits_zero: "fixed_digits w 0 = replicate w (digit_char 0)"
  by (induction w) (simp_all add: replicate_append_same)

lemma zero_pad_snoc: "zero_pad (Suc w) (xs @ [c]) = zero_pad w xs @ [c]"
  by (simp add: zero_pad_def)

lemma zero_pad_dec: "n < 10 ^ w \<Longrightarrow> 0 < w \<Longrightarrow> zero_pad w (dec_nat n) = fixed_digits w n"
proof (induction w arbitrary: n)
  case 0
  then show ?case by simp
next
  case (Suc w)
  show ?case
  proof (cases "n < 10")
    case True
    then show ?thesis by (simp add: dec_nat.simps [of n] zero_pad_def fixed_digits_zero)
  next
    case False
    then have "0 < w" using Suc.prems by (cases w) auto
    moreover have "n div 10 < 10 ^ w" using Suc.prems by (simp add: less_mult_imp_div_less)
    ultimately show ?thesis using False Suc.IH by (simp add: dec_nat.simps [of n] zero_pad_snoc)
  qed
qed

lemma append_int_fixed: "0 \<le> k \<Longrightarrow> k < 10 ^ w \<Longrightarrow> 0 < w \<Longrightarrow> append_int w k = fixed_digits w (nat k)"
  by (simp add: append_int_def zero_pad_dec nat_less_iff)

lemma length_fixed_digits [simp]: "length (fixed_digits w n) = w"
  by (induction w arbitrary: n) auto

lemma fixed_digits_are_digits: "c \<in> set (fixed_digits w n) \<Longrightarrow> is_digit c"
  by (induction w arbitrary: n) auto

lemma digits_from_fixed: "n < 10 ^ w \<Longrightarrow> digits_from 0 (fixed_digits w n) = Some n"
proof (induction w arbitrary: n)
  case 0
  then show ?case by simp
next
  case (Suc w)
  then have "n div 10 < 10 ^ w" by (simp add: less_mult_imp_div_less)
  with Suc.IH show ?case by (simp add: digits_from_append)
qed

lemma fixed2_eq: "0 \<le> k \<Longrightarrow> k < 100 \<Longrightarrow> fixed2 k = [digit_char (nat k div 10), digit_char (nat k mod 10)]"
proof -
  assume "0 \<le> k" and "k < 100"
  then have "fixed2 k = fixed_digits (Suc (Suc 0)) (nat k)" and "nat k div 10 < 10"
    by (simp_all add: fixed2_def append_int_fixed numeral_2_eq_2)
  then show ?thesis by simp
qed

lemma getnum_fixed2:
  assumes "0 \<le> k" and "k < 100"
  shows "getnum fixed (fixed2 k @ s) = Some (nat k, s)"
proof -
  have "nat k div 10 < 10" using assms by simp
  then show ?thesis using assms by (simp add: fixed2_eq getnum_def)
qed

lemma parse_year_fixed:
  assumes "0 \<le> y" and "y \<le> 9999"
  shows "parse_year (append_int 4 y @ s) = Some (nat y, s)"
proof -
  have e: "append_int 4 y = fixed_digits 4 (nat y)" using assms by (intro append_int_fixed) auto
  have "nat y < 10 ^ 4" using assms by simp
  then have "parse_uint (fixed_digits 4 (nat y)) = Some (nat y)"
    by (auto simp: parse_uint_def digits_from_fixed dest: arg_cong [of _ _ length])
  then show ?thesis by (simp add: parse_year_def e)
qed

lemma skip_self [simp]: "skip c (c # s) = Some s"
  by (simp add: skip_def)

lemma days_in_le: "days_in y m \<le> 31"
  by (simp add: days_in_def)

lemma parse_ymd_fmt:
  assumes "0 \<le> Year t" and "Year t \<le> 9999"
  shows "parse_ymd (fmt_date t @ s) = Some ((Year t, Month t, Day t), s)"
proof -
  have "0 \<le> Month t" "Month t < 100" "0 \<le> Day t" "Day t < 100"
    using wall_date_valid [of t] days_in_le [of "Year t" "Month t"] by (auto simp: valid_date_def)
  then show ?thesis
    using assms wall_date_valid [of t]
    by (simp add: fmt_date_def parse_ymd_def parse_year_fixed getnum_fixed2)
qed

lemma parse_hms_fmt: "parse_hms (fmt_clock t @ s) = Some ((Hour t, Minute t, Second t), s)"
  using clock_fields(1-6) [of t]
  by (simp add: fmt_clock_def parse_hms_def getnum_fixed2 nat_less_iff)

section \<open>The fraction and the zone\<close>

lemma strip_zeros_split: "\<exists>k. s = strip_zeros s @ replicate k (digit_char 0)"
proof -
  let ?P = "\<lambda>c. c = digit_char 0"
  have "rev s = takeWhile ?P (rev s) @ dropWhile ?P (rev s)" by simp
  then have "s = rev (dropWhile ?P (rev s)) @ rev (takeWhile ?P (rev s))"
    by (metis rev_append rev_rev_ident)
  moreover have "takeWhile ?P (rev s) = replicate (length (takeWhile ?P (rev s))) (digit_char 0)"
    by (metis (mono_tags, lifting) replicate_length_same set_takeWhileD)
  ultimately show ?thesis unfolding strip_zeros_def by (metis rev_replicate)
qed

lemma digits_from_zeros_end:
  "digits_from a (s @ replicate k (digit_char 0)) = map_option (\<lambda>n. n * 10 ^ k) (digits_from a s)"
proof -
  have z: "digits_from b (replicate k (digit_char 0)) = Some (b * 10 ^ k)" for b
    by (induction k arbitrary: b) (auto simp: algebra_simps)
  show ?thesis by (cases "digits_from a s") (auto simp: digits_from_append z)
qed

lemma takeWhile_digits:
  "(\<And>c. c \<in> set ds \<Longrightarrow> is_digit c) \<Longrightarrow> \<not> is_digit c \<Longrightarrow> takeWhile is_digit (ds @ c # r) = ds"
  by (induction ds) auto

lemma dropWhile_digits:
  "(\<And>c. c \<in> set ds \<Longrightarrow> is_digit c) \<Longrightarrow> \<not> is_digit c \<Longrightarrow> dropWhile is_digit (ds @ c # r) = c # r"
  by (induction ds) auto

lemma parse_frac_digits:
  assumes ds: "ds \<noteq> []" "\<And>c. c \<in> set ds \<Longrightarrow> is_digit c" "length ds \<le> 9"
    and c: "\<not> is_digit c" and v: "digits_from 0 ds = Some n"
  shows "parse_frac (CHR ''.'' # ds @ c # r) = (n * 10 ^ (9 - length ds), c # r)"
proof -
  obtain d ds' where e: "ds = d # ds'" using ds(1) by (cases ds) auto
  have "takeWhile is_digit (d # ds' @ c # r) = ds" and "dropWhile is_digit (d # ds' @ c # r) = c # r"
    using takeWhile_digits [of ds c r] dropWhile_digits [of ds c r] ds(2) c by (auto simp: e)
  then show ?thesis using ds v by (simp add: parse_frac_def e [symmetric]) (simp add: e parse_frac_def)
qed

lemma parse_frac_fmt:
  assumes c: "\<not> is_digit c" "c \<noteq> CHR ''.''" "c \<noteq> CHR '',''"
  shows "parse_frac (fmt_frac t @ c # r) = (nat (Nanosecond t), c # r)"
proof (cases "Nanosecond t = 0")
  case True
  then show ?thesis using c by (cases r) (auto simp: fmt_frac_def parse_frac_def)
next
  case False
  let ?n = "nat (Nanosecond t)" and ?ds = "strip_zeros (fixed_digits 9 (nat (Nanosecond t)))"
  have n: "?n < 10 ^ 9" "0 < ?n" using clock_fields(7,8) [of t] False by auto
  have fmt: "fmt_frac t = CHR ''.'' # ?ds"
    using False clock_fields(7,8) [of t] by (simp add: fmt_frac_def append_int_fixed)
  obtain k where k: "fixed_digits 9 ?n = ?ds @ replicate k (digit_char 0)"
    using strip_zeros_split by blast
  then have len: "length ?ds + k = 9" by (metis length_append length_fixed_digits length_replicate)
  have dig: "c \<in> set ?ds \<Longrightarrow> is_digit c" for c
    using fixed_digits_are_digits k by (metis Un_iff set_append)
  have "digits_from 0 (?ds @ replicate k (digit_char 0)) = Some ?n"
    using n(1) k digits_from_fixed by metis
  then obtain m where m: "digits_from 0 ?ds = Some m" "m * 10 ^ k = ?n"
    by (auto simp: digits_from_zeros_end)
  have "?ds \<noteq> []" using m n(2) by auto
  then have "parse_frac (CHR ''.'' # ?ds @ c # r) = (m * 10 ^ (9 - length ?ds), c # r)"
    using dig len c(1) m(1) by (intro parse_frac_digits) auto
  moreover have "9 - length ?ds = k" using len by simp
  ultimately show ?thesis using m(2) fmt by simp
qed

definition zone_ok :: "gtime \<Rightarrow> bool" where
  "zone_ok t \<longleftrightarrow> zone_off t mod 60 = 0 \<and> \<bar>zone_off t\<bar> \<le> 86400"

lemma parse_zone_signed:
  assumes "0 \<le> hh" "hh \<le> 24" "0 \<le> mm" "mm < 60" and z: "z = CHR ''+'' \<or> z = CHR ''-''"
  shows "parse_zone (z # fixed2 hh @ CHR '':'' # fixed2 mm)
       = Some ((if z = CHR ''-'' then -1 else 1) * ((hh * 60 + mm) * 60), [])"
proof -
  obtain a b where h: "fixed2 hh = [a, b]" using assms by (simp add: fixed2_eq)
  obtain c d where m: "fixed2 mm = [c, d]" using assms by (simp add: fixed2_eq)
  have "getnum True [a, b] = Some (nat hh, [])" and "getnum True [c, d] = Some (nat mm, [])"
    using getnum_fixed2 [of hh True "[]"] getnum_fixed2 [of mm True "[]"] assms h m by auto
  moreover have "\<not> 24 < nat hh" and "\<not> 60 < nat mm" using assms by auto
  moreover have "int (nat hh) = hh" and "int (nat mm) = mm" using assms by auto
  ultimately show ?thesis using z h m by (auto simp: parse_zone_def)
qed

lemma parse_zone_fmt:
  assumes "zone_ok t"
  shows "parse_zone (fmt_zone t) = Some (zone_off t, [])"
proof (cases "zone_off t = 0")
  case True
  then show ?thesis by (simp add: fmt_zone_def parse_zone_def)
next
  case False
  define mins where "mins = \<bar>zone_off t\<bar> div 60"
  have b: "0 \<le> mins div 60" "mins div 60 \<le> 24" "0 \<le> mins mod 60" "mins mod 60 < 60"
    using assms by (auto simp: mins_def zone_ok_def)
  have "\<bar>zone_off t\<bar> mod 60 = 0" using assms by (auto simp: zone_ok_def abs_if mod_eq_0_iff_dvd)
  then have "mins * 60 = \<bar>zone_off t\<bar>" unfolding mins_def by (metis add.right_neutral div_mult_mod_eq)
  then have sum: "((mins div 60) * 60 + mins mod 60) * 60 = \<bar>zone_off t\<bar>" by (simp only: div_mult_mod_eq)
  define sg where "sg = (if zone_off t < 0 then CHR ''-'' else CHR ''+'')"
  have "fmt_zone t = sg # fixed2 (mins div 60) @ CHR '':'' # fixed2 (mins mod 60)"
    using False unfolding fmt_zone_def Let_def mins_def [symmetric] sg_def by simp
  moreover have "(if sg = CHR ''-'' then -1 else 1) * \<bar>zone_off t\<bar> = zone_off t"
    by (simp add: sg_def)
  ultimately show ?thesis
    using parse_zone_signed [OF b, of sg] unfolding sum by (simp add: sg_def)
qed

lemma fmt_zone_start: "\<exists>c r. fmt_zone t = c # r \<and> \<not> is_digit c \<and> c \<noteq> CHR ''.'' \<and> c \<noteq> CHR '',''"
  by (auto simp: fmt_zone_def Let_def)

section \<open>Round trips\<close>

definition time_ok :: "gtime \<Rightarrow> bool" where
  "time_ok t \<longleftrightarrow> 0 \<le> Year t \<and> Year t \<le> 9999 \<and> zone_ok t"

lemma parse_fmt_RFC3339Nano:
  assumes "time_ok t"
  shows "parse_RFC3339Nano (fmt_RFC3339Nano t) = Some t"
proof -
  have y: "0 \<le> Year t" "Year t \<le> 9999" and z: "zone_ok t" using assms by (auto simp: time_ok_def)
  obtain c r where c: "fmt_zone t = c # r" "\<not> is_digit c" "c \<noteq> CHR ''.''" "c \<noteq> CHR '',''"
    using fmt_zone_start by blast
  have "parse_frac (fmt_frac t @ fmt_zone t) = (nat (Nanosecond t), fmt_zone t)"
    using parse_frac_fmt [OF c(2-4), of t r] c(1) by simp
  then show ?thesis
    using clock_fields(7) [of t]
    by (simp add: parse_RFC3339Nano_def fmt_RFC3339Nano_def parse_ymd_fmt [OF y] parse_hms_fmt
        parse_zone_fmt [OF z] time_Date_fields)
qed

interpretation time_text: codec fmt_RFC3339Nano parse_RFC3339Nano time_ok
  by unfold_locales (rule parse_fmt_RFC3339Nano)

lemma time_ok_UTC: "0 \<le> Year (UTC t) \<Longrightarrow> Year (UTC t) \<le> 9999 \<Longrightarrow> time_ok (UTC t)"
  by (simp add: time_ok_def zone_ok_def UTC_def)

lemma fmt_date_parse:
  assumes "0 \<le> Year t" and "Year t \<le> 9999"
  shows "parse_date (fmt_date t) = Some (time_Date (Year t) (Month t) (Day t) 0 0 0 0 0)"
  using parse_ymd_fmt [OF assms, of "[]"] by (simp add: parse_date_def)

text \<open>No text of a time holds the cursor's separator.\<close>

lemma append_int_chars: "c \<in> set (append_int w k) \<Longrightarrow> is_digit c \<or> c = CHR ''-''"
  by (auto simp: append_int_def split: if_splits dest: zero_pad_digits)

lemma strip_zeros_subset: "set (strip_zeros s) \<subseteq> set s"
  by (auto simp: strip_zeros_def dest: set_dropWhileD)

lemma fmt_RFC3339Nano_no_bar: "CHR ''|'' \<notin> set (fmt_RFC3339Nano t)"
  using append_int_chars [of "CHR ''|''"] strip_zeros_subset
  by (auto simp: fmt_RFC3339Nano_def fmt_date_def fmt_clock_def fmt_frac_def fmt_zone_def fixed2_def
      Let_def split: if_splits)

text \<open>The month text determines the month.\<close>

lemma append_int_inj: "append_int w j = append_int w k \<Longrightarrow> j = k"
proof -
  have no: "zero_pad w (dec_nat m) \<noteq> CHR ''-'' # cs" for m cs
    using zero_pad_digits [of "CHR ''-''" w m] by (metis list.set_intros(1) not_is_digit_sign(1))
  have inj: "zero_pad w (dec_nat m) = zero_pad w (dec_nat n) \<Longrightarrow> m = n" for m n
    by (metis digits_from_zero_pad option.inject)
  assume "append_int w j = append_int w k"
  then show "j = k"
    by (auto simp: append_int_def no no [symmetric] split: if_splits dest!: inj)
qed

lemma length_fixed2: "0 \<le> k \<Longrightarrow> k < 100 \<Longrightarrow> length (fixed2 k) = 2"
  by (simp add: fixed2_eq)

lemma fmt_month_inj: "fmt_month t = fmt_month u \<longleftrightarrow> Year t = Year u \<and> Month t = Month u"
proof
  assume e: "fmt_month t = fmt_month u"
  have "length (''-'' @ fixed2 (Month t)) = length (''-'' @ fixed2 (Month u))"
    using wall_date_valid [of t] wall_date_valid [of u] by (simp add: length_fixed2 valid_date_def)
  with e have "append_int 4 (Year t) = append_int 4 (Year u)" and "fixed2 (Month t) = fixed2 (Month u)"
    unfolding fmt_month_def by (metis append_eq_append_conv append_same_eq list.inject same_append_eq)+
  then show "Year t = Year u \<and> Month t = Month u"
    by (auto simp: fixed2_def dest: append_int_inj)
qed (simp add: fmt_month_def)

end
