(* ===== verification/Schema.thy ===== *)
theory Schema
  imports GoTimeText
begin

text \<open>
  The database: the row types of internal/repo/sqlc/models.go, the tables and sequences that
  the migrations create, the errors Postgres reports, and the execution of one statement.

  A statement is a function of the transaction timestamp (\<open>now()\<close>) and the database to a result
  and the database after it. Serial columns draw from sequences, which a rollback does not
  wind back. The constraint trigger on \<open>postings\<close> is deferred: inserting a posting queues a
  check of its transaction, and the checks run at commit.

  Statements, and the commit itself, are subject to faults: the connection may fail before a
  statement takes effect, or after it has (the acknowledgement is lost). Every call of the model
  takes the faults it will meet from a schedule, so that a theorem about a call holds for
  every schedule.
\<close>

section \<open>JSON documents\<close>

text \<open>
  Documents that the program writes to the database and reads back (cached responses, outbox
  payloads) or hashes are kept as trees; \<open>encoding/json\<close>'s byte syntax is not modelled.
\<close>

datatype json = JNull | JBool bool | JNum int | JStr string | JArr "json list"
  | JObj "(string \<times> json) list"

fun jfield :: "string \<Rightarrow> json \<Rightarrow> json option" where
  "jfield k (JObj fs) = map_of fs k"
| "jfield k _ = None"

section \<open>Rows\<close>

record user_row =
  u_id :: int
  u_email :: string
  u_password_hash :: string
  u_created_at :: int

record account_row =
  a_id :: int
  a_user_id :: int
  a_name :: string
  a_currency :: string
  a_is_active :: bool
  a_kind :: string
  a_created_at :: int

record transaction_row =
  t_id :: int
  t_user_id :: int
  t_currency :: string
  t_category_id :: "int option"
  t_occurred_at :: int
  t_note :: "string option"
  t_reversal_of :: "int option"
  t_created_at :: int

record posting_row =
  p_id :: int
  p_transaction_id :: int
  p_account_id :: int
  p_amount_minor :: int64
  p_created_at :: int

record idempotency_row =
  k_user_id :: int
  k_key :: string
  k_request_hash :: string
  k_status :: string
  k_response_json :: "json option"
  k_created_at :: int

record snapshot_row =
  s_id :: int
  s_account_id :: int
  s_as_of_date :: int
  s_balance_minor :: int64
  s_created_at :: int

record export_row =
  e_id :: int
  e_user_id :: int
  e_month :: int
  e_status :: string
  e_file_path :: "string option"
  e_created_at :: "int option"
  e_updated_at :: "int option"

record outbox_row =
  o_id :: int
  o_event_type :: string
  o_payload :: json
  o_created_at :: int
  o_processed_at :: "int option"

section \<open>The database\<close>

text \<open>Each sequence field holds the next value to hand out.\<close>

record sequences =
  users_seq :: int
  accounts_seq :: int
  transactions_seq :: int
  postings_seq :: int
  snapshots_seq :: int
  exports_seq :: int
  outbox_seq :: int

record database =
  users :: "user_row list"
  accounts :: "account_row list"
  category_ids :: "int list"
  transactions :: "transaction_row list"
  postings :: "posting_row list"
  idempotency_keys :: "idempotency_row list"
  balance_snapshots :: "snapshot_row list"
  exports :: "export_row list"
  outbox :: "outbox_row list"
  deferred_checks :: "int list"
  seqs :: sequences

datatype db_error =
    NoRows
  | UniqueViolation
  | ForeignKeyViolation
  | CheckViolation
  | NumericOutOfRange
  | TriggerException
  | InvalidLimit
  | SequenceLimit
  | ConnectionFailure

text \<open>The SQLSTATE of an error that the server reports; \<open>pgx.ErrNoRows\<close> and a lost connection have none.\<close>

fun sqlstate :: "db_error \<Rightarrow> string option" where
  "sqlstate NoRows = None"
| "sqlstate UniqueViolation = Some ''23505''"
| "sqlstate ForeignKeyViolation = Some ''23503''"
| "sqlstate CheckViolation = Some ''23514''"
| "sqlstate NumericOutOfRange = Some ''22003''"
| "sqlstate TriggerException = Some ''P0001''"
| "sqlstate InvalidLimit = Some ''2201W''"
| "sqlstate SequenceLimit = Some ''2200H''"
| "sqlstate ConnectionFailure = None"

type_synonym 'a result = "db_error + 'a"
type_synonym 'a statement = "int \<Rightarrow> database \<Rightarrow> 'a result \<times> database"

text \<open>\<open>nextval\<close>: sequences end at the largest \<open>BIGINT\<close>, and a drawn value stays drawn.\<close>

definition with_serial ::
  "(sequences \<Rightarrow> int) \<Rightarrow> ((int \<Rightarrow> int) \<Rightarrow> sequences \<Rightarrow> sequences) \<Rightarrow>
   (int \<Rightarrow> database \<Rightarrow> 'a result \<times> database) \<Rightarrow> database \<Rightarrow> 'a result \<times> database" where
  "with_serial sel upd k d =
     (let n = sel (seqs d)
      in if n \<le> MaxInt64 then k n (d\<lparr>seqs := upd (\<lambda>_. n + 1) (seqs d)\<rparr>)
         else (Inl SequenceLimit, d))"

text \<open>A cast of an exact sum back to \<open>bigint\<close>.\<close>

definition to_bigint :: "int \<Rightarrow> int64 result" where
  "to_bigint k = (if in_int64 k then Inr (word_of_int k) else Inl NumericOutOfRange)"

lemma to_bigint_ok: "in_int64 k \<Longrightarrow> to_bigint k = Inr (word_of_int k)"
  by (simp add: to_bigint_def)

definition read_only :: "(database \<Rightarrow> 'a result) \<Rightarrow> 'a statement" where
  "read_only q now d = (q d, d)"

definition one_row :: "'a option \<Rightarrow> 'a result" where
  "one_row r = (case r of None \<Rightarrow> Inl NoRows | Some x \<Rightarrow> Inr x)"

lemma one_row_simps [simp]: "one_row None = Inl NoRows" "one_row (Some x) = Inr x"
  by (simp_all add: one_row_def)

section \<open>The deferred zero-sum trigger\<close>

text \<open>The exact sum of the postings of one transaction (migration 000012, \<open>check_transaction_balanced\<close>).\<close>

definition posting_sum :: "int \<Rightarrow> posting_row list \<Rightarrow> int" where
  "posting_sum tx ps = (\<Sum>p\<leftarrow>filter (\<lambda>p. p_transaction_id p = tx) ps. sint (p_amount_minor p))"

definition check_transaction_balanced :: "int \<Rightarrow> database \<Rightarrow> unit result" where
  "check_transaction_balanced tx d =
     (let total = posting_sum tx (postings d)
      in if \<not> in_int64 total then Inl NumericOutOfRange
         else if total \<noteq> 0 then Inl TriggerException
         else Inr ())"

fun run_checks :: "int list \<Rightarrow> database \<Rightarrow> unit result" where
  "run_checks [] d = Inr ()"
| "run_checks (tx # txs) d =
     (case check_transaction_balanced tx d of Inl e \<Rightarrow> Inl e | Inr _ \<Rightarrow> run_checks txs d)"

lemma check_transaction_balanced_ok:
  "check_transaction_balanced tx d = Inr u \<longleftrightarrow> posting_sum tx (postings d) = 0"
  by (auto simp: check_transaction_balanced_def Let_def in_int64_def)

lemma check_transaction_balanced_fails:
  "check_transaction_balanced tx d = Inl e \<Longrightarrow> posting_sum tx (postings d) \<noteq> 0"
  by (auto simp: check_transaction_balanced_def Let_def in_int64_def)

lemma run_checks_ok:
  "run_checks txs d = Inr u \<longleftrightarrow> (\<forall>tx\<in>set txs. posting_sum tx (postings d) = 0)"
  by (induction txs) (auto simp: check_transaction_balanced_ok split: sum.splits
      dest: check_transaction_balanced_fails)

section \<open>The process and its stores\<close>

text \<open>
  \<open>clock\<close> is the time of the call in nanoseconds. The cache maps a Redis key to a document and
  the time at which it expires. \<open>db_faults\<close> and \<open>redis_faults\<close> are the schedules of faults still
  to come; an exhausted schedule means no more faults.
\<close>

datatype fault = Healthy | Fails | LostAck

record world =
  db :: database
  clock :: int
  db_faults :: "fault list"
  cache :: "string \<Rightarrow> (json \<times> int) option"
  redis_faults :: "bool list"

definition pg_now :: "world \<Rightarrow> int" where
  "pg_now w = clock w div 1000"

definition next_fault :: "world \<Rightarrow> fault" where
  "next_fault w = (case db_faults w of [] \<Rightarrow> Healthy | f # _ \<Rightarrow> f)"

definition run :: "'a statement \<Rightarrow> world \<Rightarrow> 'a result \<times> world" where
  "run q w =
     (let w1 = w\<lparr>db_faults := tl (db_faults w)\<rparr>;
          out = q (pg_now w) (db w)
      in case next_fault w of
           Healthy \<Rightarrow> (fst out, w1\<lparr>db := snd out\<rparr>)
         | Fails \<Rightarrow> (Inl ConnectionFailure, w1)
         | LostAck \<Rightarrow> (Inl ConnectionFailure, w1\<lparr>db := snd out\<rparr>))"

text \<open>\<open>pool.Begin\<close>, \<open>tx.Rollback\<close> to the state at begin (sequences stay), \<open>tx.Commit\<close> with its checks.\<close>

definition Begin :: "unit statement" where
  "Begin now d = (Inr (), d\<lparr>deferred_checks := []\<rparr>)"

definition rolled_back :: "database \<Rightarrow> database \<Rightarrow> database" where
  "rolled_back d0 d = d0\<lparr>seqs := seqs d\<rparr>"

definition Rollback :: "world \<Rightarrow> world \<Rightarrow> world" where
  "Rollback w0 w = w\<lparr>db := rolled_back (db w0) (db w)\<rparr>"

definition Commit :: "world \<Rightarrow> world \<Rightarrow> unit result \<times> world" where
  "Commit w0 w =
     (let w1 = w\<lparr>db_faults := tl (db_faults w)\<rparr>;
          checked = run_checks (deferred_checks (db w)) (db w);
          committed = w1\<lparr>db := (db w)\<lparr>deferred_checks := []\<rparr>\<rparr>
      in case next_fault w of
           Healthy \<Rightarrow> (case checked of Inl e \<Rightarrow> (Inl e, Rollback w0 w1) | Inr _ \<Rightarrow> (Inr (), committed))
         | Fails \<Rightarrow> (Inl ConnectionFailure, Rollback w0 w1)
         | LostAck \<Rightarrow> (Inl ConnectionFailure,
                        case checked of Inl _ \<Rightarrow> Rollback w0 w1 | Inr _ \<Rightarrow> committed))"

section \<open>Parameters of the environment\<close>

text \<open>
  What the program takes from outside its sources: the hash (SHA-256 in hex; \<open>None\<close> is the empty
  input), the UTC offset of the server's local zone at an instant (pgx returns times in it),
  and the UTC offset of the Postgres session zone at an instant in microseconds
  (\<open>date_trunc\<close> uses it).
\<close>

record env =
  sha256hex :: "json option \<Rightarrow> string"
  local_off :: "int \<Rightarrow> int"
  pg_off :: "int \<Rightarrow> int"

definition go_time :: "env \<Rightarrow> int \<Rightarrow> gtime" where
  "go_time E us = \<lparr>unix_ns = us * 1000, zone_off = local_off E (us * 1000)\<rparr>"

lemma pg_time_go_time [simp]: "pg_time (go_time E us) = us"
  by (simp add: pg_time_def go_time_def)

text \<open>The empty database after the migrations, at the first values of the sequences.\<close>

definition fresh_seqs :: sequences where
  "fresh_seqs = \<lparr>users_seq = 1, accounts_seq = 1, transactions_seq = 1, postings_seq = 1,
     snapshots_seq = 1, exports_seq = 1, outbox_seq = 1\<rparr>"

definition empty_db :: database where
  "empty_db = \<lparr>users = [], accounts = [], category_ids = [], transactions = [], postings = [],
     idempotency_keys = [], balance_snapshots = [], exports = [], outbox = [],
     deferred_checks = [], seqs = fresh_seqs\<rparr>"

end
