(* ===== verification/Queries.thy ===== *)
theory Queries
  imports Schema
begin

text \<open>
  The SQL statements of internal/repo/sqlc, one definition per generated method, with the
  arguments in the order of its parameter struct. A table is the list of its rows in insertion
  order; where a statement leaves an order open (ties of \<open>ORDER BY created_at\<close>), insertion order
  is taken. Constraints are those of the migrations: primary and foreign keys, \<open>UNIQUE\<close>,
  \<open>CHECK\<close>, and the partial unique index on external accounts.
\<close>

section \<open>users.sql\<close>

definition CreateUser :: "string \<Rightarrow> string \<Rightarrow> user_row statement" where
  "CreateUser email hash now =
     with_serial users_seq users_seq_update (\<lambda>n d.
       let row = \<lparr>u_id = n, u_email = email, u_password_hash = hash, u_created_at = now\<rparr>
       in if \<exists>u\<in>set (users d). u_email u = email then (Inl UniqueViolation, d)
          else (Inr row, d\<lparr>users := users d @ [row]\<rparr>))"

definition GetUserByEmail :: "string \<Rightarrow> user_row statement" where
  "GetUserByEmail email = read_only (\<lambda>d. one_row (find (\<lambda>u. u_email u = email) (users d)))"

definition GetUserByID :: "int \<Rightarrow> user_row statement" where
  "GetUserByID i = read_only (\<lambda>d. one_row (find (\<lambda>u. u_id u = i) (users d)))"

section \<open>accounts.sql\<close>

definition has_user :: "int \<Rightarrow> database \<Rightarrow> bool" where
  "has_user uid d \<longleftrightarrow> (\<exists>u\<in>set (users d). u_id u = uid)"

definition has_account :: "int \<Rightarrow> database \<Rightarrow> bool" where
  "has_account aid d \<longleftrightarrow> (\<exists>a\<in>set (accounts d). a_id a = aid)"

definition has_transaction :: "int \<Rightarrow> database \<Rightarrow> bool" where
  "has_transaction tid d \<longleftrightarrow> (\<exists>t\<in>set (transactions d). t_id t = tid)"

definition insert_account :: "int \<Rightarrow> string \<Rightarrow> string \<Rightarrow> string \<Rightarrow> account_row statement" where
  "insert_account uid name cur kind now =
     with_serial accounts_seq accounts_seq_update (\<lambda>n d.
       let row = \<lparr>a_id = n, a_user_id = uid, a_name = name, a_currency = cur, a_is_active = True,
                  a_kind = kind, a_created_at = now\<rparr>
       in if \<exists>a\<in>set (accounts d). a_user_id a = uid \<and> a_name a = name then (Inl UniqueViolation, d)
          else if kind = ''external'' \<and> (\<exists>a\<in>set (accounts d). a_user_id a = uid \<and> a_kind a = ''external'')
            then (Inl UniqueViolation, d)
          else if \<not> has_user uid d then (Inl ForeignKeyViolation, d)
          else (Inr row, d\<lparr>accounts := accounts d @ [row]\<rparr>))"

definition CreateAccount :: "int \<Rightarrow> string \<Rightarrow> string \<Rightarrow> account_row statement" where
  "CreateAccount uid name cur = insert_account uid name cur ''normal''"

definition CreateExternalAccount :: "int \<Rightarrow> string \<Rightarrow> account_row statement" where
  "CreateExternalAccount uid cur = insert_account uid ''External'' cur ''external''"

definition DeactivateAccount :: "int \<Rightarrow> unit statement" where
  "DeactivateAccount i now d =
     (Inr (), d\<lparr>accounts := map (\<lambda>a. if a_id a = i then a\<lparr>a_is_active := False\<rparr> else a) (accounts d)\<rparr>)"

definition GetAccount :: "int \<Rightarrow> account_row statement" where
  "GetAccount i = read_only (\<lambda>d. one_row (find (\<lambda>a. a_id a = i) (accounts d)))"

definition GetExternalAccount :: "int \<Rightarrow> account_row statement" where
  "GetExternalAccount uid =
     read_only (\<lambda>d. one_row (find (\<lambda>a. a_user_id a = uid \<and> a_kind a = ''external'') (accounts d)))"

definition ListAccountsByUser :: "int \<Rightarrow> int \<Rightarrow> int \<Rightarrow> account_row list statement" where
  "ListAccountsByUser uid lim off =
     read_only (\<lambda>d.
       if lim < 0 \<or> off < 0 then Inl InvalidLimit
       else Inr (take (nat lim) (drop (nat off)
              (sort_key (\<lambda>a. - a_created_at a) (filter (\<lambda>a. a_user_id a = uid) (accounts d))))))"

section \<open>transactions.sql\<close>

definition CreateTransactionHeader ::
  "int \<Rightarrow> string \<Rightarrow> int option \<Rightarrow> int \<Rightarrow> string option \<Rightarrow> int option \<Rightarrow> transaction_row statement" where
  "CreateTransactionHeader uid cur cat occ note rof now =
     with_serial transactions_seq transactions_seq_update (\<lambda>n d.
       let row = \<lparr>t_id = n, t_user_id = uid, t_currency = cur, t_category_id = cat,
                  t_occurred_at = occ, t_note = note, t_reversal_of = rof, t_created_at = now\<rparr>
       in if rof \<noteq> None \<and> (\<exists>t\<in>set (transactions d). t_reversal_of t = rof)
            then (Inl UniqueViolation, d)
          else if \<not> has_user uid d then (Inl ForeignKeyViolation, d)
          else if (case cat of None \<Rightarrow> False | Some c \<Rightarrow> c \<notin> set (category_ids d))
            then (Inl ForeignKeyViolation, d)
          else if (case rof of None \<Rightarrow> False | Some r \<Rightarrow> \<not> has_transaction r d)
            then (Inl ForeignKeyViolation, d)
          else (Inr row, d\<lparr>transactions := transactions d @ [row]\<rparr>))"

definition CreatePosting :: "int \<Rightarrow> int \<Rightarrow> int64 \<Rightarrow> posting_row statement" where
  "CreatePosting tid aid amt now =
     with_serial postings_seq postings_seq_update (\<lambda>n d.
       let row = \<lparr>p_id = n, p_transaction_id = tid, p_account_id = aid, p_amount_minor = amt,
                  p_created_at = now\<rparr>
       in if amt = 0 then (Inl CheckViolation, d)
          else if \<not> has_transaction tid d \<or> \<not> has_account aid d then (Inl ForeignKeyViolation, d)
          else (Inr row, d\<lparr>postings := postings d @ [row],
                          deferred_checks := deferred_checks d @ [tid]\<rparr>))"

definition GetTransactionForUser :: "int \<Rightarrow> int \<Rightarrow> transaction_row statement" where
  "GetTransactionForUser i uid =
     read_only (\<lambda>d. one_row (find (\<lambda>t. t_id t = i \<and> t_user_id t = uid) (transactions d)))"

definition ListPostingsByTransaction :: "int \<Rightarrow> posting_row list statement" where
  "ListPostingsByTransaction tid =
     read_only (\<lambda>d. Inr (sort_key p_id (filter (\<lambda>p. p_transaction_id p = tid) (postings d))))"

record entry_row =
  en_posting_id :: int
  en_transaction_id :: int
  en_account_id :: int
  en_amount_minor :: int64
  en_currency :: string
  en_occurred_at :: int
  en_note :: "string option"
  en_created_at :: int

definition joined :: "database \<Rightarrow> (posting_row \<times> transaction_row) list" where
  "joined d = concat (map (\<lambda>p. map (Pair p) (filter (\<lambda>t. t_id t = p_transaction_id p) (transactions d)))
                        (postings d))"

definition entry_of :: "posting_row \<times> transaction_row \<Rightarrow> entry_row" where
  "entry_of pt = (case pt of (p, t) \<Rightarrow>
     \<lparr>en_posting_id = p_id p, en_transaction_id = t_id t, en_account_id = p_account_id p,
      en_amount_minor = p_amount_minor p, en_currency = t_currency t,
      en_occurred_at = t_occurred_at t, en_note = t_note t, en_created_at = p_created_at p\<rparr>)"

text \<open>The row comparison of the keyset: \<open>(occurred_at, id) < (cursor time, cursor id)\<close>.\<close>

definition before_cursor :: "int \<Rightarrow> int \<Rightarrow> entry_row \<Rightarrow> bool" where
  "before_cursor ct cid e \<longleftrightarrow>
     en_occurred_at e < ct \<or> (en_occurred_at e = ct \<and> en_posting_id e < cid)"

definition account_entries :: "int \<Rightarrow> database \<Rightarrow> entry_row list" where
  "account_entries aid d = filter (\<lambda>e. en_account_id e = aid) (map entry_of (joined d))"

text \<open>Descending in both columns: sort by the id first, then stably by the time.\<close>

definition newest_first :: "entry_row list \<Rightarrow> entry_row list" where
  "newest_first es =
     sort_key (\<lambda>e. - en_occurred_at e) (sort_key (\<lambda>e. - en_posting_id e) es)"

definition ListAccountEntries :: "int \<Rightarrow> int \<Rightarrow> int \<Rightarrow> int \<Rightarrow> entry_row list statement" where
  "ListAccountEntries aid ct cid lim =
     read_only (\<lambda>d.
       if lim < 0 then Inl InvalidLimit
       else Inr (take (nat lim) (newest_first (filter (before_cursor ct cid) (account_entries aid d)))))"

section \<open>idempotency.sql\<close>

definition InsertIdempotencyKey :: "int \<Rightarrow> string \<Rightarrow> string \<Rightarrow> idempotency_row statement" where
  "InsertIdempotencyKey uid key hash now d =
     (let row = \<lparr>k_user_id = uid, k_key = key, k_request_hash = hash, k_status = ''started'',
                 k_response_json = None, k_created_at = now\<rparr>
      in if \<exists>k\<in>set (idempotency_keys d). k_user_id k = uid \<and> k_key k = key then (Inl NoRows, d)
         else if \<not> has_user uid d then (Inl ForeignKeyViolation, d)
         else (Inr row, d\<lparr>idempotency_keys := idempotency_keys d @ [row]\<rparr>))"

definition GetIdempotency :: "int \<Rightarrow> string \<Rightarrow> idempotency_row statement" where
  "GetIdempotency uid key =
     read_only (\<lambda>d. one_row (find (\<lambda>k. k_user_id k = uid \<and> k_key k = key) (idempotency_keys d)))"

definition MarkIdempotencySuccess :: "int \<Rightarrow> string \<Rightarrow> string \<Rightarrow> json \<Rightarrow> unit statement" where
  "MarkIdempotencySuccess uid key hash resp now d =
     (Inr (), d\<lparr>idempotency_keys :=
        map (\<lambda>k. if k_user_id k = uid \<and> k_key k = key \<and> k_request_hash k = hash
                 then k\<lparr>k_status := ''succeeded'', k_response_json := Some resp\<rparr> else k)
            (idempotency_keys d)\<rparr>)"

section \<open>outbox.sql\<close>

definition CreateOutboxEvent :: "string \<Rightarrow> json \<Rightarrow> outbox_row statement" where
  "CreateOutboxEvent ty payload now =
     with_serial outbox_seq outbox_seq_update (\<lambda>n d.
       let row = \<lparr>o_id = n, o_event_type = ty, o_payload = payload, o_created_at = now,
                  o_processed_at = None\<rparr>
       in (Inr row, d\<lparr>outbox := outbox d @ [row]\<rparr>))"

section \<open>balance\_snapshots.sql and workers.sql\<close>

definition amount_sum :: "posting_row list \<Rightarrow> int" where
  "amount_sum ps = (\<Sum>p\<leftarrow>ps. sint (p_amount_minor p))"

definition SumPostingsSince :: "int \<Rightarrow> int \<Rightarrow> int64 statement" where
  "SumPostingsSince aid since =
     read_only (\<lambda>d. to_bigint (amount_sum
       (filter (\<lambda>p. p_account_id p = aid \<and> since < p_created_at p) (postings d))))"

definition SumPostingsUpTo :: "int \<Rightarrow> int \<Rightarrow> int64 statement" where
  "SumPostingsUpTo aid cutoff =
     read_only (\<lambda>d. to_bigint (amount_sum
       (filter (\<lambda>p. p_account_id p = aid \<and> p_created_at p \<le> cutoff) (postings d))))"

text \<open>\<open>ORDER BY as_of_date DESC LIMIT 1\<close>; \<open>(account_id, as_of_date)\<close> is unique, so there are no ties.\<close>

definition GetLatestSnapshot :: "int \<Rightarrow> snapshot_row statement" where
  "GetLatestSnapshot aid =
     read_only (\<lambda>d. one_row (case sort_key (\<lambda>s. - s_as_of_date s)
         (filter (\<lambda>s. s_account_id s = aid) (balance_snapshots d)) of [] \<Rightarrow> None | s # _ \<Rightarrow> Some s))"

definition GetSnapshotOnDate :: "int \<Rightarrow> int \<Rightarrow> snapshot_row statement" where
  "GetSnapshotOnDate aid day =
     read_only (\<lambda>d. one_row (find (\<lambda>s. s_account_id s = aid \<and> s_as_of_date s = day) (balance_snapshots d)))"

definition UpsertBalanceSnapshot :: "int \<Rightarrow> int \<Rightarrow> int64 \<Rightarrow> unit statement" where
  "UpsertBalanceSnapshot aid day bal now =
     with_serial snapshots_seq snapshots_seq_update (\<lambda>n d.
       if \<exists>s\<in>set (balance_snapshots d). s_account_id s = aid \<and> s_as_of_date s = day then
         (Inr (), d\<lparr>balance_snapshots :=
            map (\<lambda>s. if s_account_id s = aid \<and> s_as_of_date s = day then s\<lparr>s_balance_minor := bal\<rparr> else s)
                (balance_snapshots d)\<rparr>)
       else if \<not> has_account aid d then (Inl ForeignKeyViolation, d)
       else (Inr (), d\<lparr>balance_snapshots := balance_snapshots d @
               [\<lparr>s_id = n, s_account_id = aid, s_as_of_date = day, s_balance_minor = bal,
                 s_created_at = now\<rparr>]\<rparr>))"

definition ListAllAccountIDs :: "int list statement" where
  "ListAllAccountIDs = read_only (\<lambda>d. Inr (sort (map a_id (filter a_is_active (accounts d)))))"

section \<open>summary.sql and exports.sql\<close>

text \<open>\<open>date_trunc('month', t)\<close> in the session zone, as the pair of year and month.\<close>

definition pg_month :: "env \<Rightarrow> int \<Rightarrow> int \<times> int" where
  "pg_month E us = (case civil_of ((us div 1000000 + pg_off E us) div 86400) of (y, m, _) \<Rightarrow> (y, m))"

record summary_row =
  inflow :: int64
  outflow :: int64
  net :: int64

definition month_amounts :: "env \<Rightarrow> int \<Rightarrow> int \<Rightarrow> database \<Rightarrow> int64 list" where
  "month_amounts E aid month d =
     map (p_amount_minor \<circ> fst)
       (filter (\<lambda>(p, t). p_account_id p = aid \<and> pg_month E (t_occurred_at t) = pg_month E month) (joined d))"

text \<open>Negating the least \<open>bigint\<close> in the outflow branch is an error of its own.\<close>

definition GetMonthlySummary :: "env \<Rightarrow> int \<Rightarrow> int \<Rightarrow> summary_row statement" where
  "GetMonthlySummary E aid month =
     read_only (\<lambda>d.
       let xs = month_amounts E aid month d
       in if MinInt64 \<in> set xs then Inl NumericOutOfRange
          else case (to_bigint (\<Sum>x\<leftarrow>xs. if 0 < sint x then sint x else 0),
                     to_bigint (\<Sum>x\<leftarrow>xs. if sint x < 0 then - sint x else 0),
                     to_bigint (\<Sum>x\<leftarrow>xs. sint x)) of
                 (Inr i, Inr out, Inr n) \<Rightarrow> Inr \<lparr>inflow = i, outflow = out, net = n\<rparr>
               | _ \<Rightarrow> Inl NumericOutOfRange)"

definition CreateExport :: "int \<Rightarrow> int \<Rightarrow> export_row statement" where
  "CreateExport uid month now =
     with_serial exports_seq exports_seq_update (\<lambda>n d.
       let row = \<lparr>e_id = n, e_user_id = uid, e_month = month, e_status = ''pending'',
                  e_file_path = None, e_created_at = Some now, e_updated_at = Some now\<rparr>
       in if \<not> has_user uid d then (Inl ForeignKeyViolation, d)
          else (Inr row, d\<lparr>exports := exports d @ [row]\<rparr>))"

definition GetExportByID :: "int \<Rightarrow> export_row statement" where
  "GetExportByID i = read_only (\<lambda>d. one_row (find (\<lambda>e. e_id e = i) (exports d)))"

definition UpdateExportStatus :: "int \<Rightarrow> string \<Rightarrow> string option \<Rightarrow> unit statement" where
  "UpdateExportStatus i status path now d =
     (Inr (), d\<lparr>exports := map (\<lambda>e. if e_id e = i
        then e\<lparr>e_status := status, e_file_path := path, e_updated_at := Some now\<rparr> else e) (exports d)\<rparr>)"

record month_posting =
  mp_transaction_id :: int
  mp_account_id :: int
  mp_account_name :: string
  mp_category_id :: "int option"
  mp_amount_minor :: int64
  mp_currency :: string
  mp_occurred_at :: int
  mp_note :: "string option"

definition ListPostingsForMonth :: "env \<Rightarrow> int \<Rightarrow> int \<Rightarrow> month_posting list statement" where
  "ListPostingsForMonth E uid month =
     read_only (\<lambda>d. Inr (map (\<lambda>(p, t, a).
         \<lparr>mp_transaction_id = t_id t, mp_account_id = p_account_id p, mp_account_name = a_name a,
          mp_category_id = t_category_id t, mp_amount_minor = p_amount_minor p,
          mp_currency = t_currency t, mp_occurred_at = t_occurred_at t, mp_note = t_note t\<rparr>)
       (sort_key (\<lambda>(p, t, a). t_occurred_at t) (sort_key (\<lambda>(p, t, a). p_id p)
         (concat (map (\<lambda>(p, t). map (\<lambda>a. (p, t, a))
             (filter (\<lambda>a. a_id a = p_account_id p \<and> a_kind a = ''normal'') (accounts d)))
           (filter (\<lambda>(p, t). t_user_id t = uid \<and> pg_month E (t_occurred_at t) = pg_month E month)
             (joined d))))))))"

end
