(* ===== verification/Summary.thy ===== *)
theory Summary
  imports Queries
begin

text \<open>
  internal/service/summary.go: the monthly summary of an account, read through a Redis cache
  with a time to live of five minutes. Cache errors never fail a request: a failed read falls
  through to the database, a failed write or delete is ignored.
\<close>

section \<open>Redis\<close>

text \<open>
  \<open>GET\<close>, \<open>SET\<close> with expiry and \<open>DEL\<close>. A call may fail without effect; an entry is gone once
  its expiry time is reached.
\<close>

definition redis_fails :: "world \<Rightarrow> bool" where
  "redis_fails w = (case redis_faults w of [] \<Rightarrow> False | b # _ \<Rightarrow> b)"

definition next_redis :: "world \<Rightarrow> world" where
  "next_redis w = w\<lparr>redis_faults := tl (redis_faults w)\<rparr>"

definition cached :: "world \<Rightarrow> string \<Rightarrow> json option" where
  "cached w k = (case cache w k of None \<Rightarrow> None
                 | Some (v, expires) \<Rightarrow> if clock w < expires then Some v else None)"

definition redis_get :: "string \<Rightarrow> world \<Rightarrow> json option \<times> world" where
  "redis_get k w = (if redis_fails w then None else cached w k, next_redis w)"

definition redis_set :: "string \<Rightarrow> json \<Rightarrow> int \<Rightarrow> world \<Rightarrow> world" where
  "redis_set k v ttl w =
     (if redis_fails w then next_redis w
      else (next_redis w)\<lparr>cache := (cache w)(k \<mapsto> (v, clock w + ttl))\<rparr>)"

definition redis_del :: "string \<Rightarrow> world \<Rightarrow> world" where
  "redis_del k w =
     (if redis_fails w then next_redis w else (next_redis w)\<lparr>cache := (cache w)(k := None)\<rparr>)"

section \<open>The service\<close>

record monthly_summary =
  Inflow :: int64
  Outflow :: int64
  Net :: int64

definition summary_json :: "monthly_summary \<Rightarrow> json" where
  "summary_json s = JObj [(''inflow'', JNum (sint (Inflow s))), (''outflow'', JNum (sint (Outflow s))),
                          (''net'', JNum (sint (Net s)))]"

text \<open>\<open>json.Unmarshal\<close> with its error ignored: a missing or malformed field keeps its zero value.\<close>

definition int64_field :: "string \<Rightarrow> json \<Rightarrow> int64" where
  "int64_field k j = (case jfield k j of Some (JNum n) \<Rightarrow> if in_int64 n then word_of_int n else 0 | _ \<Rightarrow> 0)"

definition summary_of_json :: "json \<Rightarrow> monthly_summary" where
  "summary_of_json j = \<lparr>Inflow = int64_field ''inflow'' j, Outflow = int64_field ''outflow'' j,
                        Net = int64_field ''net'' j\<rparr>"

definition summary_key :: "int \<Rightarrow> gtime \<Rightarrow> string" where
  "summary_key aid month = ''summary:'' @ fmt_int aid @ '':'' @ fmt_month month"

definition summary_ttl :: int where
  "summary_ttl = 5 * 60 * 1000000000"

definition GetMonthlySummarySvc :: "env \<Rightarrow> int \<Rightarrow> gtime \<Rightarrow> world \<Rightarrow> monthly_summary result \<times> world" where
  "GetMonthlySummarySvc E aid month w =
     (let key = summary_key aid month
      in case redis_get key w of
           (Some v, w1) \<Rightarrow> (Inr (summary_of_json v), w1)
         | (None, w1) \<Rightarrow>
             (case run (GetMonthlySummary E aid (pg_time month)) w1 of
                (Inl e, w2) \<Rightarrow> (Inl e, w2)
              | (Inr row, w2) \<Rightarrow>
                  let ms = \<lparr>Inflow = inflow row, Outflow = outflow row, Net = net row\<rparr>
                  in (Inr ms, redis_set key (summary_json ms) summary_ttl w2)))"

definition Invalidate :: "int \<Rightarrow> gtime \<Rightarrow> world \<Rightarrow> world" where
  "Invalidate aid month w = redis_del (summary_key aid month) w"

text \<open>The first instant of a time's month, as the callers of \<open>Invalidate\<close> compute it: the year and
  month in the location the time carries.\<close>

definition month_of :: "gtime \<Rightarrow> gtime" where
  "month_of t = time_Date (Year t) (Month t) 1 0 0 0 0 0"

lemma summary_roundtrip: "summary_of_json (summary_json s) = s"
  by (simp add: summary_of_json_def summary_json_def int64_field_def)

interpretation summary_doc: codec summary_json "\<lambda>j. Some (summary_of_json j)" "\<lambda>_. True"
  by unfold_locales (simp add: summary_roundtrip)

lemma summary_key_inj:
  "summary_key a t = summary_key b u \<longleftrightarrow> a = b \<and> Year t = Year u \<and> Month t = Month u"
proof
  assume "summary_key a t = summary_key b u"
  then have e: "fmt_int a @ CHR '':'' # fmt_month t = fmt_int b @ CHR '':'' # fmt_month u"
    by (simp add: summary_key_def)
  have sep: "CHR '':'' \<notin> set (fmt_int k)" for k
    using fmt_int_chars [of "CHR '':''" k] by auto
  have "fmt_int a = fmt_int b" and "fmt_month t = fmt_month u"
    using append_sep_inj [OF sep sep e] by simp_all
  then show "a = b \<and> Year t = Year u \<and> Month t = Month u"
    by (simp add: fmt_int_inj fmt_month_inj)
qed (simp add: summary_key_def fmt_month_def)

lemma valid_first: "valid_date (Year t) (Month t) 1"
  using wall_date_valid [of t] by (auto simp: valid_date_def)

lemma month_of_fields [simp]: "Year (month_of t) = Year t" "Month (month_of t) = Month t"
  using date_of_time_Date [OF valid_first [of t], of 0 0 0 0 0] by (simp_all add: month_of_def)

section \<open>What a call leaves untouched\<close>

lemma redis_frame [simp]:
  "db (redis_del k w) = db w" "clock (redis_del k w) = clock w" "db_faults (redis_del k w) = db_faults w"
  "db (redis_set k v ttl w) = db w" "clock (redis_set k v ttl w) = clock w"
  "db (next_redis w) = db w" "clock (next_redis w) = clock w" "db_faults (next_redis w) = db_faults w"
  "cache (next_redis w) = cache w"
  by (simp_all add: redis_del_def redis_set_def next_redis_def)

lemma Invalidate_frame [simp]:
  "db (Invalidate a m w) = db w" "clock (Invalidate a m w) = clock w" "db_faults (Invalidate a m w) = db_faults w"
  by (simp_all add: Invalidate_def)

end
