(* ===== verification/Transactions.thy ===== *)
theory Transactions
  imports Summary
begin

text \<open>
  internal/service/transactions.go: recording income and expenses against an account
  (\<open>Create\<close>), transfers (\<open>Transfer\<close>) and reversals (\<open>Reverse\<close>). Each runs in one database
  transaction that claims the idempotency key, writes the header and the postings, adds
  the outbox event and caches the response; the summary cache is invalidated after the commit.

  The definitions follow the source call by call. \<open>and_then\<close> is the early return on error.
\<close>

section \<open>Errors, requests and responses\<close>

datatype svc_error =
    ErrAccountNotFound
  | ErrForbidden
  | ErrAccountInactive
  | ErrCurrencyMismatch
  | ErrUnbalanced
  | ErrZeroAmount
  | ErrIdempotencyConflict
  | ErrIdempotencyInFlight
  | ErrTxNotFound
  | ErrAlreadyReversed
  | ErrIsReversal
  | DbError db_error
  | JsonError

record leg =
  AccountID :: int
  AmountMinor :: int64

record posting_dto =
  pd_ID :: int
  pd_AccountID :: int
  pd_AmountMinor :: int64

record transaction_dto =
  td_ID :: int
  td_UserID :: int
  td_Currency :: string
  td_OccurredAt :: gtime
  td_Note :: string
  td_ReversalOf :: int
  td_Postings :: "posting_dto list"
  td_CreatedAt :: gtime

record create_input =
  ci_UserID :: int
  ci_AccountID :: int
  ci_AmountMinor :: int64
  ci_Currency :: string
  ci_OccurredAt :: gtime
  ci_Note :: string
  ci_IdempotencyKey :: string

record transfer_input =
  ti_UserID :: int
  ti_FromAccountID :: int
  ti_ToAccountID :: int
  ti_AmountMinor :: int64
  ti_Currency :: string
  ti_OccurredAt :: gtime
  ti_Note :: string
  ti_IdempotencyKey :: string

record balanced_input =
  bi_UserID :: int
  bi_Legs :: "leg list"
  bi_UseExternalLeg :: bool
  bi_Currency :: string
  bi_OccurredAt :: gtime
  bi_Note :: string
  bi_IdempotencyKey :: string

record reverse_input =
  ri_UserID :: int
  ri_TransactionID :: int
  ri_IdempotencyKey :: string

section \<open>JSON forms\<close>

text \<open>\<open>time.Time\<close>'s \<open>MarshalJSON\<close>: an error for a year outside 0..9999 or a zone of a day or more.\<close>

definition time_json :: "gtime \<Rightarrow> json option" where
  "time_json t = (if 0 \<le> Year t \<and> Year t \<le> 9999 \<and> \<bar>zone_off t\<bar> < 86400
                  then Some (JStr (fmt_RFC3339Nano t)) else None)"

definition posting_json :: "posting_dto \<Rightarrow> json" where
  "posting_json p = JObj [(''id'', JNum (pd_ID p)), (''account_id'', JNum (pd_AccountID p)),
                          (''amount_minor'', JNum (sint (pd_AmountMinor p)))]"

text \<open>A nil slice is \<open>null\<close>.\<close>

definition slice_json :: "('a \<Rightarrow> json) \<Rightarrow> 'a list \<Rightarrow> json" where
  "slice_json f xs = (if xs = [] then JNull else JArr (map f xs))"

definition dto_json :: "transaction_dto \<Rightarrow> json option" where
  "dto_json t =
     (case (time_json (td_OccurredAt t), time_json (td_CreatedAt t)) of
        (Some occ, Some cre) \<Rightarrow> Some (JObj (
           [(''id'', JNum (td_ID t)), (''user_id'', JNum (td_UserID t)),
            (''currency'', JStr (td_Currency t)), (''occurred_at'', occ)]
           @ (if td_Note t = [] then [] else [(''note'', JStr (td_Note t))])
           @ (if td_ReversalOf t = 0 then [] else [(''reversal_of'', JNum (td_ReversalOf t))])
           @ [(''postings'', slice_json posting_json (td_Postings t)), (''created_at'', cre)]))
      | _ \<Rightarrow> None)"

fun num_of_json :: "json \<Rightarrow> int option" where
  "num_of_json (JNum n) = Some n"
| "num_of_json _ = None"

fun str_of_json :: "json \<Rightarrow> string option" where
  "str_of_json (JStr s) = Some s"
| "str_of_json _ = None"

text \<open>A field of a struct: its zero value when the document does not have it, an error on another type.\<close>

definition field_or :: "'a \<Rightarrow> (json \<Rightarrow> 'a option) \<Rightarrow> string \<Rightarrow> json \<Rightarrow> 'a option" where
  "field_or z f k j = (case jfield k j of None \<Rightarrow> Some z | Some v \<Rightarrow> f v)"

definition amount_of_json :: "json \<Rightarrow> int64 option" where
  "amount_of_json j = (case num_of_json j of None \<Rightarrow> None
                       | Some n \<Rightarrow> if in_int64 n then Some (word_of_int n) else None)"

definition time_of_json :: "json \<Rightarrow> gtime option" where
  "time_of_json j = Option.bind (str_of_json j) parse_RFC3339Nano"

definition posting_of_json :: "json \<Rightarrow> posting_dto option" where
  "posting_of_json j =
     Option.bind (field_or 0 num_of_json ''id'' j) (\<lambda>i.
     Option.bind (field_or 0 num_of_json ''account_id'' j) (\<lambda>a.
     Option.bind (field_or 0 amount_of_json ''amount_minor'' j) (\<lambda>m.
       Some \<lparr>pd_ID = i, pd_AccountID = a, pd_AmountMinor = m\<rparr>)))"

fun postings_of_json :: "json \<Rightarrow> posting_dto list option" where
  "postings_of_json JNull = Some []"
| "postings_of_json (JArr js) = those (map posting_of_json js)"
| "postings_of_json _ = None"

definition zero_time :: gtime where
  "zero_time = time_Date 1 1 1 0 0 0 0 0"

definition dto_of_json :: "json \<Rightarrow> transaction_dto option" where
  "dto_of_json j =
     Option.bind (field_or 0 num_of_json ''id'' j) (\<lambda>i.
     Option.bind (field_or 0 num_of_json ''user_id'' j) (\<lambda>u.
     Option.bind (field_or [] str_of_json ''currency'' j) (\<lambda>c.
     Option.bind (field_or zero_time time_of_json ''occurred_at'' j) (\<lambda>occ.
     Option.bind (field_or [] str_of_json ''note'' j) (\<lambda>n.
     Option.bind (field_or 0 num_of_json ''reversal_of'' j) (\<lambda>r.
     Option.bind (field_or [] postings_of_json ''postings'' j) (\<lambda>ps.
     Option.bind (field_or zero_time time_of_json ''created_at'' j) (\<lambda>cre.
       Some \<lparr>td_ID = i, td_UserID = u, td_Currency = c, td_OccurredAt = occ, td_Note = n,
             td_ReversalOf = r, td_Postings = ps, td_CreatedAt = cre\<rparr>))))))))"

definition event_json :: "transaction_row \<Rightarrow> gtime \<Rightarrow> int option \<Rightarrow> posting_dto list \<Rightarrow> json option" where
  "event_json h occ rof ps =
     (case time_json occ of None \<Rightarrow> None
      | Some o' \<Rightarrow> Some (JObj (
          [(''currency'', JStr (t_currency h)), (''occurred_at'', o'),
           (''postings'', slice_json posting_json ps)]
          @ (case rof of None \<Rightarrow> [] | Some r \<Rightarrow> [(''reversal_of'', JNum r)])
          @ [(''transaction_id'', JNum (t_id h)), (''user_id'', JNum (t_user_id h))])))"

section \<open>Validation and request hashes\<close>

fun sum_legs :: "int64 \<Rightarrow> leg list \<Rightarrow> svc_error + int64" where
  "sum_legs acc [] = Inr acc"
| "sum_legs acc (l # ls) =
     (if AmountMinor l = 0 then Inl ErrZeroAmount else sum_legs (acc + AmountMinor l) ls)"

definition validateLegs :: "leg list \<Rightarrow> bool \<Rightarrow> svc_error option" where
  "validateLegs legs useExternalLeg =
     (case sum_legs 0 legs of
        Inl e \<Rightarrow> Some e
      | Inr s \<Rightarrow> if \<not> useExternalLeg \<and> s \<noteq> 0 then Some ErrUnbalanced else None)"

definition leg_json :: "leg \<Rightarrow> json" where
  "leg_json l = JObj [(''account_id'', JNum (AccountID l)), (''amount_minor'', JNum (sint (AmountMinor l)))]"

definition requestHash :: "env \<Rightarrow> balanced_input \<Rightarrow> string" where
  "requestHash E inp =
     sha256hex E (case time_json (UTC (bi_OccurredAt inp)) of None \<Rightarrow> None
       | Some occ \<Rightarrow> Some (JObj
          [(''user_id'', JNum (bi_UserID inp)), (''legs'', slice_json leg_json (bi_Legs inp)),
           (''external'', JBool (bi_UseExternalLeg inp)), (''currency'', JStr (bi_Currency inp)),
           (''occurred_at'', occ), (''note'', JStr (bi_Note inp))]))"

definition reverseHash :: "env \<Rightarrow> reverse_input \<Rightarrow> string" where
  "reverseHash E inp =
     sha256hex E (Some (JObj [(''user_id'', JNum (ri_UserID inp)), (''op'', JStr ''reverse''),
                              (''transaction_id'', JNum (ri_TransactionID inp))]))"

definition isUniqueViolation :: "db_error \<Rightarrow> bool" where
  "isUniqueViolation e \<longleftrightarrow> sqlstate e = Some ''23505''"

section \<open>The service\<close>

type_synonym 'a call = "(svc_error + 'a) \<times> world"

definition and_then :: "'a call \<Rightarrow> ('a \<Rightarrow> world \<Rightarrow> 'b call) \<Rightarrow> 'b call" where
  "and_then r f = (case r of (Inl e, w) \<Rightarrow> (Inl e, w) | (Inr x, w) \<Rightarrow> f x w)"

definition query :: "'a statement \<Rightarrow> world \<Rightarrow> 'a call" where
  "query q w = (case run q w of (Inl e, w') \<Rightarrow> (Inl (DbError e), w') | (Inr x, w') \<Rightarrow> (Inr x, w'))"

definition marshalled :: "json option \<Rightarrow> world \<Rightarrow> json call" where
  "marshalled j w = (case j of None \<Rightarrow> (Inl JsonError, w) | Some v \<Rightarrow> (Inr v, w))"

definition claimIdempotency :: "int \<Rightarrow> string \<Rightarrow> string \<Rightarrow> world \<Rightarrow> transaction_dto option call" where
  "claimIdempotency uid key hash w =
     (if key = [] then (Inr None, w)
      else case run (InsertIdempotencyKey uid key hash) w of
        (Inr _, w1) \<Rightarrow> (Inr None, w1)
      | (Inl e, w1) \<Rightarrow>
          if e \<noteq> NoRows then (Inl (DbError e), w1)
          else and_then (query (GetIdempotency uid key) w1) (\<lambda>r w2.
            if k_request_hash r \<noteq> hash then (Inl ErrIdempotencyConflict, w2)
            else case (if k_status r = ''succeeded'' then k_response_json r else None) of
                Some resp \<Rightarrow>
                  (case dto_of_json resp of
                     None \<Rightarrow> (Inl JsonError, w2)
                   | Some dto \<Rightarrow> (Inr (Some dto), w2))
              | None \<Rightarrow> (Inl ErrIdempotencyInFlight, w2)))"

definition resolveExternal :: "int \<Rightarrow> string \<Rightarrow> world \<Rightarrow> int call" where
  "resolveExternal uid cur w =
     (case run (GetExternalAccount uid) w of
        (Inr ext, w1) \<Rightarrow> (Inr (a_id ext), w1)
      | (Inl e, w1) \<Rightarrow>
          if e = NoRows then
            and_then (query (CreateExternalAccount uid cur) w1) (\<lambda>created w2. (Inr (a_id created), w2))
          else (Inl (DbError e), w1))"

definition legs_total :: "leg list \<Rightarrow> int64" where
  "legs_total legs = (\<Sum>l\<leftarrow>legs. AmountMinor l)"

definition allLegs :: "balanced_input \<Rightarrow> world \<Rightarrow> leg list call" where
  "allLegs inp w =
     (if bi_UseExternalLeg inp then
        and_then (resolveExternal (bi_UserID inp) (bi_Currency inp) w) (\<lambda>extID w1.
          (Inr (bi_Legs inp @ [\<lparr>AccountID = extID, AmountMinor = - legs_total (bi_Legs inp)\<rparr>]), w1))
      else (Inr (bi_Legs inp), w))"

fun checkLegs :: "int \<Rightarrow> string \<Rightarrow> leg list \<Rightarrow> world \<Rightarrow> unit call" where
  "checkLegs uid cur [] w = (Inr (), w)"
| "checkLegs uid cur (l # ls) w =
     (case run (GetAccount (AccountID l)) w of
        (Inl e, w1) \<Rightarrow> (Inl (if e = NoRows then ErrAccountNotFound else DbError e), w1)
      | (Inr acc, w1) \<Rightarrow>
          if a_user_id acc \<noteq> uid then (Inl ErrForbidden, w1)
          else if \<not> a_is_active acc then (Inl ErrAccountInactive, w1)
          else if a_kind acc \<noteq> ''external'' \<and> a_currency acc \<noteq> cur then (Inl ErrCurrencyMismatch, w1)
          else checkLegs uid cur ls w1)"

fun createPostings :: "int \<Rightarrow> leg list \<Rightarrow> world \<Rightarrow> posting_dto list call" where
  "createPostings tid [] w = (Inr [], w)"
| "createPostings tid (l # ls) w =
     and_then (query (CreatePosting tid (AccountID l) (AmountMinor l)) w) (\<lambda>p w1.
     and_then (createPostings tid ls w1) (\<lambda>ps w2.
       (Inr (\<lparr>pd_ID = p_id p, pd_AccountID = p_account_id p, pd_AmountMinor = p_amount_minor p\<rparr> # ps), w2)))"

definition header_dto :: "env \<Rightarrow> transaction_row \<Rightarrow> string \<Rightarrow> int \<Rightarrow> posting_dto list \<Rightarrow> transaction_dto" where
  "header_dto E h note rof ps =
     \<lparr>td_ID = t_id h, td_UserID = t_user_id h, td_Currency = t_currency h,
      td_OccurredAt = go_time E (t_occurred_at h), td_Note = note, td_ReversalOf = rof,
      td_Postings = ps, td_CreatedAt = go_time E (t_created_at h)\<rparr>"

text \<open>The outbox event and the cached response, which both services write last before the commit.\<close>

definition publishAndCache ::
  "int \<Rightarrow> string \<Rightarrow> string \<Rightarrow> string \<Rightarrow> json option \<Rightarrow> transaction_dto \<Rightarrow> world \<Rightarrow> unit call" where
  "publishAndCache uid key hash eventType event dto w =
     and_then (marshalled event w) (\<lambda>payload w1.
     and_then (query (CreateOutboxEvent eventType payload) w1) (\<lambda>_ w2.
       if key \<noteq> [] then
         and_then (marshalled (dto_json dto) w2) (\<lambda>resp w3.
         query (MarkIdempotencySuccess uid key hash resp) w3)
       else (Inr (), w2)))"

datatype 'a outcome = Replayed transaction_dto | Written transaction_dto 'a

definition balancedTx :: "env \<Rightarrow> balanced_input \<Rightarrow> world \<Rightarrow> leg list outcome call" where
  "balancedTx E inp w =
     (let hash = requestHash E inp; uid = bi_UserID inp in
     and_then (claimIdempotency uid (bi_IdempotencyKey inp) hash w) (\<lambda>hit w1.
     case hit of Some dto \<Rightarrow> (Inr (Replayed dto), w1) | None \<Rightarrow>
     and_then (allLegs inp w1) (\<lambda>legs w2.
     and_then (checkLegs uid (bi_Currency inp) legs w2) (\<lambda>_ w3.
     and_then (query (CreateTransactionHeader uid (bi_Currency inp) None (pg_time (bi_OccurredAt inp))
                 (if bi_Note inp = [] then None else Some (bi_Note inp)) None) w3) (\<lambda>h w4.
     and_then (createPostings (t_id h) legs w4) (\<lambda>ps w5.
     let dto = header_dto E h (bi_Note inp) 0 ps in
     and_then (publishAndCache uid (bi_IdempotencyKey inp) hash ''TransactionCreated''
                 (event_json h (td_OccurredAt dto) None ps) dto w5) (\<lambda>_ w6.
       (Inr (Written dto legs), w6))))))))"

text \<open>
  The frame of both services: \<open>pool.Begin\<close>, the deferred \<open>tx.Rollback\<close> on every early return (a
  replayed response included), \<open>tx.Commit\<close>, and the cache invalidation after it.
\<close>

definition withTx ::
  "(world \<Rightarrow> 'a outcome call) \<Rightarrow> ('a \<Rightarrow> world \<Rightarrow> world) \<Rightarrow> world \<Rightarrow> transaction_dto call" where
  "withTx session after w =
     and_then (query Begin w) (\<lambda>_ w1.
     case session w1 of
       (Inl e, w2) \<Rightarrow> (Inl e, Rollback w1 w2)
     | (Inr (Replayed dto), w2) \<Rightarrow> (Inr dto, Rollback w1 w2)
     | (Inr (Written dto x), w2) \<Rightarrow>
         (case Commit w1 w2 of
            (Inl e, w3) \<Rightarrow> (Inl (DbError e), w3)
          | (Inr _, w3) \<Rightarrow> (Inr dto, after x w3)))"

definition invalidateLegs :: "gtime \<Rightarrow> leg list \<Rightarrow> world \<Rightarrow> world" where
  "invalidateLegs at legs w = fold (\<lambda>l. Invalidate (AccountID l) (month_of at)) legs w"

definition createBalanced :: "env \<Rightarrow> balanced_input \<Rightarrow> world \<Rightarrow> transaction_dto call" where
  "createBalanced E inp w =
     (case validateLegs (bi_Legs inp) (bi_UseExternalLeg inp) of
        Some e \<Rightarrow> (Inl e, w)
      | None \<Rightarrow> withTx (balancedTx E inp) (invalidateLegs (bi_OccurredAt inp)) w)"

definition balanced_of_create :: "create_input \<Rightarrow> balanced_input" where
  "balanced_of_create inp =
     \<lparr>bi_UserID = ci_UserID inp,
      bi_Legs = [\<lparr>AccountID = ci_AccountID inp, AmountMinor = ci_AmountMinor inp\<rparr>],
      bi_UseExternalLeg = True, bi_Currency = ci_Currency inp, bi_OccurredAt = ci_OccurredAt inp,
      bi_Note = ci_Note inp, bi_IdempotencyKey = ci_IdempotencyKey inp\<rparr>"

definition Create :: "env \<Rightarrow> create_input \<Rightarrow> world \<Rightarrow> transaction_dto call" where
  "Create E inp w =
     (if ci_AmountMinor inp = 0 then (Inl ErrZeroAmount, w)
      else createBalanced E (balanced_of_create inp) w)"

definition balanced_of_transfer :: "transfer_input \<Rightarrow> balanced_input" where
  "balanced_of_transfer inp =
     \<lparr>bi_UserID = ti_UserID inp,
      bi_Legs = [\<lparr>AccountID = ti_FromAccountID inp, AmountMinor = - ti_AmountMinor inp\<rparr>,
                 \<lparr>AccountID = ti_ToAccountID inp, AmountMinor = ti_AmountMinor inp\<rparr>],
      bi_UseExternalLeg = False, bi_Currency = ti_Currency inp, bi_OccurredAt = ti_OccurredAt inp,
      bi_Note = ti_Note inp, bi_IdempotencyKey = ti_IdempotencyKey inp\<rparr>"

definition Transfer :: "env \<Rightarrow> transfer_input \<Rightarrow> world \<Rightarrow> transaction_dto call" where
  "Transfer E inp w =
     (if sint (ti_AmountMinor inp) \<le> 0 then (Inl ErrZeroAmount, w)
      else if ti_FromAccountID inp = ti_ToAccountID inp then (Inl ErrUnbalanced, w)
      else createBalanced E (balanced_of_transfer inp) w)"

definition reversalNote :: "int \<Rightarrow> string" where
  "reversalNote i = ''reversal of transaction '' @ fmt_int i"

definition negated :: "posting_row \<Rightarrow> leg" where
  "negated p = \<lparr>AccountID = p_account_id p, AmountMinor = - p_amount_minor p\<rparr>"

definition reverseTx ::
  "env \<Rightarrow> reverse_input \<Rightarrow> gtime \<Rightarrow> world \<Rightarrow> (transaction_row \<times> posting_row list) outcome call" where
  "reverseTx E inp now w =
     (let hash = reverseHash E inp; uid = ri_UserID inp in
     and_then (claimIdempotency uid (ri_IdempotencyKey inp) hash w) (\<lambda>hit w1.
     case hit of Some dto \<Rightarrow> (Inr (Replayed dto), w1) | None \<Rightarrow>
     (case run (GetTransactionForUser (ri_TransactionID inp) uid) w1 of
        (Inl e, w2) \<Rightarrow> (Inl (if e = NoRows then ErrTxNotFound else DbError e), w2)
      | (Inr orig, w2) \<Rightarrow>
     if t_reversal_of orig \<noteq> None then (Inl ErrIsReversal, w2) else
     and_then (query (ListPostingsByTransaction (t_id orig)) w2) (\<lambda>origPostings w3.
     if origPostings = [] then (Inl ErrTxNotFound, w3) else
     (case run (CreateTransactionHeader uid (t_currency orig) None (pg_time now)
                  (Some (reversalNote (t_id orig))) (Some (t_id orig))) w3 of
        (Inl e, w4) \<Rightarrow> (Inl (if isUniqueViolation e then ErrAlreadyReversed else DbError e), w4)
      | (Inr h, w4) \<Rightarrow>
     and_then (createPostings (t_id h) (map negated origPostings) w4) (\<lambda>ps w5.
     let dto = header_dto E h (reversalNote (t_id orig)) (t_id orig) ps in
     and_then (publishAndCache uid (ri_IdempotencyKey inp) hash ''TransactionReversed''
                 (event_json h (td_OccurredAt dto) (Some (t_id orig)) ps) dto w5) (\<lambda>_ w6.
       (Inr (Written dto (orig, origPostings)), w6))))))))"

text \<open>After a reversal, the month of the original and then that of the reversal, for each posting.\<close>

definition invalidateReversed ::
  "env \<Rightarrow> gtime \<Rightarrow> transaction_row \<times> posting_row list \<Rightarrow> world \<Rightarrow> world" where
  "invalidateReversed E now x w =
     (case x of (orig, origPostings) \<Rightarrow>
        fold (\<lambda>p w. Invalidate (p_account_id p) (month_of now)
           (Invalidate (p_account_id p) (month_of (go_time E (t_occurred_at orig))) w)) origPostings w)"

definition Reverse :: "env \<Rightarrow> reverse_input \<Rightarrow> gtime \<Rightarrow> world \<Rightarrow> transaction_dto call" where
  "Reverse E inp timeNow w =
     (let now = UTC timeNow in withTx (reverseTx E inp now) (invalidateReversed E now) w)"

end
