(* ===== verification/Sessions.thy ===== *)
theory Sessions
  imports Transactions
begin

text \<open>
  How the calls of a database session compose. A successful call met no fault and is the
  composition of its successful statements; any call, successful or not, only moves the sequences
  forward and leaves the clock and the cache alone. The component proofs use these two views and
  never unfold a statement's fault handling again.
\<close>

section \<open>Successful statements\<close>

lemma run_Inr:
  "run q w = (Inr x, w') \<longleftrightarrow>
     next_fault w = Healthy \<and> fst (q (pg_now w) (db w)) = Inr x \<and>
     w' = w\<lparr>db_faults := tl (db_faults w), db := snd (q (pg_now w) (db w))\<rparr>"
  by (auto simp: run_def Let_def split: fault.splits)

lemma run_healthy:
  "db_faults w = [] \<Longrightarrow>
   run q w = (fst (q (pg_now w) (db w)), w\<lparr>db := snd (q (pg_now w) (db w))\<rparr>)"
  by (simp add: run_def next_fault_def Let_def)

lemma query_Inr [session_simps]: "query q w = (Inr x, w') \<longleftrightarrow> run q w = (Inr x, w')"
  by (auto simp: query_def split: prod.splits sum.splits)

lemma and_then_Inr [session_simps]:
  "and_then r f = (Inr y, w') \<longleftrightarrow> (\<exists>x w1. r = (Inr x, w1) \<and> f x w1 = (Inr y, w'))"
  by (auto simp: and_then_def split: prod.splits sum.splits)

lemma and_then_simps [simp]:
  "and_then (Inr x, w) f = f x w"
  "and_then (Inl e, w) f = (Inl e, w)"
  by (simp_all add: and_then_def)

lemma marshalled_Inr [session_simps]: "marshalled j w = (Inr v, w') \<longleftrightarrow> j = Some v \<and> w' = w"
  by (auto simp: marshalled_def split: option.splits)

lemma pg_now_simps [simp]:
  "pg_now (w\<lparr>db := d\<rparr>) = pg_now w" "pg_now (w\<lparr>db_faults := fs\<rparr>) = pg_now w"
  by (simp_all add: pg_now_def)

lemma run_frame:
  "run q w = (r, w1) \<Longrightarrow> clock w1 = clock w \<and> pg_now w1 = pg_now w \<and> cache w1 = cache w \<and> redis_faults w1 = redis_faults w \<and>
     (db w1 = db w \<or> db w1 = snd (q (pg_now w) (db w)))"
  by (auto simp: run_def Let_def split: fault.splits)

section \<open>Every call moves the sequences forward\<close>

definition seqs_le :: "sequences \<Rightarrow> sequences \<Rightarrow> bool" where
  "seqs_le s t \<longleftrightarrow>
     users_seq s \<le> users_seq t \<and> accounts_seq s \<le> accounts_seq t \<and>
     transactions_seq s \<le> transactions_seq t \<and> postings_seq s \<le> postings_seq t \<and>
     snapshots_seq s \<le> snapshots_seq t \<and> exports_seq s \<le> exports_seq t \<and> outbox_seq s \<le> outbox_seq t"

lemma seqs_le_refl [simp]: "seqs_le s s"
  by (simp add: seqs_le_def)

lemma seqs_le_trans: "seqs_le s t \<Longrightarrow> seqs_le t u \<Longrightarrow> seqs_le s u"
  by (auto simp: seqs_le_def)

definition forward :: "'a statement \<Rightarrow> bool" where
  "forward q \<longleftrightarrow> (\<forall>now d. seqs_le (seqs d) (seqs (snd (q now d))))"

lemma Commit_keeps: "Commit v w = (r, w') \<Longrightarrow> clock w' = clock w \<and> cache w' = cache w \<and> redis_faults w' = redis_faults w"
  by (auto simp: Commit_def Rollback_def Let_def split: fault.splits sum.splits)

definition later :: "world \<Rightarrow> world \<Rightarrow> bool" where
  "later w w' \<longleftrightarrow> seqs_le (seqs (db w)) (seqs (db w')) \<and> clock w' = clock w \<and>
     cache w' = cache w \<and> redis_faults w' = redis_faults w"

lemma later_refl [simp]: "later w w"
  by (simp add: later_def)

lemma later_trans: "later w1 w2 \<Longrightarrow> later w2 w3 \<Longrightarrow> later w1 w3"
  by (auto simp: later_def intro: seqs_le_trans)

interpretation session_frame: frame later
  by unfold_locales (auto intro: later_trans)

lemma later_pg_now: "later w w' \<Longrightarrow> pg_now w' = pg_now w"
  by (simp add: later_def pg_now_def)

lemma later_run: "forward q \<Longrightarrow> later w (snd (run q w))"
  by (auto simp: run_def later_def forward_def Let_def split: fault.splits)

lemma later_query: "forward q \<Longrightarrow> later w (snd (query q w))"
  using later_run [of q w] by (auto simp: query_def split: prod.splits sum.splits)

lemma later_and_then:
  assumes "later w (snd r)" and "\<And>x w1. r = (Inr x, w1) \<Longrightarrow> later w1 (snd (f x w1))"
  shows "later w (snd (and_then r f))"
  using assms by (auto simp: and_then_def split: prod.splits sum.splits intro: later_trans)

lemma later_marshalled: "later w (snd (marshalled j w))"
  by (simp add: marshalled_def split: option.splits)

lemma forward_read_only [simp]: "forward (read_only q)"
  by (simp add: forward_def read_only_def)

lemma snd_if: "snd (if b then x else y) = (if b then snd x else snd y)"
  by simp

lemma forward_statements [simp]:
  "forward Begin"
  "forward (InsertIdempotencyKey u k h)"
  "forward (GetIdempotency u k)"
  "forward (MarkIdempotencySuccess u k h r)"
  "forward (CreateOutboxEvent ty pl)"
  "forward (CreateTransactionHeader u c cat occ note rof)"
  "forward (CreatePosting t a m)"
  "forward (GetAccount a)"
  "forward (GetExternalAccount u)"
  "forward (insert_account u nm c kd)"
  "forward (CreateExternalAccount u c)"
  "forward (CreateAccount u nm c)"
  "forward (DeactivateAccount a)"
  "forward (GetTransactionForUser t u)"
  "forward (ListPostingsByTransaction t)"
  "forward (CreateUser em pw)"
  "forward (UpsertBalanceSnapshot a dd b)"
  "forward (CreateExport u mo)"
  "forward (UpdateExportStatus i st fp)"
  unfolding GetIdempotency_def GetAccount_def GetExternalAccount_def GetTransactionForUser_def
    ListPostingsByTransaction_def CreateExternalAccount_def CreateAccount_def
  by (auto simp: forward_def Begin_def InsertIdempotencyKey_def MarkIdempotencySuccess_def
      CreateOutboxEvent_def CreateTransactionHeader_def CreatePosting_def insert_account_def
      DeactivateAccount_def CreateUser_def UpsertBalanceSnapshot_def CreateExport_def
      UpdateExportStatus_def with_serial_def Let_def seqs_le_def snd_if read_only_def)

lemmas later_intros = later_and_then later_query later_marshalled later_run

lemma later_run_cases:
  assumes "forward q" and "\<And>e w1. later w1 (snd (g e w1))" and "\<And>x w1. later w1 (snd (f x w1))"
  shows "later w (snd (case run q w of (Inl e, w1) \<Rightarrow> g e w1 | (Inr x, w1) \<Rightarrow> f x w1))"
proof (cases "run q w")
  case (Pair r w1)
  then have "later w w1" using later_run [OF assms(1), of w] by simp
  with Pair assms(2,3) show ?thesis by (cases r) (auto intro: later_trans)
qed

lemma later_claimIdempotency: "later w (snd (claimIdempotency uid key hash w))"
  unfolding claimIdempotency_def
  by (auto intro!: later_run_cases later_and_then later_query split: option.split)

lemma later_resolveExternal: "later w (snd (resolveExternal uid cur w))"
  unfolding resolveExternal_def
  by (auto intro!: later_run_cases later_and_then later_query)

lemma later_allLegs: "later w (snd (allLegs inp w))"
  by (auto simp: allLegs_def intro!: later_and_then later_resolveExternal)

lemma later_checkLegs: "later w (snd (checkLegs uid cur ls w))"
  by (induction ls arbitrary: w) (auto intro!: later_run_cases)

lemma later_createPostings: "later w (snd (createPostings tid ls w))"
  by (induction ls arbitrary: w) (auto intro!: later_and_then later_query)

lemma later_publishAndCache: "later w (snd (publishAndCache uid key hash ty ev dto w))"
  by (auto simp: publishAndCache_def intro!: later_and_then later_query later_marshalled)

lemma later_balancedTx: "later w (snd (balancedTx E inp w))"
  by (auto simp: balancedTx_def Let_def split: option.split
      intro!: later_and_then later_claimIdempotency later_allLegs later_checkLegs later_query
        later_createPostings later_publishAndCache)

lemma later_reverseTx: "later w (snd (reverseTx E inp now w))"
  unfolding reverseTx_def Let_def
  by (auto split: option.split intro!: later_and_then later_claimIdempotency later_run_cases later_query
      later_createPostings later_publishAndCache)

end
