(* ===== verification/Booking.thy ===== *)
theory Booking
  imports Sessions
begin

text \<open>
  The abstract view of a ledger write: one bulk append of the external account (when it is new),
  the header, its postings, the outbox event and the idempotency key. The lemmas show that a
  successful session of \<open>balancedTx\<close> or \<open>reverseTx\<close>, statement by statement, is such an append.
\<close>

section \<open>The abstract append\<close>

record booking =
  bk_accounts :: "account_row list"
  bk_header :: transaction_row
  bk_postings :: "posting_row list"
  bk_event :: outbox_row
  bk_keys :: "idempotency_row list"

definition booked :: "booking \<Rightarrow> database \<Rightarrow> database" where
  "booked b d = d\<lparr>
     accounts := accounts d @ bk_accounts b,
     transactions := transactions d @ [bk_header b],
     postings := postings d @ bk_postings b,
     idempotency_keys := idempotency_keys d @ bk_keys b,
     outbox := outbox d @ [bk_event b],
     deferred_checks := [],
     seqs := (seqs d)\<lparr>
       accounts_seq := accounts_seq (seqs d) + int (length (bk_accounts b)),
       transactions_seq := transactions_seq (seqs d) + 1,
       postings_seq := postings_seq (seqs d) + int (length (bk_postings b)),
       outbox_seq := outbox_seq (seqs d) + 1\<rparr>\<rparr>"

fun posting_rows :: "int \<Rightarrow> int \<Rightarrow> int \<Rightarrow> leg list \<Rightarrow> posting_row list" where
  "posting_rows n tid now [] = []"
| "posting_rows n tid now (l # ls) =
     \<lparr>p_id = n, p_transaction_id = tid, p_account_id = AccountID l, p_amount_minor = AmountMinor l,
      p_created_at = now\<rparr> # posting_rows (n + 1) tid now ls"

definition posting_view :: "posting_row \<Rightarrow> posting_dto" where
  "posting_view p = \<lparr>pd_ID = p_id p, pd_AccountID = p_account_id p, pd_AmountMinor = p_amount_minor p\<rparr>"

definition reversed_id :: "transaction_row \<Rightarrow> int" where
  "reversed_id h = (case t_reversal_of h of None \<Rightarrow> 0 | Some r \<Rightarrow> r)"

definition key_rows :: "int \<Rightarrow> string \<Rightarrow> string \<Rightarrow> int \<Rightarrow> transaction_dto \<Rightarrow> idempotency_row list option" where
  "key_rows uid key hash now dto =
     (if key = [] then Some []
      else case dto_json dto of None \<Rightarrow> None
           | Some resp \<Rightarrow> Some [\<lparr>k_user_id = uid, k_key = key, k_request_hash = hash,
               k_status = ''succeeded'', k_response_json = Some resp, k_created_at = now\<rparr>])"

text \<open>The response and the append for a header and its legs; none when a document has no JSON form.\<close>

definition booking_for ::
  "env \<Rightarrow> account_row list \<Rightarrow> transaction_row \<Rightarrow> string \<Rightarrow> leg list \<Rightarrow> string \<Rightarrow> string \<Rightarrow> string \<Rightarrow>
   int \<Rightarrow> database \<Rightarrow> (transaction_dto \<times> booking) option" where
  "booking_for E exts h note legs ty key hash now d =
     (let rows = posting_rows (postings_seq (seqs d)) (t_id h) now legs;
          dto = header_dto E h note (reversed_id h) (map posting_view rows)
      in case (event_json h (td_OccurredAt dto) (t_reversal_of h) (td_Postings dto),
               key_rows (t_user_id h) key hash now dto) of
           (Some ev, Some keys) \<Rightarrow> Some (dto,
             \<lparr>bk_accounts = exts, bk_header = h, bk_postings = rows,
              bk_event = \<lparr>o_id = outbox_seq (seqs d), o_event_type = ty, o_payload = ev,
                          o_created_at = now, o_processed_at = None\<rparr>,
              bk_keys = keys\<rparr>)
         | _ \<Rightarrow> None)"

definition external_for :: "int \<Rightarrow> string \<Rightarrow> int \<Rightarrow> database \<Rightarrow> account_row list \<times> int" where
  "external_for uid cur now d =
     (case find (\<lambda>a. a_user_id a = uid \<and> a_kind a = ''external'') (accounts d) of
        Some a \<Rightarrow> ([], a_id a)
      | None \<Rightarrow> ([\<lparr>a_id = accounts_seq (seqs d), a_user_id = uid, a_name = ''External'',
                  a_currency = cur, a_is_active = True, a_kind = ''external'', a_created_at = now\<rparr>],
                 accounts_seq (seqs d)))"

lemma external_for_frame [simp]:
  "external_for u c n (d\<lparr>idempotency_keys := ks\<rparr>) = external_for u c n d"
  "external_for u c n (d\<lparr>deferred_checks := cs\<rparr>) = external_for u c n d"
  by (simp_all add: external_for_def split: option.split)

section \<open>Admission\<close>

definition key_free :: "int \<Rightarrow> string \<Rightarrow> database \<Rightarrow> bool" where
  "key_free uid key d \<longleftrightarrow> key = [] \<or>
     (\<forall>k\<in>set (idempotency_keys d). \<not> (k_user_id k = uid \<and> k_key k = key))"

definition leg_ok :: "int \<Rightarrow> string \<Rightarrow> account_row list \<Rightarrow> leg \<Rightarrow> bool" where
  "leg_ok uid cur accs l =
     (case find (\<lambda>a. a_id a = AccountID l) accs of None \<Rightarrow> False
      | Some a \<Rightarrow> a_user_id a = uid \<and> a_is_active a \<and> (a_kind a = ''external'' \<or> a_currency a = cur))"

text \<open>Room in the sequences for a header, \<open>n\<close> postings and an event.\<close>

definition room :: "nat \<Rightarrow> database \<Rightarrow> bool" where
  "room n d \<longleftrightarrow> transactions_seq (seqs d) \<le> MaxInt64 \<and>
     postings_seq (seqs d) + int n - 1 \<le> MaxInt64 \<and> outbox_seq (seqs d) \<le> MaxInt64"

definition settles :: "int \<Rightarrow> posting_row list \<Rightarrow> database \<Rightarrow> bool" where
  "settles tid rows d \<longleftrightarrow> rows = [] \<or> posting_sum tid (postings d @ rows) = 0"

definition balanced_exts :: "balanced_input \<Rightarrow> int \<Rightarrow> database \<Rightarrow> account_row list" where
  "balanced_exts inp now d =
     (if bi_UseExternalLeg inp then fst (external_for (bi_UserID inp) (bi_Currency inp) now d) else [])"

definition balanced_legs :: "balanced_input \<Rightarrow> int \<Rightarrow> database \<Rightarrow> leg list" where
  "balanced_legs inp now d = bi_Legs inp @
     (if bi_UseExternalLeg inp
      then [\<lparr>AccountID = snd (external_for (bi_UserID inp) (bi_Currency inp) now d),
             AmountMinor = - legs_total (bi_Legs inp)\<rparr>] else [])"

definition balanced_header :: "balanced_input \<Rightarrow> int \<Rightarrow> database \<Rightarrow> transaction_row" where
  "balanced_header inp now d =
     \<lparr>t_id = transactions_seq (seqs d), t_user_id = bi_UserID inp, t_currency = bi_Currency inp,
      t_category_id = None, t_occurred_at = pg_time (bi_OccurredAt inp),
      t_note = (if bi_Note inp = [] then None else Some (bi_Note inp)), t_reversal_of = None,
      t_created_at = now\<rparr>"

definition balanced_booking :: "env \<Rightarrow> balanced_input \<Rightarrow> int \<Rightarrow> database \<Rightarrow> (transaction_dto \<times> booking) option" where
  "balanced_booking E inp now d =
     booking_for E (balanced_exts inp now d) (balanced_header inp now d) (bi_Note inp)
       (balanced_legs inp now d) ''TransactionCreated'' (bi_IdempotencyKey inp) (requestHash E inp) now d"

definition admits_balanced :: "balanced_input \<Rightarrow> int \<Rightarrow> database \<Rightarrow> bool" where
  "admits_balanced inp now d \<longleftrightarrow>
     (let exts = balanced_exts inp now d; legs = balanced_legs inp now d;
          tid = transactions_seq (seqs d)
      in validateLegs (bi_Legs inp) (bi_UseExternalLeg inp) = None \<and>
         key_free (bi_UserID inp) (bi_IdempotencyKey inp) d \<and>
         has_user (bi_UserID inp) d \<and>
         (exts = [] \<or> accounts_seq (seqs d) \<le> MaxInt64 \<and>
            (\<forall>a\<in>set (accounts d). \<not> (a_user_id a = bi_UserID inp \<and> a_name a = ''External''))) \<and>
         (\<forall>l\<in>set legs. leg_ok (bi_UserID inp) (bi_Currency inp) (accounts d @ exts) l \<and> AmountMinor l \<noteq> 0) \<and>
         room (length legs) d \<and>
         settles tid (posting_rows (postings_seq (seqs d)) tid now legs) d)"

definition original_of :: "reverse_input \<Rightarrow> database \<Rightarrow> transaction_row option" where
  "original_of inp d = find (\<lambda>t. t_id t = ri_TransactionID inp \<and> t_user_id t = ri_UserID inp) (transactions d)"

definition postings_of :: "int \<Rightarrow> database \<Rightarrow> posting_row list" where
  "postings_of tid d = sort_key p_id (filter (\<lambda>p. p_transaction_id p = tid) (postings d))"

definition reverse_header :: "reverse_input \<Rightarrow> transaction_row \<Rightarrow> gtime \<Rightarrow> int \<Rightarrow> database \<Rightarrow> transaction_row" where
  "reverse_header inp orig at now d =
     \<lparr>t_id = transactions_seq (seqs d), t_user_id = ri_UserID inp, t_currency = t_currency orig,
      t_category_id = None, t_occurred_at = pg_time at, t_note = Some (reversalNote (t_id orig)),
      t_reversal_of = Some (t_id orig), t_created_at = now\<rparr>"

definition reverse_legs :: "transaction_row \<Rightarrow> database \<Rightarrow> leg list" where
  "reverse_legs orig d = map negated (postings_of (t_id orig) d)"

definition reverse_booking ::
  "env \<Rightarrow> reverse_input \<Rightarrow> transaction_row \<Rightarrow> gtime \<Rightarrow> int \<Rightarrow> database \<Rightarrow> (transaction_dto \<times> booking) option" where
  "reverse_booking E inp orig at now d =
     booking_for E [] (reverse_header inp orig at now d) (reversalNote (t_id orig)) (reverse_legs orig d)
       ''TransactionReversed'' (ri_IdempotencyKey inp) (reverseHash E inp) now d"

definition admits_reverse :: "reverse_input \<Rightarrow> transaction_row \<Rightarrow> int \<Rightarrow> database \<Rightarrow> bool" where
  "admits_reverse inp orig now d \<longleftrightarrow>
     (let legs = reverse_legs orig d; tid = transactions_seq (seqs d)
      in original_of inp d = Some orig \<and>
         key_free (ri_UserID inp) (ri_IdempotencyKey inp) d \<and>
         has_user (ri_UserID inp) d \<and>
         t_reversal_of orig = None \<and>
         (\<forall>t\<in>set (transactions d). t_reversal_of t \<noteq> Some (t_id orig)) \<and>
         legs \<noteq> [] \<and>
         (\<forall>l\<in>set legs. AmountMinor l \<noteq> 0 \<and> has_account (AccountID l) d) \<and>
         room (length legs) d \<and>
         settles tid (posting_rows (postings_seq (seqs d)) tid now legs) d)"

section \<open>Success of the single statements\<close>

lemma run_Some [session_simps]:
  "run q w = (Inr x, w') \<longleftrightarrow>
     next_fault w = Healthy \<and>
     (\<exists>d'. q (pg_now w) (db w) = (Inr x, d') \<and> w' = w\<lparr>db_faults := tl (db_faults w), db := d'\<rparr>)"
  unfolding run_Inr by (cases "q (pg_now w) (db w)") auto

lemma run_case_Inr:
  "(case run q w of (Inl e, w1) \<Rightarrow> (Inl (g e), w1) | (Inr x, w1) \<Rightarrow> f x w1) = (Inr y, w') \<longleftrightarrow>
     (\<exists>x w1. run q w = (Inr x, w1) \<and> f x w1 = (Inr y, w'))"
  by (auto split: prod.splits sum.splits)

lemma with_serial_Inr:
  "with_serial sel upd k d = (Inr x, d') \<longleftrightarrow>
     sel (seqs d) \<le> MaxInt64 \<and> k (sel (seqs d)) (d\<lparr>seqs := upd (\<lambda>_. sel (seqs d) + 1) (seqs d)\<rparr>) = (Inr x, d')"
  by (simp add: with_serial_def Let_def)

lemma has_frame [simp]:
  "has_user u (d\<lparr>seqs := s\<rparr>) = has_user u d" "has_account a (d\<lparr>seqs := s\<rparr>) = has_account a d"
  "has_transaction t (d\<lparr>seqs := s\<rparr>) = has_transaction t d"
  "has_user u (d\<lparr>postings := ps\<rparr>) = has_user u d" "has_account a (d\<lparr>postings := ps\<rparr>) = has_account a d"
  "has_transaction t (d\<lparr>postings := ps\<rparr>) = has_transaction t d"
  "has_user u (d\<lparr>deferred_checks := cs\<rparr>) = has_user u d"
  "has_account a (d\<lparr>deferred_checks := cs\<rparr>) = has_account a d"
  "has_transaction t (d\<lparr>deferred_checks := cs\<rparr>) = has_transaction t d"
  "has_user u (d\<lparr>idempotency_keys := ks\<rparr>) = has_user u d"
  "has_user u (d\<lparr>accounts := acs\<rparr>) = has_user u d"
  "has_user u (d\<lparr>transactions := ts\<rparr>) = has_user u d"
  "has_account a (d\<lparr>transactions := ts\<rparr>) = has_account a d"
  "has_transaction t (d\<lparr>transactions := ts\<rparr>) = (\<exists>r\<in>set ts. t_id r = t)"
  by (simp_all add: has_user_def has_account_def has_transaction_def)

lemma CreatePosting_Inr:
  "CreatePosting tid aid amt now d = (Inr row, d') \<longleftrightarrow>
     postings_seq (seqs d) \<le> MaxInt64 \<and> amt \<noteq> 0 \<and> has_transaction tid d \<and> has_account aid d \<and>
     row = \<lparr>p_id = postings_seq (seqs d), p_transaction_id = tid, p_account_id = aid,
            p_amount_minor = amt, p_created_at = now\<rparr> \<and>
     d' = d\<lparr>postings := postings d @ [row], deferred_checks := deferred_checks d @ [tid],
            seqs := (seqs d)\<lparr>postings_seq := postings_seq (seqs d) + 1\<rparr>\<rparr>"
  by (auto simp: CreatePosting_def with_serial_Inr Let_def split: if_splits)

lemma CreateTransactionHeader_Inr:
  "CreateTransactionHeader uid cur None occ note rof now d = (Inr row, d') \<longleftrightarrow>
     transactions_seq (seqs d) \<le> MaxInt64 \<and>
     (case rof of None \<Rightarrow> True
      | Some r \<Rightarrow> has_transaction r d \<and> (\<forall>t\<in>set (transactions d). t_reversal_of t \<noteq> Some r)) \<and>
     has_user uid d \<and>
     row = \<lparr>t_id = transactions_seq (seqs d), t_user_id = uid, t_currency = cur, t_category_id = None,
            t_occurred_at = occ, t_note = note, t_reversal_of = rof, t_created_at = now\<rparr> \<and>
     d' = d\<lparr>transactions := transactions d @ [row],
            seqs := (seqs d)\<lparr>transactions_seq := transactions_seq (seqs d) + 1\<rparr>\<rparr>"
  by (auto simp: CreateTransactionHeader_def with_serial_Inr Let_def split: if_splits option.splits)

lemma insert_account_Inr:
  "insert_account uid nm cur kd now d = (Inr row, d') \<longleftrightarrow>
     accounts_seq (seqs d) \<le> MaxInt64 \<and> has_user uid d \<and>
     (\<forall>a\<in>set (accounts d). \<not> (a_user_id a = uid \<and> a_name a = nm)) \<and>
     (kd = ''external'' \<longrightarrow> (\<forall>a\<in>set (accounts d). \<not> (a_user_id a = uid \<and> a_kind a = ''external''))) \<and>
     row = \<lparr>a_id = accounts_seq (seqs d), a_user_id = uid, a_name = nm, a_currency = cur,
            a_is_active = True, a_kind = kd, a_created_at = now\<rparr> \<and>
     d' = d\<lparr>accounts := accounts d @ [row],
            seqs := (seqs d)\<lparr>accounts_seq := accounts_seq (seqs d) + 1\<rparr>\<rparr>"
  by (auto simp: insert_account_def with_serial_Inr Let_def split: if_splits)

lemma InsertIdempotencyKey_Inr:
  "InsertIdempotencyKey uid key hash now d = (Inr row, d') \<longleftrightarrow>
     (\<forall>k\<in>set (idempotency_keys d). \<not> (k_user_id k = uid \<and> k_key k = key)) \<and> has_user uid d \<and>
     row = \<lparr>k_user_id = uid, k_key = key, k_request_hash = hash, k_status = ''started'',
            k_response_json = None, k_created_at = now\<rparr> \<and>
     d' = d\<lparr>idempotency_keys := idempotency_keys d @ [row]\<rparr>"
  by (auto simp: InsertIdempotencyKey_def Let_def split: if_splits)

lemma CreateOutboxEvent_Inr:
  "CreateOutboxEvent ty pl now d = (Inr row, d') \<longleftrightarrow>
     outbox_seq (seqs d) \<le> MaxInt64 \<and>
     row = \<lparr>o_id = outbox_seq (seqs d), o_event_type = ty, o_payload = pl, o_created_at = now,
            o_processed_at = None\<rparr> \<and>
     d' = d\<lparr>outbox := outbox d @ [row], seqs := (seqs d)\<lparr>outbox_seq := outbox_seq (seqs d) + 1\<rparr>\<rparr>"
  by (auto simp: CreateOutboxEvent_def with_serial_Inr Let_def)

lemma read_only_Inr [session_simps]: "read_only q now d = (Inr x, d') \<longleftrightarrow> q d = Inr x \<and> d' = d"
  by (auto simp: read_only_def)

lemma one_row_Inr [session_simps]: "one_row r = Inr x \<longleftrightarrow> r = Some x"
  by (cases r) auto

lemmas statement_Inr = CreatePosting_Inr CreateTransactionHeader_Inr insert_account_Inr
  InsertIdempotencyKey_Inr CreateOutboxEvent_Inr

section \<open>Success of the phases of a session\<close>

lemma length_posting_rows [simp]: "length (posting_rows n tid now ls) = length ls"
  by (induction ls arbitrary: n) auto

lemma createPostings_Inr:
  assumes "createPostings tid ls w = (Inr ps, w')"
  defines "rows \<equiv> posting_rows (postings_seq (seqs (db w))) tid (pg_now w) ls"
  shows "ps = map posting_view rows"
    and "db w' = (db w)\<lparr>postings := postings (db w) @ rows,
           deferred_checks := deferred_checks (db w) @ replicate (length ls) tid,
           seqs := (seqs (db w))\<lparr>postings_seq := postings_seq (seqs (db w)) + int (length ls)\<rparr>\<rparr>"
    and "\<forall>l\<in>set ls. AmountMinor l \<noteq> 0 \<and> has_account (AccountID l) (db w)"
    and "ls \<noteq> [] \<longrightarrow> postings_seq (seqs (db w)) + int (length ls) - 1 \<le> MaxInt64"
proof -
  have "ps = map posting_view rows \<and>
     db w' = (db w)\<lparr>postings := postings (db w) @ rows,
           deferred_checks := deferred_checks (db w) @ replicate (length ls) tid,
           seqs := (seqs (db w))\<lparr>postings_seq := postings_seq (seqs (db w)) + int (length ls)\<rparr>\<rparr> \<and>
     (\<forall>l\<in>set ls. AmountMinor l \<noteq> 0 \<and> has_account (AccountID l) (db w)) \<and>
     (ls \<noteq> [] \<longrightarrow> postings_seq (seqs (db w)) + int (length ls) - 1 \<le> MaxInt64)"
    using assms(1) unfolding rows_def
  proof (induction ls arbitrary: w ps)
    case (Cons l ls)
    obtain p w1 ps1 where q: "query (CreatePosting tid (AccountID l) (AmountMinor l)) w = (Inr p, w1)"
      and r: "createPostings tid ls w1 = (Inr ps1, w')" and ps: "ps = posting_view p # ps1"
      using Cons.prems by (auto simp: session_simps posting_view_def)
    from q have w1: "pg_now w1 = pg_now w" and p: "postings_seq (seqs (db w)) \<le> MaxInt64"
      "AmountMinor l \<noteq> 0" "has_account (AccountID l) (db w)"
      "p = \<lparr>p_id = postings_seq (seqs (db w)), p_transaction_id = tid, p_account_id = AccountID l,
            p_amount_minor = AmountMinor l, p_created_at = pg_now w\<rparr>"
      "db w1 = (db w)\<lparr>postings := postings (db w) @ [p], deferred_checks := deferred_checks (db w) @ [tid],
            seqs := (seqs (db w))\<lparr>postings_seq := postings_seq (seqs (db w)) + 1\<rparr>\<rparr>"
      by (auto simp: session_simps CreatePosting_Inr)
    show ?case using Cons.IH [OF r] p ps w1 by (cases ls) (auto simp: posting_view_def algebra_simps)
  qed simp
  then show "ps = map posting_view rows"
    and "db w' = (db w)\<lparr>postings := postings (db w) @ rows,
           deferred_checks := deferred_checks (db w) @ replicate (length ls) tid,
           seqs := (seqs (db w))\<lparr>postings_seq := postings_seq (seqs (db w)) + int (length ls)\<rparr>\<rparr>"
    and "\<forall>l\<in>set ls. AmountMinor l \<noteq> 0 \<and> has_account (AccountID l) (db w)"
    and "ls \<noteq> [] \<longrightarrow> postings_seq (seqs (db w)) + int (length ls) - 1 \<le> MaxInt64"
    by simp_all
qed

lemma run_read_only:
  "run (read_only q) w = (r, w') \<Longrightarrow> db w' = db w \<and> pg_now w' = pg_now w"
  by (auto simp: run_def read_only_def Let_def split: fault.splits)

lemma run_read_only_NoRows:
  "run (read_only (\<lambda>d. one_row (q d))) w = (Inl NoRows, w') \<Longrightarrow> q (db w) = None"
  by (auto simp: run_def read_only_def one_row_def Let_def split: fault.splits option.splits)

lemma resolveExternal_Inr:
  assumes "resolveExternal uid cur w = (Inr i, w')"
  defines "ex \<equiv> external_for uid cur (pg_now w) (db w)"
  shows "i = snd ex"
    and "db w' = (db w)\<lparr>accounts := accounts (db w) @ fst ex,
           seqs := (seqs (db w))\<lparr>accounts_seq := accounts_seq (seqs (db w)) + int (length (fst ex))\<rparr>\<rparr>"
    and "fst ex = [] \<or> accounts_seq (seqs (db w)) \<le> MaxInt64 \<and>
           (\<forall>a\<in>set (accounts (db w)). \<not> (a_user_id a = uid \<and> a_name a = ''External''))"
proof -
  have "i = snd ex \<and> db w' = (db w)\<lparr>accounts := accounts (db w) @ fst ex,
           seqs := (seqs (db w))\<lparr>accounts_seq := accounts_seq (seqs (db w)) + int (length (fst ex))\<rparr>\<rparr> \<and>
        (fst ex = [] \<or> accounts_seq (seqs (db w)) \<le> MaxInt64 \<and>
           (\<forall>a\<in>set (accounts (db w)). \<not> (a_user_id a = uid \<and> a_name a = ''External'')))"
  proof (cases "run (GetExternalAccount uid) w")
    case (Pair r w1)
    show ?thesis
    proof (cases r)
      case (Inr a)
      with Pair have "find (\<lambda>a. a_user_id a = uid \<and> a_kind a = ''external'') (accounts (db w)) = Some a"
        and "db w1 = db w" by (auto simp: GetExternalAccount_def session_simps)
      with assms(1) Pair Inr show ?thesis
        by (auto simp: resolveExternal_def ex_def external_for_def)
    next
      case (Inl e)
      with assms(1) Pair have e: "e = NoRows" by (auto simp: resolveExternal_def split: if_splits)
      with Pair Inl have none: "find (\<lambda>a. a_user_id a = uid \<and> a_kind a = ''external'') (accounts (db w)) = None"
        by (auto simp: GetExternalAccount_def dest: run_read_only_NoRows)
      have w1: "db w1 = db w" "pg_now w1 = pg_now w"
        using Pair run_read_only unfolding GetExternalAccount_def by blast+
      from assms(1) Pair Inl e obtain a where "query (CreateExternalAccount uid cur) w1 = (Inr a, w')" "i = a_id a"
        by (auto simp: resolveExternal_def session_simps)
      with none w1 show ?thesis
        by (auto simp: session_simps CreateExternalAccount_def insert_account_Inr ex_def external_for_def)
    qed
  qed
  then show "i = snd ex"
    and "db w' = (db w)\<lparr>accounts := accounts (db w) @ fst ex,
           seqs := (seqs (db w))\<lparr>accounts_seq := accounts_seq (seqs (db w)) + int (length (fst ex))\<rparr>\<rparr>"
    and "fst ex = [] \<or> accounts_seq (seqs (db w)) \<le> MaxInt64 \<and>
           (\<forall>a\<in>set (accounts (db w)). \<not> (a_user_id a = uid \<and> a_name a = ''External''))"
    by simp_all
qed

lemma allLegs_Inr:
  assumes "allLegs inp w = (Inr legs, w')"
  defines "exts \<equiv> balanced_exts inp (pg_now w) (db w)"
  shows "legs = balanced_legs inp (pg_now w) (db w)"
    and "db w' = (db w)\<lparr>accounts := accounts (db w) @ exts,
           seqs := (seqs (db w))\<lparr>accounts_seq := accounts_seq (seqs (db w)) + int (length exts)\<rparr>\<rparr>"
    and "exts = [] \<or> accounts_seq (seqs (db w)) \<le> MaxInt64 \<and>
           (\<forall>a\<in>set (accounts (db w)). \<not> (a_user_id a = bi_UserID inp \<and> a_name a = ''External''))"
proof -
  have "legs = balanced_legs inp (pg_now w) (db w) \<and>
    db w' = (db w)\<lparr>accounts := accounts (db w) @ exts,
           seqs := (seqs (db w))\<lparr>accounts_seq := accounts_seq (seqs (db w)) + int (length exts)\<rparr>\<rparr> \<and>
    (exts = [] \<or> accounts_seq (seqs (db w)) \<le> MaxInt64 \<and>
           (\<forall>a\<in>set (accounts (db w)). \<not> (a_user_id a = bi_UserID inp \<and> a_name a = ''External'')))"
  proof (cases "bi_UseExternalLeg inp")
    case True
    with assms(1) obtain i where "resolveExternal (bi_UserID inp) (bi_Currency inp) w = (Inr i, w')"
      and "legs = bi_Legs inp @ [\<lparr>AccountID = i, AmountMinor = - legs_total (bi_Legs inp)\<rparr>]"
      by (auto simp: allLegs_def and_then_Inr)
    with resolveExternal_Inr [OF this(1)] True show ?thesis
      by (simp add: exts_def balanced_legs_def balanced_exts_def)
  qed (use assms(1) in \<open>simp add: allLegs_def exts_def balanced_legs_def balanced_exts_def\<close>)
  then show "legs = balanced_legs inp (pg_now w) (db w)"
    and "db w' = (db w)\<lparr>accounts := accounts (db w) @ exts,
           seqs := (seqs (db w))\<lparr>accounts_seq := accounts_seq (seqs (db w)) + int (length exts)\<rparr>\<rparr>"
    and "exts = [] \<or> accounts_seq (seqs (db w)) \<le> MaxInt64 \<and>
           (\<forall>a\<in>set (accounts (db w)). \<not> (a_user_id a = bi_UserID inp \<and> a_name a = ''External''))"
    by simp_all
qed

lemma checkLegs_Inr:
  assumes "checkLegs uid cur ls w = (Inr u, w')"
  shows "db w' = db w \<and> (\<forall>l\<in>set ls. leg_ok uid cur (accounts (db w)) l)"
  using assms
proof (induction ls arbitrary: w)
  case (Cons l ls)
  from Cons.prems obtain a w1 where "run (GetAccount (AccountID l)) w = (Inr a, w1)"
    and "a_user_id a = uid" "a_is_active a" "a_kind a = ''external'' \<or> a_currency a = cur"
    and "checkLegs uid cur ls w1 = (Inr u, w')"
    by (auto split: prod.splits sum.splits if_splits)
  with Cons.IH [of w1] show ?case by (auto simp: GetAccount_def session_simps leg_ok_def)
qed simp

lemma publishAndCache_Inr:
  assumes "publishAndCache uid key hash ty ev dto w = (Inr u, w')"
  obtains pl where "ev = Some pl" and "outbox_seq (seqs (db w)) \<le> MaxInt64"
    and "key = [] \<or> dto_json dto \<noteq> None"
    and "db w' = (db w)\<lparr>
      outbox := outbox (db w) @ [\<lparr>o_id = outbox_seq (seqs (db w)), o_event_type = ty, o_payload = pl,
                                  o_created_at = pg_now w, o_processed_at = None\<rparr>],
      seqs := (seqs (db w))\<lparr>outbox_seq := outbox_seq (seqs (db w)) + 1\<rparr>,
      idempotency_keys := (if key = [] then idempotency_keys (db w)
        else map (\<lambda>k. if k_user_id k = uid \<and> k_key k = key \<and> k_request_hash k = hash
                 then k\<lparr>k_status := ''succeeded'', k_response_json := dto_json dto\<rparr> else k)
                 (idempotency_keys (db w)))\<rparr>"
proof -
  from assms obtain pl w2 where ev: "ev = Some pl"
    and q: "query (CreateOutboxEvent ty pl) w = (Inr (\<lparr>o_id = outbox_seq (seqs (db w)), o_event_type = ty,
      o_payload = pl, o_created_at = pg_now w, o_processed_at = None\<rparr>), w2)"
    and m: "(if key \<noteq> [] then and_then (marshalled (dto_json dto) w2)
         (\<lambda>resp w3. query (MarkIdempotencySuccess uid key hash resp) w3) else (Inr (), w2)) = (Inr u, w')"
    by (auto simp: publishAndCache_def and_then_Inr marshalled_Inr query_Inr run_Some CreateOutboxEvent_Inr)
  show thesis
  proof (cases "key = []")
    case True
    then show ?thesis using that ev q m by (auto simp: query_Inr run_Some CreateOutboxEvent_Inr)
  next
    case False
    then obtain resp where "dto_json dto = Some resp" "query (MarkIdempotencySuccess uid key hash resp) w2 = (Inr u, w')"
      using m by (auto simp: and_then_Inr marshalled_Inr)
    then show ?thesis using that [OF ev] q False
      by (simp add: query_Inr run_Some CreateOutboxEvent_Inr MarkIdempotencySuccess_def)
  qed
qed

section \<open>The idempotency claim\<close>

definition replays :: "int \<Rightarrow> string \<Rightarrow> string \<Rightarrow> database \<Rightarrow> transaction_dto \<Rightarrow> bool" where
  "replays uid key hash d dto \<longleftrightarrow> key \<noteq> [] \<and>
     (case find (\<lambda>k. k_user_id k = uid \<and> k_key k = key) (idempotency_keys d) of
        None \<Rightarrow> False
      | Some r \<Rightarrow> k_request_hash r = hash \<and> k_status r = ''succeeded'' \<and>
          Option.bind (k_response_json r) dto_of_json = Some dto)"

definition started_keys :: "int \<Rightarrow> string \<Rightarrow> string \<Rightarrow> int \<Rightarrow> idempotency_row list" where
  "started_keys uid key hash now = (if key = [] then [] else
     [\<lparr>k_user_id = uid, k_key = key, k_request_hash = hash, k_status = ''started'',
       k_response_json = None, k_created_at = now\<rparr>])"

lemma run_claim_NoRows:
  "run (InsertIdempotencyKey uid key hash) w = (Inl NoRows, w1) \<Longrightarrow> db w1 = db w \<and> pg_now w1 = pg_now w"
  by (auto simp: run_def InsertIdempotencyKey_def Let_def split: fault.splits if_splits)

lemma claimIdempotency_fresh:
  assumes "claimIdempotency uid key hash w = (Inr None, w')"
  shows "key_free uid key (db w)"
    and "db w' = (db w)\<lparr>idempotency_keys := idempotency_keys (db w) @ started_keys uid key hash (pg_now w)\<rparr>"
proof -
  consider "key = []" "w' = w" | row where "key \<noteq> []"
      "run (InsertIdempotencyKey uid key hash) w = (Inr row, w')"
    using assms by (auto simp: claimIdempotency_def session_simps split: if_splits prod.splits sum.splits option.splits)
  then have "key_free uid key (db w) \<and>
    db w' = (db w)\<lparr>idempotency_keys := idempotency_keys (db w) @ started_keys uid key hash (pg_now w)\<rparr>"
    by cases (auto simp: key_free_def started_keys_def run_Some InsertIdempotencyKey_Inr)
  then show "key_free uid key (db w)"
    and "db w' = (db w)\<lparr>idempotency_keys := idempotency_keys (db w) @ started_keys uid key hash (pg_now w)\<rparr>"
    by simp_all
qed

lemma claimIdempotency_hit:
  assumes "claimIdempotency uid key hash w = (Inr (Some dto), w')"
  shows "replays uid key hash (db w) dto"
proof -
  from assms obtain w1 where "key \<noteq> []" and i: "run (InsertIdempotencyKey uid key hash) w = (Inl NoRows, w1)"
    and a: "and_then (query (GetIdempotency uid key) w1) (\<lambda>r w2.
            if k_request_hash r \<noteq> hash then (Inl ErrIdempotencyConflict, w2)
            else case (if k_status r = ''succeeded'' then k_response_json r else None) of
                None \<Rightarrow> (Inl ErrIdempotencyInFlight, w2)
              | Some resp \<Rightarrow> (case dto_of_json resp of None \<Rightarrow> (Inl JsonError, w2)
                   | Some dto \<Rightarrow> (Inr (Some dto), w2))) = (Inr (Some dto), w')"
    by (auto simp: claimIdempotency_def split: if_splits prod.splits sum.splits)
  from a obtain r w2 where "query (GetIdempotency uid key) w1 = (Inr r, w2)" "k_request_hash r = hash"
    "k_status r = ''succeeded''" "Option.bind (k_response_json r) dto_of_json = Some dto"
    by (auto simp: and_then_Inr split: if_splits option.splits)
  with \<open>key \<noteq> []\<close> run_claim_NoRows [OF i] show ?thesis
    by (simp add: replays_def session_simps GetIdempotency_def)
qed

section \<open>A successful session is an append\<close>

lemma mark_started:
  assumes "key_free uid key d" and "key \<noteq> []"
  shows "map (\<lambda>k. if k_user_id k = uid \<and> k_key k = key \<and> k_request_hash k = hash then f k else k)
           (idempotency_keys d @ started_keys uid key hash now)
         = idempotency_keys d @ map f (started_keys uid key hash now)"
  using assms by (auto simp: key_free_def started_keys_def intro!: map_if_id)

lemma has_user_of_header:
  "query (CreateTransactionHeader uid cur None occ note rof) w = (Inr h, w') \<Longrightarrow> has_user uid (db w)"
  by (simp add: query_Inr run_Some CreateTransactionHeader_Inr)

text \<open>The common tail of both services: postings, event and cached response behind a new header.\<close>

lemma tail_booked:
  assumes ps: "createPostings (t_id h) legs w4 = (Inr ps, w5)"
    and pub: "publishAndCache (t_user_id h) key hash ty (event_json h (td_OccurredAt dto) (t_reversal_of h) ps)
                dto w5 = (Inr u, w6)"
    and dto: "dto = header_dto E h nt (reversed_id h) ps"
    and w4: "db w4 = d\<lparr>accounts := accounts d @ exts, transactions := transactions d @ [h],
        idempotency_keys := idempotency_keys d @ started_keys (t_user_id h) key hash (pg_now w4),
        seqs := (seqs d)\<lparr>accounts_seq := accounts_seq (seqs d) + int (length exts),
                         transactions_seq := transactions_seq (seqs d) + 1\<rparr>\<rparr>"
    and d: "deferred_checks d = []" "key_free (t_user_id h) key d"
  obtains b where "booking_for E exts h nt legs ty key hash (pg_now w4) d = Some (dto, b)"
    and "db w6 = (booked b d)\<lparr>deferred_checks := replicate (length legs) (t_id h)\<rparr>"
    and "\<forall>l\<in>set legs. AmountMinor l \<noteq> 0 \<and> (\<exists>a\<in>set (accounts d @ exts). a_id a = AccountID l)"
    and "legs = [] \<or> postings_seq (seqs d) + int (length legs) - 1 \<le> MaxInt64"
    and "outbox_seq (seqs d) \<le> MaxInt64"
proof -
  note cp = createPostings_Inr [OF ps]
  have now5: "pg_now w5 = pg_now w4"
    using later_createPostings [of w4 "t_id h" legs] ps by (simp add: later_pg_now)
  let ?rows = "posting_rows (postings_seq (seqs d)) (t_id h) (pg_now w4) legs"
  have psr: "ps = map posting_view ?rows" using cp(1) w4 by simp
  obtain pl where pl: "event_json h (td_OccurredAt dto) (t_reversal_of h) ps = Some pl"
    and ob: "outbox_seq (seqs (db w5)) \<le> MaxInt64" and dj: "key = [] \<or> dto_json dto \<noteq> None"
    and w6: "db w6 = (db w5)\<lparr>
      outbox := outbox (db w5) @ [\<lparr>o_id = outbox_seq (seqs (db w5)), o_event_type = ty, o_payload = pl,
                                  o_created_at = pg_now w5, o_processed_at = None\<rparr>],
      seqs := (seqs (db w5))\<lparr>outbox_seq := outbox_seq (seqs (db w5)) + 1\<rparr>,
      idempotency_keys := (if key = [] then idempotency_keys (db w5)
        else map (\<lambda>k. if k_user_id k = t_user_id h \<and> k_key k = key \<and> k_request_hash k = hash
                 then k\<lparr>k_status := ''succeeded'', k_response_json := dto_json dto\<rparr> else k)
                 (idempotency_keys (db w5)))\<rparr>"
    by (rule publishAndCache_Inr [OF pub])
  obtain keys where keys: "key_rows (t_user_id h) key hash (pg_now w4) dto = Some keys"
    using dj by (cases "key = []") (auto simp: key_rows_def)
  define b where "b = \<lparr>bk_accounts = exts, bk_header = h, bk_postings = ?rows,
    bk_event = \<lparr>o_id = outbox_seq (seqs d), o_event_type = ty, o_payload = pl,
                o_created_at = pg_now w4, o_processed_at = None\<rparr>, bk_keys = keys\<rparr>"
  have k5: "idempotency_keys (db w5) = idempotency_keys d @ started_keys (t_user_id h) key hash (pg_now w4)"
    using cp(2) w4 by simp
  have km: "(if key = [] then idempotency_keys (db w5)
        else map (\<lambda>k. if k_user_id k = t_user_id h \<and> k_key k = key \<and> k_request_hash k = hash
                 then k\<lparr>k_status := ''succeeded'', k_response_json := dto_json dto\<rparr> else k)
                 (idempotency_keys (db w5)))
     = idempotency_keys d @ keys"
    unfolding k5
    using keys mark_started [OF d(2)] by (auto simp: key_rows_def started_keys_def split: option.splits)
  have "db w6 = (booked b d)\<lparr>deferred_checks := replicate (length legs) (t_id h)\<rparr>"
    unfolding w6 km booked_def by (simp add: b_def cp(2) w4 d(1) now5)
  moreover have "booking_for E exts h nt legs ty key hash (pg_now w4) d = Some (dto, b)"
    using pl keys dto psr by (simp add: booking_for_def b_def Let_def header_dto_def)
  moreover have "outbox_seq (seqs d) \<le> MaxInt64" using ob cp(2) w4 by simp
  moreover have "\<forall>l\<in>set legs. AmountMinor l \<noteq> 0 \<and> (\<exists>a\<in>set (accounts d @ exts). a_id a = AccountID l)"
    using cp(3) by (simp add: w4 has_account_def)
  ultimately show thesis using that cp(4) w4 by auto
qed

text \<open>The database in front of the tail: the key is claimed, the accounts and the header are there.\<close>

definition opened :: "account_row list \<Rightarrow> transaction_row \<Rightarrow> string \<Rightarrow> string \<Rightarrow> int \<Rightarrow> database \<Rightarrow> database" where
  "opened exts h key hash now d = d\<lparr>accounts := accounts d @ exts, transactions := transactions d @ [h],
     idempotency_keys := idempotency_keys d @ started_keys (t_user_id h) key hash now,
     seqs := (seqs d)\<lparr>accounts_seq := accounts_seq (seqs d) + int (length exts), transactions_seq := transactions_seq (seqs d) + 1\<rparr>\<rparr>"

lemma balanced_opened:
  assumes c: "claimIdempotency (bi_UserID inp) (bi_IdempotencyKey inp) hash w = (Inr None, w1)"
    and l: "allLegs inp w1 = (Inr legs, w2)"
    and k: "checkLegs (bi_UserID inp) (bi_Currency inp) legs w2 = (Inr u, w3)"
    and h: "query (CreateTransactionHeader (bi_UserID inp) (bi_Currency inp) None (pg_time (bi_OccurredAt inp))
          (if bi_Note inp = [] then None else Some (bi_Note inp)) None) w3 = (Inr h, w4)"
  shows "legs = balanced_legs inp (pg_now w) (db w)" and "h = balanced_header inp (pg_now w) (db w)"
    and "db w4 = opened (balanced_exts inp (pg_now w) (db w)) h (bi_IdempotencyKey inp) hash (pg_now w) (db w)"
    and "pg_now w4 = pg_now w"
    and "key_free (bi_UserID inp) (bi_IdempotencyKey inp) (db w) \<and> has_user (bi_UserID inp) (db w) \<and>
      transactions_seq (seqs (db w)) \<le> MaxInt64 \<and>
      (\<forall>l\<in>set legs. leg_ok (bi_UserID inp) (bi_Currency inp) (accounts (db w) @ balanced_exts inp (pg_now w) (db w)) l) \<and>
      (balanced_exts inp (pg_now w) (db w) = [] \<or> accounts_seq (seqs (db w)) \<le> MaxInt64 \<and>
         (\<forall>a\<in>set (accounts (db w)). \<not> (a_user_id a = bi_UserID inp \<and> a_name a = ''External'')))"
proof -
  have now: "pg_now w1 = pg_now w" "pg_now w3 = pg_now w"
    using c l k later_claimIdempotency [of w "bi_UserID inp" "bi_IdempotencyKey inp" hash] later_allLegs [of w1 inp]
      later_checkLegs [of w2 "bi_UserID inp" "bi_Currency inp" legs]
    by (auto simp: later_pg_now dest!: later_pg_now)
  note cl = claimIdempotency_fresh [OF c] and ck = checkLegs_Inr [OF k]
  have "balanced_legs inp (pg_now w) (db w1) = balanced_legs inp (pg_now w) (db w)"
    "balanced_exts inp (pg_now w) (db w1) = balanced_exts inp (pg_now w) (db w)"
    by (simp_all add: balanced_legs_def balanced_exts_def cl(2))
  note al = allLegs_Inr [OF l, unfolded now(1) this]
  have hd: "h = balanced_header inp (pg_now w) (db w)" "transactions_seq (seqs (db w)) \<le> MaxInt64" "has_user (bi_UserID inp) (db w)"
    "db w4 = (db w3)\<lparr>transactions := transactions (db w3) @ [h],
       seqs := (seqs (db w3))\<lparr>transactions_seq := transactions_seq (seqs (db w3)) + 1\<rparr>\<rparr>" and n4: "pg_now w4 = pg_now w"
    using h ck al(2) cl(2) now
    by (auto simp: query_Inr run_Some CreateTransactionHeader_Inr balanced_header_def)
  show "legs = balanced_legs inp (pg_now w) (db w)" "h = balanced_header inp (pg_now w) (db w)" "pg_now w4 = pg_now w"
    by (fact al(1) hd(1) n4)+
  have "t_user_id h = bi_UserID inp" by (simp add: hd(1) balanced_header_def)
  then show "db w4 = opened (balanced_exts inp (pg_now w) (db w)) h (bi_IdempotencyKey inp) hash (pg_now w) (db w)"
    using hd(4) ck al(2) cl(2) by (simp add: opened_def)
  show "key_free (bi_UserID inp) (bi_IdempotencyKey inp) (db w) \<and> has_user (bi_UserID inp) (db w) \<and>
      transactions_seq (seqs (db w)) \<le> MaxInt64 \<and>
      (\<forall>l\<in>set legs. leg_ok (bi_UserID inp) (bi_Currency inp) (accounts (db w) @ balanced_exts inp (pg_now w) (db w)) l) \<and>
      (balanced_exts inp (pg_now w) (db w) = [] \<or> accounts_seq (seqs (db w)) \<le> MaxInt64 \<and>
         (\<forall>a\<in>set (accounts (db w)). \<not> (a_user_id a = bi_UserID inp \<and> a_name a = ''External'')))"
    using cl hd(2,3) ck al(2,3) by simp
qed

lemma balanced_header_fields [simp]:
  "t_user_id (balanced_header inp now d) = bi_UserID inp" "t_reversal_of (balanced_header inp now d) = None"
  "reversed_id (balanced_header inp now d) = 0" "t_id (balanced_header inp now d) = transactions_seq (seqs d)"
  by (simp_all add: balanced_header_def reversed_id_def)

lemma balancedTx_Written:
  assumes run: "balancedTx E inp w = (Inr (Written dto legs), w')" and d: "deferred_checks (db w) = []"
  obtains b where "balanced_booking E inp (pg_now w) (db w) = Some (dto, b)"
    and "legs = balanced_legs inp (pg_now w) (db w)"
    and "db w' = (booked b (db w))\<lparr>deferred_checks := replicate (length legs) (transactions_seq (seqs (db w)))\<rparr>"
    and "validateLegs (bi_Legs inp) (bi_UseExternalLeg inp) = None \<Longrightarrow>
         settles (transactions_seq (seqs (db w)))
           (posting_rows (postings_seq (seqs (db w))) (transactions_seq (seqs (db w))) (pg_now w) legs) (db w) \<Longrightarrow>
         legs \<noteq> [] \<Longrightarrow> admits_balanced inp (pg_now w) (db w)"
proof -
  let ?key = "bi_IdempotencyKey inp" and ?hash = "requestHash E inp"
  obtain w1 w2 w3 w4 w5 h ps u where
    c: "claimIdempotency (bi_UserID inp) ?key ?hash w = (Inr None, w1)" and
    l: "allLegs inp w1 = (Inr legs, w2)" and
    k: "checkLegs (bi_UserID inp) (bi_Currency inp) legs w2 = (Inr (), w3)" and
    h: "query (CreateTransactionHeader (bi_UserID inp) (bi_Currency inp) None (pg_time (bi_OccurredAt inp))
          (if bi_Note inp = [] then None else Some (bi_Note inp)) None) w3 = (Inr h, w4)" and
    p: "createPostings (t_id h) legs w4 = (Inr ps, w5)" and
    dto: "dto = header_dto E h (bi_Note inp) 0 ps" and
    pub: "publishAndCache (bi_UserID inp) ?key ?hash ''TransactionCreated'' (event_json h (td_OccurredAt dto) None ps) dto w5
          = (Inr u, w')"
    using run by (auto simp: balancedTx_def Let_def and_then_Inr split: option.splits)
  note op = balanced_opened [OF c l k h]
  obtain b where b: "booking_for E (balanced_exts inp (pg_now w) (db w)) h (bi_Note inp) legs ''TransactionCreated''
      ?key ?hash (pg_now w4) (db w) = Some (dto, b)"
    and w': "db w' = (booked b (db w))\<lparr>deferred_checks := replicate (length legs) (t_id h)\<rparr>"
    and nz: "\<forall>l\<in>set legs. AmountMinor l \<noteq> 0 \<and> (\<exists>a\<in>set (accounts (db w) @ balanced_exts inp (pg_now w) (db w)). a_id a = AccountID l)"
    and ro: "legs = [] \<or> postings_seq (seqs (db w)) + int (length legs) - 1 \<le> MaxInt64" "outbox_seq (seqs (db w)) \<le> MaxInt64"
    by (rule tail_booked [OF p, where d = "db w" and E = E and nt = "bi_Note inp" and ty = "''TransactionCreated''" and key = ?key
          and hash = ?hash and exts = "balanced_exts inp (pg_now w) (db w)" and dto = dto and u = u and ?w6.0 = w'])
      (use pub dto op d in \<open>simp_all add: opened_def\<close>)
  show thesis
  proof (rule that)
    show "balanced_booking E inp (pg_now w) (db w) = Some (dto, b)" using b op(1,2,4) by (simp add: balanced_booking_def)
    show "db w' = (booked b (db w))\<lparr>deferred_checks := replicate (length legs) (transactions_seq (seqs (db w)))\<rparr>" using w' op(2) by simp
    show "admits_balanced inp (pg_now w) (db w)"
      if "validateLegs (bi_Legs inp) (bi_UseExternalLeg inp) = None" "legs \<noteq> []"
        "settles (transactions_seq (seqs (db w)))
           (posting_rows (postings_seq (seqs (db w))) (transactions_seq (seqs (db w))) (pg_now w) legs) (db w)"
      using that op(1,5) nz ro by (simp add: admits_balanced_def Let_def room_def)
  qed (rule op(1))
qed

lemma reverse_opened:
  assumes c: "claimIdempotency (ri_UserID inp) (ri_IdempotencyKey inp) hash w = (Inr None, w1)"
    and g: "run (GetTransactionForUser (ri_TransactionID inp) (ri_UserID inp)) w1 = (Inr orig, w2)"
    and l: "query (ListPostingsByTransaction (t_id orig)) w2 = (Inr ops, w3)"
    and h: "run (CreateTransactionHeader (ri_UserID inp) (t_currency orig) None (pg_time at)
          (Some (reversalNote (t_id orig))) (Some (t_id orig))) w3 = (Inr h, w4)"
  shows "ops = postings_of (t_id orig) (db w)" and "h = reverse_header inp orig at (pg_now w) (db w)"
    and "db w4 = opened [] h (ri_IdempotencyKey inp) hash (pg_now w) (db w)" and "pg_now w4 = pg_now w"
    and "original_of inp (db w) = Some orig \<and> key_free (ri_UserID inp) (ri_IdempotencyKey inp) (db w) \<and>
      has_user (ri_UserID inp) (db w) \<and> transactions_seq (seqs (db w)) \<le> MaxInt64 \<and>
      (\<forall>t\<in>set (transactions (db w)). t_reversal_of t \<noteq> Some (t_id orig))"
proof -
  note cl = claimIdempotency_fresh [OF c]
  have w3: "db w3 = db w1" "pg_now w3 = pg_now w" and n4: "pg_now w4 = pg_now w"
    using g l h c later_claimIdempotency [of w "ri_UserID inp" "ri_IdempotencyKey inp" hash]
    by (auto simp: query_Inr run_Some GetTransactionForUser_def ListPostingsByTransaction_def read_only_Inr dest!: later_pg_now)
  show "ops = postings_of (t_id orig) (db w)" using g l cl(2)
    by (auto simp: query_Inr run_Some GetTransactionForUser_def ListPostingsByTransaction_def read_only_Inr postings_of_def)
  have o: "original_of inp (db w) = Some orig" using g cl(2)
    by (auto simp: run_Some GetTransactionForUser_def read_only_Inr original_of_def one_row_Inr)
  have hd: "h = reverse_header inp orig at (pg_now w) (db w)" "transactions_seq (seqs (db w)) \<le> MaxInt64"
    "has_user (ri_UserID inp) (db w)" "\<forall>t\<in>set (transactions (db w)). t_reversal_of t \<noteq> Some (t_id orig)"
    "db w4 = (db w3)\<lparr>transactions := transactions (db w3) @ [h],
       seqs := (seqs (db w3))\<lparr>transactions_seq := transactions_seq (seqs (db w3)) + 1\<rparr>\<rparr>"
    using h cl(2) w3 by (auto simp: run_Some CreateTransactionHeader_Inr reverse_header_def)
  show "h = reverse_header inp orig at (pg_now w) (db w)" "pg_now w4 = pg_now w" by (fact hd(1) n4)+
  have "t_user_id h = ri_UserID inp" by (simp add: hd(1) reverse_header_def)
  then show "db w4 = opened [] h (ri_IdempotencyKey inp) hash (pg_now w) (db w)"
    using hd(5) w3 cl(2) by (simp add: opened_def)
  show "original_of inp (db w) = Some orig \<and> key_free (ri_UserID inp) (ri_IdempotencyKey inp) (db w) \<and>
      has_user (ri_UserID inp) (db w) \<and> transactions_seq (seqs (db w)) \<le> MaxInt64 \<and>
      (\<forall>t\<in>set (transactions (db w)). t_reversal_of t \<noteq> Some (t_id orig))"
    using o cl(1) hd(2-4) by simp
qed

lemma reverse_header_fields [simp]:
  "t_user_id (reverse_header inp orig at now d) = ri_UserID inp" "t_reversal_of (reverse_header inp orig at now d) = Some (t_id orig)"
  "reversed_id (reverse_header inp orig at now d) = t_id orig" "t_id (reverse_header inp orig at now d) = transactions_seq (seqs d)"
  by (simp_all add: reverse_header_def reversed_id_def)

lemma reverseTx_Written:
  assumes run: "reverseTx E inp at w = (Inr (Written dto (orig, ops)), w')" and d: "deferred_checks (db w) = []"
  obtains b where "reverse_booking E inp orig at (pg_now w) (db w) = Some (dto, b)"
    and "ops = postings_of (t_id orig) (db w)" and "ops \<noteq> []"
    and "db w' = (booked b (db w))\<lparr>deferred_checks := replicate (length ops) (transactions_seq (seqs (db w)))\<rparr>"
    and "settles (transactions_seq (seqs (db w)))
           (posting_rows (postings_seq (seqs (db w))) (transactions_seq (seqs (db w))) (pg_now w)
             (reverse_legs orig (db w))) (db w) \<Longrightarrow> admits_reverse inp orig (pg_now w) (db w)"
proof -
  let ?uid = "ri_UserID inp" and ?key = "ri_IdempotencyKey inp" and ?hash = "reverseHash E inp"
  obtain w1 w2 w3 w4 w5 h ps u where
    c: "claimIdempotency ?uid ?key ?hash w = (Inr None, w1)" and
    g: "run (GetTransactionForUser (ri_TransactionID inp) ?uid) w1 = (Inr orig, w2)" and
    nr: "t_reversal_of orig = None" and
    l: "query (ListPostingsByTransaction (t_id orig)) w2 = (Inr ops, w3)" and
    ne: "ops \<noteq> []" and
    h: "run (CreateTransactionHeader ?uid (t_currency orig) None (pg_time at)
          (Some (reversalNote (t_id orig))) (Some (t_id orig))) w3 = (Inr h, w4)" and
    p: "createPostings (t_id h) (map negated ops) w4 = (Inr ps, w5)" and
    dto: "dto = header_dto E h (reversalNote (t_id orig)) (t_id orig) ps" and
    pub: "publishAndCache ?uid ?key ?hash ''TransactionReversed''
            (event_json h (td_OccurredAt dto) (Some (t_id orig)) ps) dto w5 = (Inr u, w')"
    using run by (auto simp: reverseTx_def Let_def and_then_Inr run_case_Inr split: option.splits if_splits)
  note op = reverse_opened [OF c g l h]
  have legs: "reverse_legs orig (db w) = map negated ops" by (simp add: reverse_legs_def op(1))
  obtain b where b: "booking_for E [] h (reversalNote (t_id orig)) (map negated ops) ''TransactionReversed''
      ?key ?hash (pg_now w4) (db w) = Some (dto, b)"
    and w': "db w' = (booked b (db w))\<lparr>deferred_checks := replicate (length (map negated ops)) (t_id h)\<rparr>"
    and nz: "\<forall>l\<in>set (map negated ops). AmountMinor l \<noteq> 0 \<and> (\<exists>a\<in>set (accounts (db w) @ []). a_id a = AccountID l)"
    and ro: "map negated ops = [] \<or> postings_seq (seqs (db w)) + int (length (map negated ops)) - 1 \<le> MaxInt64"
      "outbox_seq (seqs (db w)) \<le> MaxInt64"
    by (rule tail_booked [OF p, where d = "db w" and E = E and nt = "reversalNote (t_id orig)" and ty = "''TransactionReversed''"
          and key = ?key and hash = ?hash and exts = "[]" and dto = dto and u = u and ?w6.0 = w'])
      (use pub dto op d in \<open>simp_all add: opened_def\<close>)
  show thesis
  proof (rule that)
    show "reverse_booking E inp orig at (pg_now w) (db w) = Some (dto, b)" using b op(2,4) legs by (simp add: reverse_booking_def)
    show "db w' = (booked b (db w))\<lparr>deferred_checks := replicate (length ops) (transactions_seq (seqs (db w)))\<rparr>" using w' op(2) by simp
    show "admits_reverse inp orig (pg_now w) (db w)"
      if "settles (transactions_seq (seqs (db w)))
           (posting_rows (postings_seq (seqs (db w))) (transactions_seq (seqs (db w))) (pg_now w)
             (reverse_legs orig (db w))) (db w)"
      using that op(5) nz ro nr ne legs by (auto simp: admits_reverse_def Let_def room_def has_account_def)
  qed (fact op(1) ne)+
qed

end
