(* ===== verification/Outcomes.thy ===== *)
theory Outcomes
  imports Booking
begin

text \<open>
  What a call of the transaction service can do to the database, under every schedule of faults:
  nothing (up to sequence values that were drawn), or one complete append.
\<close>

definition untouched :: "database \<Rightarrow> database \<Rightarrow> bool" where
  "untouched d d' \<longleftrightarrow> seqs_le (seqs d) (seqs d') \<and> d' = d\<lparr>seqs := seqs d'\<rparr>"

lemma untouched_refl [simp]: "untouched d d"
  by (simp add: untouched_def)

lemma untouched_rolled_back: "seqs_le (seqs d0) (seqs d) \<Longrightarrow> untouched d0 (rolled_back d0 d)"
  by (simp add: untouched_def rolled_back_def)

lemma rolled_back_simps [simp]: "seqs (rolled_back d0 d) = seqs d"
  by (simp add: rolled_back_def)

lemma fold_Invalidate_frame [simp]:
  "db (fold (\<lambda>x. Invalidate (f x) m) xs w) = db w" "clock (fold (\<lambda>x. Invalidate (f x) m) xs w) = clock w"
  by (induction xs arbitrary: w) simp_all

lemma fold_Invalidate2_frame [simp]:
  "db (fold (\<lambda>x w. Invalidate (f x) m (Invalidate (f x) n w)) xs w) = db w"
  "clock (fold (\<lambda>x w. Invalidate (f x) m (Invalidate (f x) n w)) xs w) = clock w"
  by (induction xs arbitrary: w) simp_all

text \<open>A commit either takes effect, its deferred checks having passed, or rolls back.\<close>

lemma Commit_outcome:
  assumes "Commit w0 w = (r, w')"
  shows "(run_checks (deferred_checks (db w)) (db w) = Inr () \<and> db w' = (db w)\<lparr>deferred_checks := []\<rparr> \<and>
            (r = Inr () \<or> r = Inl ConnectionFailure)) \<or>
         (isl r \<and> db w' = rolled_back (db w0) (db w))"
proof -
  obtain c where c: "run_checks (deferred_checks (db w)) (db w) = c" by blast
  show ?thesis using assms unfolding Commit_def Let_def c
    by (cases "next_fault w"; cases c) (auto simp: Rollback_def)
qed

lemma Begin_outcome:
  assumes "query Begin w = (r, w1)" and "deferred_checks (db w) = []"
  shows "db w1 = db w \<and> pg_now w1 = pg_now w"
  using assms by (auto simp: query_def run_def Begin_def pg_now_def Let_def split: fault.splits)

lemma settles_checks:
  assumes "run_checks (replicate (length rows) tid) d = Inr ()" and "postings d = postings d0 @ rows"
  shows "settles tid rows d0"
  using assms unfolding run_checks_ok by (cases rows) (simp_all add: settles_def)

lemma booked_simps [simp]:
  "postings (booked b d) = postings d @ bk_postings b"
  "transactions (booked b d) = transactions d @ [bk_header b]"
  "accounts (booked b d) = accounts d @ bk_accounts b"
  "outbox (booked b d) = outbox d @ [bk_event b]"
  "idempotency_keys (booked b d) = idempotency_keys d @ bk_keys b"
  "users (booked b d) = users d" "deferred_checks (booked b d) = []"
  "category_ids (booked b d) = category_ids d" "exports (booked b d) = exports d"
  "balance_snapshots (booked b d) = balance_snapshots d"
  "(booked b d)\<lparr>deferred_checks := []\<rparr> = booked b d"
  by (simp_all add: booked_def)

lemma booking_for_fields:
  assumes "booking_for E exts h nt legs ty key hash now d = Some (dto, b)"
  shows "bk_accounts b = exts" "bk_header b = h"
    "bk_postings b = posting_rows (postings_seq (seqs d)) (t_id h) now legs"
    "key_rows (t_user_id h) key hash now dto = Some (bk_keys b)"
    "dto = header_dto E h nt (reversed_id h) (map posting_view (bk_postings b))"
    "o_id (bk_event b) = outbox_seq (seqs d)" "o_processed_at (bk_event b) = None"
    "event_json h (td_OccurredAt dto) (t_reversal_of h) (td_Postings dto) = Some (o_payload (bk_event b))"
  using assms by (auto simp: booking_for_def Let_def split: option.splits)

lemma withTx_outcome:
  assumes call: "withTx session after w = (r, w')" and idle: "deferred_checks (db w) = []"
    and forth: "\<And>v. later v (snd (session v))" and after: "\<And>x v. db (after x v) = db v"
  shows "untouched (db w) (db w') \<and>
           (\<forall>dto. r = Inr dto \<longrightarrow> (\<exists>w1 w2. db w1 = db w \<and> session w1 = (Inr (Replayed dto), w2)))
       \<or> (\<exists>w1 w2 dto x. db w1 = db w \<and> pg_now w1 = pg_now w \<and> session w1 = (Inr (Written dto x), w2) \<and>
            run_checks (deferred_checks (db w2)) (db w2) = Inr () \<and> db w' = (db w2)\<lparr>deferred_checks := []\<rparr> \<and>
            (r = Inr dto \<or> r = Inl (DbError ConnectionFailure)))"
proof -
  obtain r1 w1 where b: "query Begin w = (r1, w1)" by fastforce
  note w1 = Begin_outcome [OF b idle]
  obtain r2 w2 where t: "session w1 = (r2, w2)" by fastforce
  have "seqs_le (seqs (db w)) (seqs (db w2))" using forth [of w1] t w1 by (simp add: later_def)
  then have rb: "untouched (db w) (rolled_back (db w1) (db w2))" using w1 by (simp add: untouched_rolled_back)
  show ?thesis
  proof (cases r1)
    case (Inl e)
    with call b w1 show ?thesis by (auto simp: withTx_def)
  next
    case (Inr u)
    consider e where "r2 = Inl e" | dto where "r2 = Inr (Replayed dto)" | dto x where "r2 = Inr (Written dto x)"
      by (metis outcome.exhaust sum.exhaust)
    then show ?thesis
    proof cases
      case 3
      obtain rc w3 where c: "Commit w1 w2 = (rc, w3)" by fastforce
      have "w' = (case rc of Inl e \<Rightarrow> w3 | Inr _ \<Rightarrow> after x w3)"
        and "r = (case rc of Inl e \<Rightarrow> Inl (DbError e) | Inr _ \<Rightarrow> Inr dto)"
        using call b Inr t 3 c by (auto simp: withTx_def split: sum.splits)
      then show ?thesis using Commit_outcome [OF c] w1 t 3 rb after by (cases rc) auto
    qed (use call b Inr t rb w1 in \<open>auto simp: withTx_def Rollback_def\<close>)
  qed
qed

lemma invalidate_frame [simp]:
  "db (invalidateLegs at legs w) = db w" "db (invalidateReversed E now x w) = db w"
  by (simp_all add: invalidateLegs_def invalidateReversed_def split: prod.split)

lemma balancedTx_Replayed:
  "balancedTx E inp w = (Inr (Replayed dto), w') \<Longrightarrow>
   replays (bi_UserID inp) (bi_IdempotencyKey inp) (requestHash E inp) (db w) dto"
  by (auto simp: balancedTx_def Let_def and_then_Inr split: option.splits dest: claimIdempotency_hit)

lemma reverseTx_Replayed:
  "reverseTx E inp now w = (Inr (Replayed dto), w') \<Longrightarrow>
   replays (ri_UserID inp) (ri_IdempotencyKey inp) (reverseHash E inp) (db w) dto"
  by (auto simp: reverseTx_def Let_def and_then_Inr run_case_Inr split: option.splits if_splits
      dest: claimIdempotency_hit)

lemma createBalanced_outcome:
  assumes call: "createBalanced E inp w = (r, w')" and idle: "deferred_checks (db w) = []"
    and legs: "bi_Legs inp \<noteq> []"
  shows "untouched (db w) (db w') \<and>
           (\<forall>dto. r = Inr dto \<longrightarrow> replays (bi_UserID inp) (bi_IdempotencyKey inp) (requestHash E inp) (db w) dto)
       \<or> admits_balanced inp (pg_now w) (db w) \<and>
           (\<exists>dto b. balanced_booking E inp (pg_now w) (db w) = Some (dto, b) \<and> db w' = booked b (db w) \<and>
              (r = Inr dto \<or> r = Inl (DbError ConnectionFailure)))"
proof (cases "validateLegs (bi_Legs inp) (bi_UseExternalLeg inp)")
  case (Some e)
  with call show ?thesis by (auto simp: createBalanced_def)
next
  case valid: None
  with call have "withTx (balancedTx E inp) (invalidateLegs (bi_OccurredAt inp)) w = (r, w')"
    by (simp add: createBalanced_def)
  from withTx_outcome [OF this idle later_balancedTx invalidate_frame(1)]
  show ?thesis
  proof
    assume "untouched (db w) (db w') \<and> (\<forall>dto. r = Inr dto \<longrightarrow>
      (\<exists>w1 w2. db w1 = db w \<and> balancedTx E inp w1 = (Inr (Replayed dto), w2)))"
    then show ?thesis by (metis balancedTx_Replayed)
  next
    assume "\<exists>w1 w2 dto x. db w1 = db w \<and> pg_now w1 = pg_now w \<and> balancedTx E inp w1 = (Inr (Written dto x), w2) \<and>
      run_checks (deferred_checks (db w2)) (db w2) = Inr () \<and> db w' = (db w2)\<lparr>deferred_checks := []\<rparr> \<and>
      (r = Inr dto \<or> r = Inl (DbError ConnectionFailure))"
    then obtain w1 w2 dto x where w1: "db w1 = db w" "pg_now w1 = pg_now w"
      and t: "balancedTx E inp w1 = (Inr (Written dto x), w2)"
      and ck: "run_checks (deferred_checks (db w2)) (db w2) = Inr ()"
      and w': "db w' = (db w2)\<lparr>deferred_checks := []\<rparr>"
      and r: "r = Inr dto \<or> r = Inl (DbError ConnectionFailure)" by blast
    obtain b where b: "balanced_booking E inp (pg_now w) (db w) = Some (dto, b)"
      and x: "x = balanced_legs inp (pg_now w) (db w)"
      and w2: "db w2 = (booked b (db w))\<lparr>deferred_checks := replicate (length x) (transactions_seq (seqs (db w)))\<rparr>"
      and ad: "validateLegs (bi_Legs inp) (bi_UseExternalLeg inp) = None \<Longrightarrow>
         settles (transactions_seq (seqs (db w)))
           (posting_rows (postings_seq (seqs (db w))) (transactions_seq (seqs (db w))) (pg_now w) x) (db w) \<Longrightarrow>
         x \<noteq> [] \<Longrightarrow> admits_balanced inp (pg_now w) (db w)"
      using balancedTx_Written [OF t] w1 idle by metis
    have rows: "bk_postings b = posting_rows (postings_seq (seqs (db w))) (transactions_seq (seqs (db w))) (pg_now w) x"
      using booking_for_fields [OF b [unfolded balanced_booking_def]] by (simp add: balanced_header_def x)
    have "settles (transactions_seq (seqs (db w))) (bk_postings b) (db w)"
      by (rule settles_checks [where d = "db w2"]) (use ck w2 rows in simp_all)
    moreover have "x \<noteq> []" using legs x by (simp add: balanced_legs_def)
    ultimately have "admits_balanced inp (pg_now w) (db w)" using ad valid rows by simp
    then show ?thesis using b w' w2 r by auto
  qed
qed

lemma Reverse_outcome:
  assumes call: "Reverse E inp at w = (r, w')" and idle: "deferred_checks (db w) = []"
  shows "untouched (db w) (db w') \<and>
           (\<forall>dto. r = Inr dto \<longrightarrow> replays (ri_UserID inp) (ri_IdempotencyKey inp) (reverseHash E inp) (db w) dto)
       \<or> (\<exists>orig dto b. admits_reverse inp orig (pg_now w) (db w) \<and>
            reverse_booking E inp orig (UTC at) (pg_now w) (db w) = Some (dto, b) \<and> db w' = booked b (db w) \<and>
            (r = Inr dto \<or> r = Inl (DbError ConnectionFailure)))"
proof -
  from call have "withTx (reverseTx E inp (UTC at)) (invalidateReversed E (UTC at)) w = (r, w')"
    by (simp add: Reverse_def Let_def)
  from withTx_outcome [OF this idle later_reverseTx invalidate_frame(2)]
  show ?thesis
  proof
    assume "untouched (db w) (db w') \<and> (\<forall>dto. r = Inr dto \<longrightarrow>
      (\<exists>w1 w2. db w1 = db w \<and> reverseTx E inp (UTC at) w1 = (Inr (Replayed dto), w2)))"
    then show ?thesis by (metis reverseTx_Replayed)
  next
    assume "\<exists>w1 w2 dto x. db w1 = db w \<and> pg_now w1 = pg_now w \<and>
      reverseTx E inp (UTC at) w1 = (Inr (Written dto x), w2) \<and>
      run_checks (deferred_checks (db w2)) (db w2) = Inr () \<and> db w' = (db w2)\<lparr>deferred_checks := []\<rparr> \<and>
      (r = Inr dto \<or> r = Inl (DbError ConnectionFailure))"
    then obtain w1 w2 dto orig ops where w1: "db w1 = db w" "pg_now w1 = pg_now w"
      and t: "reverseTx E inp (UTC at) w1 = (Inr (Written dto (orig, ops)), w2)"
      and ck: "run_checks (deferred_checks (db w2)) (db w2) = Inr ()"
      and w': "db w' = (db w2)\<lparr>deferred_checks := []\<rparr>"
      and r: "r = Inr dto \<or> r = Inl (DbError ConnectionFailure)" by (metis surj_pair)
    obtain b where b: "reverse_booking E inp orig (UTC at) (pg_now w) (db w) = Some (dto, b)"
      and x: "ops = postings_of (t_id orig) (db w)"
      and w2: "db w2 = (booked b (db w))\<lparr>deferred_checks := replicate (length ops) (transactions_seq (seqs (db w)))\<rparr>"
      and ad: "settles (transactions_seq (seqs (db w)))
           (posting_rows (postings_seq (seqs (db w))) (transactions_seq (seqs (db w))) (pg_now w)
             (reverse_legs orig (db w))) (db w) \<Longrightarrow> admits_reverse inp orig (pg_now w) (db w)"
      using reverseTx_Written [OF t] w1 idle by metis
    have rows: "bk_postings b = posting_rows (postings_seq (seqs (db w))) (transactions_seq (seqs (db w))) (pg_now w)
        (reverse_legs orig (db w))"
      using booking_for_fields [OF b [unfolded reverse_booking_def]] by (simp add: reverse_header_def)
    have "settles (transactions_seq (seqs (db w))) (bk_postings b) (db w)"
      by (rule settles_checks [where d = "db w2"]) (use ck w2 rows x in \<open>simp_all add: reverse_legs_def\<close>)
    then have "admits_reverse inp orig (pg_now w) (db w)" using ad rows by simp
    then show ?thesis using b w' w2 r by auto
  qed
qed

end
