(* ===== verification/Ledger.thy ===== *)
theory Ledger
  imports Outcomes
begin

text \<open>
  The invariant of the ledger's tables, and that a legal append keeps it. The parts are those a
  double-entry ledger promises: rows are identified, references resolve within one user and one
  currency, every transaction sums to zero, a reversal negates a transaction of the same user once,
  an idempotency key stands for a committed transaction, and the outbox journals every transaction.
\<close>

section \<open>The invariant\<close>

definition ids_ok :: "database \<Rightarrow> bool" where
  "ids_ok d \<longleftrightarrow>
     distinct (map u_id (users d)) \<and> (\<forall>u\<in>set (users d). u_id u < users_seq (seqs d)) \<and>
     distinct (map a_id (accounts d)) \<and> (\<forall>a\<in>set (accounts d). a_id a < accounts_seq (seqs d)) \<and>
     distinct (map t_id (transactions d)) \<and> (\<forall>t\<in>set (transactions d). t_id t < transactions_seq (seqs d)) \<and>
     sorted_wrt (<) (map p_id (postings d)) \<and> (\<forall>p\<in>set (postings d). p_id p < postings_seq (seqs d)) \<and>
     sorted_wrt (<) (map o_id (outbox d)) \<and> (\<forall>x\<in>set (outbox d). o_id x < outbox_seq (seqs d))"

definition posting_ok :: "database \<Rightarrow> posting_row \<Rightarrow> bool" where
  "posting_ok d p \<longleftrightarrow> p_amount_minor p \<noteq> 0 \<and>
     (\<exists>t\<in>set (transactions d). t_id t = p_transaction_id p \<and>
       (\<exists>a\<in>set (accounts d). a_id a = p_account_id p \<and> a_user_id a = t_user_id t \<and>
          (a_kind a = ''external'' \<or> a_currency a = t_currency t)))"

definition refs_ok :: "database \<Rightarrow> bool" where
  "refs_ok d \<longleftrightarrow>
     (\<forall>p\<in>set (postings d). posting_ok d p) \<and>
     (\<forall>t\<in>set (transactions d). has_user (t_user_id t) d) \<and>
     (\<forall>a\<in>set (accounts d). has_user (a_user_id a) d)"

definition accounts_ok :: "database \<Rightarrow> bool" where
  "accounts_ok d \<longleftrightarrow>
     distinct (map (\<lambda>a. (a_user_id a, a_name a)) (accounts d)) \<and>
     distinct (map a_user_id (filter (\<lambda>a. a_kind a = ''external'') (accounts d)))"

definition zero_sum :: "database \<Rightarrow> bool" where
  "zero_sum d \<longleftrightarrow> (\<forall>t\<in>set (transactions d).
     posting_sum (t_id t) (postings d) = 0 \<and> (\<exists>p\<in>set (postings d). p_transaction_id p = t_id t))"

definition leg_of :: "posting_row \<Rightarrow> leg" where
  "leg_of p = \<lparr>AccountID = p_account_id p, AmountMinor = p_amount_minor p\<rparr>"

definition reverses :: "database \<Rightarrow> transaction_row \<Rightarrow> transaction_row \<Rightarrow> bool" where
  "reverses d t r \<longleftrightarrow> t_reversal_of t = Some (t_id r) \<and> t_reversal_of r = None \<and>
     t_user_id r = t_user_id t \<and> t_currency r = t_currency t \<and>
     map leg_of (postings_of (t_id t) d) = map negated (postings_of (t_id r) d)"

definition reversals_ok :: "database \<Rightarrow> bool" where
  "reversals_ok d \<longleftrightarrow>
     distinct (map t_reversal_of (filter (\<lambda>t. t_reversal_of t \<noteq> None) (transactions d))) \<and>
     (\<forall>t\<in>set (transactions d). t_reversal_of t = None \<or> (\<exists>r\<in>set (transactions d). reverses d t r))"

text \<open>A document that describes a transaction and its postings.\<close>

definition describes :: "json \<Rightarrow> transaction_row \<Rightarrow> posting_row list \<Rightarrow> bool" where
  "describes j t ps \<longleftrightarrow>
     jfield ''id'' j = Some (JNum (t_id t)) \<and> jfield ''user_id'' j = Some (JNum (t_user_id t)) \<and>
     jfield ''currency'' j = Some (JStr (t_currency t)) \<and>
     jfield ''postings'' j = Some (slice_json posting_json (map posting_view ps))"

definition key_ok :: "database \<Rightarrow> idempotency_row \<Rightarrow> bool" where
  "key_ok d k \<longleftrightarrow> k_key k \<noteq> [] \<and> k_status k = ''succeeded'' \<and>
     (case k_response_json k of None \<Rightarrow> False
      | Some j \<Rightarrow> \<exists>t\<in>set (transactions d). t_user_id t = k_user_id k \<and> describes j t (postings_of (t_id t) d))"

definition keys_ok :: "database \<Rightarrow> bool" where
  "keys_ok d \<longleftrightarrow> distinct (map (\<lambda>k. (k_user_id k, k_key k)) (idempotency_keys d)) \<and>
     (\<forall>k\<in>set (idempotency_keys d). key_ok d k)"

definition event_tx :: "outbox_row \<Rightarrow> json option" where
  "event_tx x = jfield ''transaction_id'' (o_payload x)"

definition journal_ok :: "database \<Rightarrow> bool" where
  "journal_ok d \<longleftrightarrow> map event_tx (outbox d) = map (\<lambda>t. Some (JNum (t_id t))) (transactions d)"

definition ledger_ok :: "database \<Rightarrow> bool" where
  "ledger_ok d \<longleftrightarrow> deferred_checks d = [] \<and> ids_ok d \<and> refs_ok d \<and> accounts_ok d \<and> zero_sum d \<and>
     reversals_ok d \<and> keys_ok d \<and> journal_ok d"

text \<open>The balance of an account: the exact sum of its postings.\<close>

definition account_sum :: "int \<Rightarrow> database \<Rightarrow> int" where
  "account_sum aid d = amount_sum (filter (\<lambda>p. p_account_id p = aid) (postings d))"

section \<open>Legal appends\<close>

definition reversal_fresh :: "transaction_row \<Rightarrow> leg list \<Rightarrow> database \<Rightarrow> bool" where
  "reversal_fresh h legs d \<longleftrightarrow> t_reversal_of h = None \<or>
     (\<exists>r\<in>set (transactions d). t_reversal_of h = Some (t_id r) \<and>
        t_reversal_of r = None \<and> t_user_id r = t_user_id h \<and> t_currency r = t_currency h \<and>
        (\<forall>t\<in>set (transactions d). t_reversal_of t \<noteq> Some (t_id r)) \<and>
        legs = map negated (postings_of (t_id r) d))"

definition legal :: "booking \<Rightarrow> leg list \<Rightarrow> int \<Rightarrow> database \<Rightarrow> bool" where
  "legal b legs now d \<longleftrightarrow>
     (let h = bk_header b; uid = t_user_id h; exts = bk_accounts b
      in t_id h = transactions_seq (seqs d) \<and> has_user uid d \<and>
         bk_postings b = posting_rows (postings_seq (seqs d)) (t_id h) now legs \<and>
         legs \<noteq> [] \<and> (\<Sum>l\<leftarrow>legs. sint (AmountMinor l)) = 0 \<and>
         (\<forall>l\<in>set legs. AmountMinor l \<noteq> 0 \<and>
            (\<exists>a\<in>set (accounts d @ exts). a_id a = AccountID l \<and> a_user_id a = uid \<and>
               (a_kind a = ''external'' \<or> a_currency a = t_currency h))) \<and>
         (exts = [] \<or> (\<exists>a. exts = [a] \<and> a_id a = accounts_seq (seqs d) \<and> a_user_id a = uid \<and>
            a_name a = ''External'' \<and> a_kind a = ''external'' \<and>
            (\<forall>x\<in>set (accounts d). a_user_id x = uid \<longrightarrow> a_name x \<noteq> ''External'' \<and> a_kind x \<noteq> ''external''))) \<and>
         reversal_fresh h legs d \<and>
         o_id (bk_event b) = outbox_seq (seqs d) \<and> event_tx (bk_event b) = Some (JNum (t_id h)) \<and>
         (bk_keys b = [] \<or> (\<exists>k j. bk_keys b = [k] \<and> k_user_id k = uid \<and> k_key k \<noteq> [] \<and>
            k_status k = ''succeeded'' \<and> k_response_json k = Some j \<and> describes j h (bk_postings b) \<and>
            (\<forall>x\<in>set (idempotency_keys d). \<not> (k_user_id x = uid \<and> k_key x = k_key k)))))"

section \<open>New posting rows\<close>

lemma posting_rows_set:
  "p \<in> set (posting_rows n tid now legs) \<Longrightarrow>
   p_transaction_id p = tid \<and> p_created_at p = now \<and> n \<le> p_id p \<and> p_id p < n + int (length legs) \<and>
   leg_of p \<in> set legs"
  by (induction legs arbitrary: n) (fastforce simp: leg_of_def)+

lemma map_leg_of_posting_rows [simp]: "map leg_of (posting_rows n tid now legs) = legs"
  by (induction legs arbitrary: n) (simp_all add: leg_of_def)

lemma sorted_posting_rows: "sorted_wrt (<) (map p_id (posting_rows n tid now legs))"
  by (induction legs arbitrary: n) (auto dest: posting_rows_set)

lemma filter_posting_rows:
  "filter (\<lambda>p. p_transaction_id p = t) (posting_rows n tid now legs)
   = (if t = tid then posting_rows n tid now legs else [])"
  by (induction legs arbitrary: n) auto

lemma posting_rows_Nil [simp]: "posting_rows n tid now legs = [] \<longleftrightarrow> legs = []"
  by (cases legs) auto

lemma posting_rows_sum:
  "(\<Sum>p\<leftarrow>posting_rows n tid now legs. sint (p_amount_minor p)) = (\<Sum>l\<leftarrow>legs. sint (AmountMinor l))"
  by (induction legs arbitrary: n) simp_all

lemma posting_sum_append: "posting_sum t (ps @ qs) = posting_sum t ps + posting_sum t qs"
  by (simp add: posting_sum_def)

lemma posting_sum_rows:
  "posting_sum t (posting_rows n tid now legs) = (if t = tid then \<Sum>l\<leftarrow>legs. sint (AmountMinor l) else 0)"
  by (simp add: posting_sum_def filter_posting_rows posting_rows_sum)

lemma sorted_filter_postings:
  "sorted_wrt (<) (map p_id ps) \<Longrightarrow> sort_key p_id (filter P ps) = filter P ps"
proof -
  assume "sorted_wrt (<) (map p_id ps)"
  then have "sorted (map p_id ps)" by (rule strict_sorted_imp_sorted)
  then have "sorted (map p_id (filter P ps))" by (rule sorted_filter)
  then show ?thesis by (rule sort_key_id_if_sorted)
qed

lemma postings_of_ok: "ids_ok d \<Longrightarrow> postings_of t d = filter (\<lambda>p. p_transaction_id p = t) (postings d)"
  by (simp add: postings_of_def sorted_filter_postings ids_ok_def)

section \<open>A legal append keeps the invariant\<close>

lemma booked_seqs [simp]:
  "users_seq (seqs (booked b d)) = users_seq (seqs d)"
  "accounts_seq (seqs (booked b d)) = accounts_seq (seqs d) + int (length (bk_accounts b))"
  "transactions_seq (seqs (booked b d)) = transactions_seq (seqs d) + 1"
  "postings_seq (seqs (booked b d)) = postings_seq (seqs d) + int (length (bk_postings b))"
  "outbox_seq (seqs (booked b d)) = outbox_seq (seqs d) + 1"
  by (simp_all add: booked_def)

lemma has_user_booked [simp]: "has_user u (booked b d) = has_user u d"
  by (simp add: has_user_def)

lemma legalD:
  assumes "legal b legs now d"
  shows "t_id (bk_header b) = transactions_seq (seqs d)" and "has_user (t_user_id (bk_header b)) d"
    and "bk_postings b = posting_rows (postings_seq (seqs d)) (t_id (bk_header b)) now legs"
    and "legs \<noteq> []" and "(\<Sum>l\<leftarrow>legs. sint (AmountMinor l)) = 0"
    and "o_id (bk_event b) = outbox_seq (seqs d)" and "event_tx (bk_event b) = Some (JNum (t_id (bk_header b)))"
    and "reversal_fresh (bk_header b) legs d"
  using assms by (simp_all add: legal_def Let_def)

lemma legal_exts:
  assumes "legal b legs now d"
  obtains "bk_accounts b = []"
    | a where "bk_accounts b = [a]" "a_id a = accounts_seq (seqs d)" "a_user_id a = t_user_id (bk_header b)"
      "a_name a = ''External''" "a_kind a = ''external''"
      "\<And>x. x \<in> set (accounts d) \<Longrightarrow> a_user_id x = t_user_id (bk_header b) \<Longrightarrow>
         a_name x \<noteq> ''External'' \<and> a_kind x \<noteq> ''external''"
  using assms unfolding legal_def Let_def by blast

lemma legal_keys:
  assumes "legal b legs now d"
  obtains "bk_keys b = []"
    | k j where "bk_keys b = [k]" "k_user_id k = t_user_id (bk_header b)" "k_key k \<noteq> []"
      "k_status k = ''succeeded''" "k_response_json k = Some j" "describes j (bk_header b) (bk_postings b)"
      "\<forall>x\<in>set (idempotency_keys d). \<not> (k_user_id x = t_user_id (bk_header b) \<and> k_key x = k_key k)"
  using assms unfolding legal_def Let_def by blast

lemma legal_reversal:
  assumes "legal b legs now d"
  obtains "t_reversal_of (bk_header b) = None"
    | r where "r \<in> set (transactions d)" "t_reversal_of (bk_header b) = Some (t_id r)"
      "t_reversal_of r = None" "t_user_id r = t_user_id (bk_header b)" "t_currency r = t_currency (bk_header b)"
      "\<forall>t\<in>set (transactions d). t_reversal_of t \<noteq> Some (t_id r)" "legs = map negated (postings_of (t_id r) d)"
  using that legalD(8) [OF assms] unfolding reversal_fresh_def by metis

lemma legal_leg:
  assumes "legal b legs now d" and "l \<in> set legs"
  shows "AmountMinor l \<noteq> 0"
    and "\<exists>a\<in>set (accounts d @ bk_accounts b). a_id a = AccountID l \<and> a_user_id a = t_user_id (bk_header b) \<and>
               (a_kind a = ''external'' \<or> a_currency a = t_currency (bk_header b))"
  using assms unfolding legal_def Let_def by blast+

lemma booked_ids_ok:
  assumes "legal b legs now d" and "ids_ok d"
  shows "ids_ok (booked b d)"
proof -
  note L = legalD [OF assms(1)]
  have acc: "distinct (map a_id (accounts d @ bk_accounts b)) \<and>
      (\<forall>a\<in>set (accounts d @ bk_accounts b). a_id a < accounts_seq (seqs d) + int (length (bk_accounts b)))"
    using assms(2) by (cases rule: legal_exts [OF assms(1)]) (auto simp: ids_ok_def)
  have post: "sorted_wrt (<) (map p_id (postings d @ bk_postings b)) \<and>
      (\<forall>p\<in>set (postings d @ bk_postings b). p_id p < postings_seq (seqs d) + int (length (bk_postings b)))"
    using assms(2) sorted_posting_rows
    by (fastforce simp: ids_ok_def sorted_wrt_append L(3) dest: posting_rows_set)
  have tx: "distinct (map t_id (transactions d @ [bk_header b])) \<and>
      (\<forall>t\<in>set (transactions d @ [bk_header b]). t_id t < transactions_seq (seqs d) + 1)"
    using assms(2) L(1) by (auto simp: ids_ok_def)
  have ob: "sorted_wrt (<) (map o_id (outbox d @ [bk_event b])) \<and>
      (\<forall>x\<in>set (outbox d @ [bk_event b]). o_id x < outbox_seq (seqs d) + 1)"
    using assms(2) L(6) by (auto simp: ids_ok_def sorted_wrt_append)
  show ?thesis using assms(2) acc post tx ob unfolding ids_ok_def booked_simps booked_seqs by blast
qed

lemma posting_ok_grow: "posting_ok d p \<Longrightarrow> posting_ok (booked b d) p"
  by (auto simp: posting_ok_def)

lemma booked_refs_ok:
  assumes "legal b legs now d" and "refs_ok d"
  shows "refs_ok (booked b d)"
proof -
  note L = legalD [OF assms(1)]
  have "posting_ok (booked b d) p" if "p \<in> set (bk_postings b)" for p
  proof -
    from that have p: "p_transaction_id p = t_id (bk_header b)" "leg_of p \<in> set legs"
      using posting_rows_set L(3) by auto
    from legal_leg [OF assms(1) p(2)] show ?thesis using p(1) by (auto simp: posting_ok_def leg_of_def)
  qed
  moreover have "has_user (a_user_id a) d" if "a \<in> set (bk_accounts b)" for a
    using legal_exts [OF assms(1)] that L(2) by (metis empty_iff list.set(1) set_ConsD)
  ultimately show ?thesis using assms(2) L(2) by (auto simp: refs_ok_def intro: posting_ok_grow)
qed

lemma booked_accounts_ok:
  assumes "legal b legs now d" and "accounts_ok d"
  shows "accounts_ok (booked b d)"
  using assms(2) by (cases rule: legal_exts [OF assms(1)]) (force simp: accounts_ok_def)+

lemma no_posting_yet:
  assumes "ids_ok d" "refs_ok d" "p \<in> set (postings d)"
  shows "p_transaction_id p < transactions_seq (seqs d)"
  using assms by (force simp: ids_ok_def refs_ok_def posting_ok_def)

lemma posting_sum_fresh:
  assumes "ids_ok d" "refs_ok d" "transactions_seq (seqs d) \<le> t"
  shows "posting_sum t (postings d) = 0" and "filter (\<lambda>p. p_transaction_id p = t) (postings d) = []"
proof -
  show "filter (\<lambda>p. p_transaction_id p = t) (postings d) = []"
    using no_posting_yet [OF assms(1,2)] assms(3) by (force simp: filter_empty_conv)
  then show "posting_sum t (postings d) = 0" by (simp add: posting_sum_def)
qed

lemma postings_of_booked:
  assumes "legal b legs now d" and "ids_ok d" and "refs_ok d"
  shows "postings_of t (booked b d) =
    (if t = t_id (bk_header b) then bk_postings b else postings_of t d)"
  using booked_ids_ok [OF assms(1,2)] assms(2,3) legalD [OF assms(1)]
  by (auto simp: postings_of_ok filter_posting_rows posting_sum_fresh)

lemma booked_zero_sum:
  assumes "legal b legs now d" and "ids_ok d" and "refs_ok d" and "zero_sum d"
  shows "zero_sum (booked b d)"
proof -
  note L = legalD [OF assms(1)]
  obtain p where "p \<in> set (bk_postings b)" using L(3,4) by (cases legs) auto
  then have "p_transaction_id p = t_id (bk_header b)" using posting_rows_set L(3) by auto
  with \<open>p \<in> _\<close> show ?thesis
    using assms(2-4) L by (auto simp: zero_sum_def posting_sum_append posting_sum_rows posting_sum_fresh ids_ok_def)
qed

lemma booked_reversals_ok:
  assumes "legal b legs now d" and "ids_ok d" and "refs_ok d" and "reversals_ok d"
  shows "reversals_ok (booked b d)"
proof -
  note L = legalD [OF assms(1)] and po = postings_of_booked [OF assms(1-3)]
  have old: "t_id t \<noteq> t_id (bk_header b)" if "t \<in> set (transactions d)" for t
    using that assms(2) L(1) by (auto simp: ids_ok_def)
  have keep: "reverses (booked b d) t r" if "reverses d t r" "t \<in> set (transactions d)" "r \<in> set (transactions d)" for t r
    using that old by (simp add: reverses_def po)
  have olds: "t_reversal_of t = None \<or> (\<exists>r\<in>set (transactions (booked b d)). reverses (booked b d) t r)"
    if "t \<in> set (transactions d)" for t
    using that assms(4) keep [OF _ that] unfolding reversals_ok_def booked_simps set_append by (metis UnCI)
  show ?thesis
  proof (cases rule: legal_reversal [OF assms(1)])
    case 1
    then show ?thesis using assms(4) olds by (simp add: reversals_ok_def)
  next
    case (2 r)
    have "map leg_of (postings_of (t_id (bk_header b)) (booked b d)) = map negated (postings_of (t_id r) (booked b d))"
      unfolding po using old [OF 2(1)] by (simp add: L(3) flip: 2(7))
    with 2 have "reverses (booked b d) (bk_header b) r" by (simp add: reverses_def)
    with 2(1) have "\<exists>r\<in>set (transactions (booked b d)). reverses (booked b d) (bk_header b) r" by auto
    moreover have "t_reversal_of (bk_header b) \<notin> t_reversal_of ` set (transactions d)" using 2(2,6) by auto
    ultimately show ?thesis using assms(4) olds unfolding reversals_ok_def by auto
  qed
qed

lemma booked_keys_ok:
  assumes "legal b legs now d" and "ids_ok d" and "refs_ok d" and "keys_ok d"
  shows "keys_ok (booked b d)"
proof -
  note L = legalD [OF assms(1)] and po = postings_of_booked [OF assms(1-3)]
  have old: "t_id t \<noteq> t_id (bk_header b)" if "t \<in> set (transactions d)" for t
    using that assms(2) L(1) by (auto simp: ids_ok_def)
  have keep: "key_ok (booked b d) k" if "key_ok d k" for k
    using that old unfolding key_ok_def po booked_simps by (fastforce split: option.splits)
  show ?thesis
  proof (cases rule: legal_keys [OF assms(1)])
    case 1
    then show ?thesis using assms(4) keep by (simp add: keys_ok_def)
  next
    case (2 k j)
    then have "key_ok (booked b d) k" by (simp add: key_ok_def po)
    with 2 show ?thesis using assms(4) keep by (auto simp: keys_ok_def)
  qed
qed

lemma booked_journal_ok: "legal b legs now d \<Longrightarrow> journal_ok d \<Longrightarrow> journal_ok (booked b d)"
  by (simp add: journal_ok_def legalD)

lemma booked_ledger_ok: "legal b legs now d \<Longrightarrow> ledger_ok d \<Longrightarrow> ledger_ok (booked b d)"
  by (simp add: ledger_ok_def booked_ids_ok booked_refs_ok booked_accounts_ok booked_zero_sum
      booked_reversals_ok booked_keys_ok booked_journal_ok)

section \<open>Drawn sequence values do not matter\<close>

lemma postings_of_seqs [simp]: "postings_of t (d\<lparr>seqs := s\<rparr>) = postings_of t d"
  by (simp add: postings_of_def)

lemma key_ok_seqs [simp]: "key_ok (d\<lparr>seqs := s\<rparr>) k = key_ok d k"
  by (simp add: key_ok_def split: option.split)

lemma seqs_frame:
  "refs_ok (d\<lparr>seqs := s\<rparr>) = refs_ok d" "accounts_ok (d\<lparr>seqs := s\<rparr>) = accounts_ok d"
  "zero_sum (d\<lparr>seqs := s\<rparr>) = zero_sum d" "reversals_ok (d\<lparr>seqs := s\<rparr>) = reversals_ok d"
  "keys_ok (d\<lparr>seqs := s\<rparr>) = keys_ok d" "journal_ok (d\<lparr>seqs := s\<rparr>) = journal_ok d"
  by (auto simp: posting_ok_def refs_ok_def accounts_ok_def zero_sum_def reverses_def
      reversals_ok_def keys_ok_def journal_ok_def)

lemma untouched_ledger_ok:
  assumes "untouched d d'" and "ledger_ok d"
  shows "ledger_ok d'"
proof -
  from assms(1) obtain s where d': "d' = d\<lparr>seqs := s\<rparr>" and s: "seqs_le (seqs d) s"
    by (auto simp: untouched_def)
  have "ids_ok (d\<lparr>seqs := s\<rparr>)"
    using assms(2) s by (force simp: ledger_ok_def ids_ok_def seqs_le_def)
  then show ?thesis using assms(2) unfolding d' ledger_ok_def seqs_frame by simp
qed

text \<open>Users, accounts and the marks of the outbox may change around the ledger.\<close>

lemma ledger_grow:
  assumes ok: "ledger_ok d" and "ids_ok d'" and "accounts_ok d'" and "deferred_checks d' = []"
    and same: "transactions d' = transactions d" "postings d' = postings d" "idempotency_keys d' = idempotency_keys d"
      "map event_tx (outbox d') = map event_tx (outbox d)"
    and users: "\<And>u. has_user u d \<Longrightarrow> has_user u d'"
    and kept: "\<And>a. a \<in> set (accounts d) \<Longrightarrow> \<exists>a'\<in>set (accounts d'). a_id a' = a_id a \<and> a_user_id a' = a_user_id a \<and>
      a_kind a' = a_kind a \<and> a_currency a' = a_currency a"
    and owned: "\<And>a. a \<in> set (accounts d') \<Longrightarrow> has_user (a_user_id a) d'"
  shows "ledger_ok d'"
proof -
  have po: "postings_of t d' = postings_of t d" for t by (simp add: postings_of_def same)
  have "posting_ok d' p" if "posting_ok d p" for p
    using that kept unfolding posting_ok_def same by metis
  then have "refs_ok d'" using ok users owned by (auto simp: ledger_ok_def refs_ok_def same)
  moreover have "zero_sum d'" "reversals_ok d'" using ok by (simp_all add: ledger_ok_def zero_sum_def reversals_ok_def reverses_def same po)
  moreover have "key_ok d' k = key_ok d k" for k by (simp add: key_ok_def same po split: option.split)
  then have "keys_ok d'" using ok by (simp add: ledger_ok_def keys_ok_def same)
  moreover have "journal_ok d'" using ok by (simp add: ledger_ok_def journal_ok_def same)
  ultimately show ?thesis using assms(2-4) by (simp add: ledger_ok_def)
qed

section \<open>The bookings of the service are legal\<close>

lemma event_json_tx: "event_json h occ rof ps = Some j \<Longrightarrow> jfield ''transaction_id'' j = Some (JNum (t_id h))"
  by (auto simp: event_json_def split: option.splits)

lemma dto_json_describes:
  "dto_json (header_dto E h nt i (map posting_view ps)) = Some j \<Longrightarrow> describes j h ps"
  by (auto simp: dto_json_def header_dto_def describes_def split: option.splits)

lemma settles_zero:
  assumes "settles (transactions_seq (seqs d)) (posting_rows n (transactions_seq (seqs d)) now legs) d"
    and "legs \<noteq> []" and "ids_ok d" and "refs_ok d"
  shows "(\<Sum>l\<leftarrow>legs. sint (AmountMinor l)) = 0"
  using assms(1,2) posting_sum_fresh(1) [OF assms(3,4) order_refl]
  by (auto simp: settles_def posting_sum_append posting_sum_rows)

lemma key_rows_legal:
  assumes "key_rows uid key hash now dto = Some keys" and "key_free uid key d"
  shows "keys = [] \<or> (\<exists>k j. keys = [k] \<and> k_user_id k = uid \<and> k_key k \<noteq> [] \<and> k_status k = ''succeeded'' \<and>
     k_response_json k = Some j \<and> dto_json dto = Some j \<and>
     (\<forall>x\<in>set (idempotency_keys d). \<not> (k_user_id x = uid \<and> k_key x = k_key k)))"
  using assms by (auto simp: key_rows_def key_free_def split: if_splits option.splits)

text \<open>What does not depend on where the legs come from.\<close>

lemma booking_legal:
  assumes b: "booking_for E exts h nt legs ty key hash now d = Some (dto, b)"
    and h: "t_id h = transactions_seq (seqs d)" "has_user (t_user_id h) d"
    and k: "key_free (t_user_id h) key d"
    and legs: "legs \<noteq> []" "(\<Sum>l\<leftarrow>legs. sint (AmountMinor l)) = 0"
      "\<forall>l\<in>set legs. AmountMinor l \<noteq> 0 \<and> (\<exists>a\<in>set (accounts d @ exts). a_id a = AccountID l \<and>
          a_user_id a = t_user_id h \<and> (a_kind a = ''external'' \<or> a_currency a = t_currency h))"
    and exts: "exts = [] \<or> (\<exists>a. exts = [a] \<and> a_id a = accounts_seq (seqs d) \<and> a_user_id a = t_user_id h \<and>
            a_name a = ''External'' \<and> a_kind a = ''external'' \<and>
            (\<forall>x\<in>set (accounts d). a_user_id x = t_user_id h \<longrightarrow> a_name x \<noteq> ''External'' \<and> a_kind x \<noteq> ''external''))"
    and r: "reversal_fresh h legs d"
  shows "legal b legs now d"
proof -
  note f = booking_for_fields [OF b]
  have ev: "event_tx (bk_event b) = Some (JNum (t_id h))" using event_json_tx [OF f(8)] by (simp add: event_tx_def)
  have "bk_keys b = [] \<or> (\<exists>k j. bk_keys b = [k] \<and> k_user_id k = t_user_id h \<and> k_key k \<noteq> [] \<and>
            k_status k = ''succeeded'' \<and> k_response_json k = Some j \<and> describes j h (bk_postings b) \<and>
            (\<forall>x\<in>set (idempotency_keys d). \<not> (k_user_id x = t_user_id h \<and> k_key x = k_key k)))"
    using key_rows_legal [OF f(4) k] dto_json_describes f(5) by blast
  then show ?thesis unfolding legal_def Let_def f(1,2) using f(3,6) h legs exts r ev by blast
qed

lemma leg_ok_found:
  "leg_ok uid cur accs l \<Longrightarrow> \<exists>a\<in>set accs. a_id a = AccountID l \<and> a_user_id a = uid \<and>
     (a_kind a = ''external'' \<or> a_currency a = cur)"
  by (auto simp: leg_ok_def split: option.splits dest!: find_Some_in)

lemma balanced_exts_legal:
  assumes "balanced_exts inp now d = [] \<or> (\<forall>a\<in>set (accounts d). \<not> (a_user_id a = bi_UserID inp \<and> a_name a = ''External''))"
  shows "balanced_exts inp now d = [] \<or> (\<exists>a. balanced_exts inp now d = [a] \<and> a_id a = accounts_seq (seqs d) \<and>
    a_user_id a = bi_UserID inp \<and> a_name a = ''External'' \<and> a_kind a = ''external'' \<and>
    (\<forall>x\<in>set (accounts d). a_user_id x = bi_UserID inp \<longrightarrow> a_name x \<noteq> ''External'' \<and> a_kind x \<noteq> ''external''))"
proof (cases "find (\<lambda>a. a_user_id a = bi_UserID inp \<and> a_kind a = ''external'') (accounts d)")
  case None
  with assms find_None_all [THEN iffD1, OF None] show ?thesis by (auto simp: balanced_exts_def external_for_def)
qed (simp add: balanced_exts_def external_for_def)

lemma balanced_legal:
  assumes a: "admits_balanced inp now d" and b: "balanced_booking E inp now d = Some (dto, b)"
    and ok: "ledger_ok d" and legs: "bi_Legs inp \<noteq> []"
  shows "legal b (balanced_legs inp now d) now d"
proof (rule booking_legal [OF b [unfolded balanced_booking_def]])
  have ne: "balanced_legs inp now d \<noteq> []" using legs by (simp add: balanced_legs_def)
  then show "balanced_legs inp now d \<noteq> []" .
  show "(\<Sum>l\<leftarrow>balanced_legs inp now d. sint (AmountMinor l)) = 0"
    using settles_zero [OF _ ne] a ok unfolding admits_balanced_def ledger_ok_def Let_def by blast
  show "\<forall>l\<in>set (balanced_legs inp now d). AmountMinor l \<noteq> 0 \<and>
      (\<exists>a\<in>set (accounts d @ balanced_exts inp now d). a_id a = AccountID l \<and>
         a_user_id a = t_user_id (balanced_header inp now d) \<and>
         (a_kind a = ''external'' \<or> a_currency a = t_currency (balanced_header inp now d)))"
    using a leg_ok_found unfolding admits_balanced_def Let_def balanced_header_def by fastforce
  show "balanced_exts inp now d = [] \<or> (\<exists>a. balanced_exts inp now d = [a] \<and> a_id a = accounts_seq (seqs d) \<and>
    a_user_id a = t_user_id (balanced_header inp now d) \<and> a_name a = ''External'' \<and> a_kind a = ''external'' \<and>
    (\<forall>x\<in>set (accounts d). a_user_id x = t_user_id (balanced_header inp now d) \<longrightarrow>
       a_name x \<noteq> ''External'' \<and> a_kind x \<noteq> ''external''))"
    using a balanced_exts_legal [of inp now d] unfolding admits_balanced_def Let_def balanced_header_def by auto
qed (use a in \<open>simp_all add: admits_balanced_def Let_def balanced_header_def reversal_fresh_def\<close>)

lemma posting_owner:
  assumes "ledger_ok d" and "t \<in> set (transactions d)" and "p \<in> set (postings d)" "p_transaction_id p = t_id t"
  shows "p_amount_minor p \<noteq> 0"
    and "\<exists>a\<in>set (accounts d). a_id a = p_account_id p \<and> a_user_id a = t_user_id t \<and>
          (a_kind a = ''external'' \<or> a_currency a = t_currency t)"
proof -
  have p: "posting_ok d p" and dt: "distinct (map t_id (transactions d))"
    using assms(1,3) by (simp_all add: ledger_ok_def refs_ok_def ids_ok_def)
  from p obtain t' where "t' \<in> set (transactions d)" "t_id t' = p_transaction_id p"
    "\<exists>a\<in>set (accounts d). a_id a = p_account_id p \<and> a_user_id a = t_user_id t' \<and>
          (a_kind a = ''external'' \<or> a_currency a = t_currency t')"
    unfolding posting_ok_def by blast
  moreover from this have "t' = t" using distinct_map_eqD [OF dt] assms(2,4) by metis
  ultimately show "\<exists>a\<in>set (accounts d). a_id a = p_account_id p \<and> a_user_id a = t_user_id t \<and>
          (a_kind a = ''external'' \<or> a_currency a = t_currency t)" by simp
  show "p_amount_minor p \<noteq> 0" using p by (simp add: posting_ok_def)
qed

lemma reverse_legal:
  assumes a: "admits_reverse inp orig now d" and b: "reverse_booking E inp orig at now d = Some (dto, b)"
    and ok: "ledger_ok d"
  shows "legal b (reverse_legs orig d) now d"
proof (rule booking_legal [OF b [unfolded reverse_booking_def]])
  have o: "orig \<in> set (transactions d)" "t_user_id orig = ri_UserID inp"
    using a by (auto simp: admits_reverse_def Let_def original_of_def dest: find_Some_in)
  have ne: "reverse_legs orig d \<noteq> []" using a by (simp add: admits_reverse_def Let_def)
  then show "reverse_legs orig d \<noteq> []" .
  show "(\<Sum>l\<leftarrow>reverse_legs orig d. sint (AmountMinor l)) = 0"
    using settles_zero [OF _ ne] a ok unfolding admits_reverse_def ledger_ok_def Let_def by blast
  have "\<exists>a\<in>set (accounts d). a_id a = AccountID l \<and> a_user_id a = ri_UserID inp \<and>
      (a_kind a = ''external'' \<or> a_currency a = t_currency orig)" if "l \<in> set (reverse_legs orig d)" for l
    using that posting_owner(2) [OF ok o(1)] o(2) by (force simp: reverse_legs_def postings_of_def negated_def)
  then show "\<forall>l\<in>set (reverse_legs orig d). AmountMinor l \<noteq> 0 \<and> (\<exists>a\<in>set (accounts d @ []).
      a_id a = AccountID l \<and> a_user_id a = t_user_id (reverse_header inp orig at now d) \<and>
      (a_kind a = ''external'' \<or> a_currency a = t_currency (reverse_header inp orig at now d)))"
    using a by (simp add: admits_reverse_def Let_def reverse_header_def)
  show "reversal_fresh (reverse_header inp orig at now d) (reverse_legs orig d) d"
    using a o by (auto simp: reversal_fresh_def reverse_header_def reverse_legs_def admits_reverse_def Let_def)
qed (use a in \<open>auto simp: admits_reverse_def Let_def reverse_header_def\<close>)

section \<open>The service keeps the invariant\<close>

lemma ledger_idle: "ledger_ok d \<Longrightarrow> deferred_checks d = []"
  by (simp add: ledger_ok_def)

lemma createBalanced_ledger_ok:
  assumes "ledger_ok (db w)" and "bi_Legs inp \<noteq> []"
  shows "ledger_ok (db (snd (createBalanced E inp w)))"
proof -
  obtain r w' where c: "createBalanced E inp w = (r, w')" by fastforce
  show ?thesis
    using createBalanced_outcome [OF c ledger_idle [OF assms(1)] assms(2)] assms
      untouched_ledger_ok balanced_legal booked_ledger_ok unfolding c by fastforce
qed

lemma Create_ledger_ok: "ledger_ok (db w) \<Longrightarrow> ledger_ok (db (snd (Create E inp w)))"
  by (simp add: Create_def createBalanced_ledger_ok balanced_of_create_def)

lemma Transfer_ledger_ok: "ledger_ok (db w) \<Longrightarrow> ledger_ok (db (snd (Transfer E inp w)))"
  by (simp add: Transfer_def createBalanced_ledger_ok balanced_of_transfer_def)

lemma Reverse_ledger_ok:
  assumes "ledger_ok (db w)"
  shows "ledger_ok (db (snd (Reverse E inp at w)))"
proof -
  obtain r w' where c: "Reverse E inp at w = (r, w')" by fastforce
  show ?thesis
    using Reverse_outcome [OF c ledger_idle [OF assms]] assms
      untouched_ledger_ok reverse_legal booked_ledger_ok unfolding c by fastforce
qed

end
