(* ===== verification/Progress.thy ===== *)
theory Progress
  imports Ledger
begin

text \<open>
  An admitted request is carried out: without faults, a call whose request is admitted returns its
  response and appends exactly its booking. Together with the outcomes this says that the
  admission predicates are the whole set of preconditions of the service.
\<close>

definition healthy :: "world \<Rightarrow> bool" where
  "healthy w \<longleftrightarrow> db_faults w = []"

lemma run_runs:
  assumes "healthy w"
  shows "(\<exists>w'. run q w = (Inr x, w') \<and> healthy w') \<longleftrightarrow> fst (q (pg_now w) (db w)) = Inr x"
  using assms by (simp add: healthy_def run_healthy)

lemma query_runs:
  assumes "healthy w"
  shows "(\<exists>w'. query q w = (Inr x, w') \<and> healthy w') \<longleftrightarrow> fst (q (pg_now w) (db w)) = Inr x"
  using run_runs [OF assms, of q x] by (simp add: query_Inr)

lemma claim_runs:
  assumes "healthy w" and "key_free uid key (db w)" and "has_user uid (db w)"
  shows "\<exists>w'. claimIdempotency uid key hash w = (Inr None, w') \<and> healthy w'"
proof (cases "key = []")
  case False
  then have "fst (InsertIdempotencyKey uid key hash (pg_now w) (db w)) = Inr \<lparr>k_user_id = uid, k_key = key,
      k_request_hash = hash, k_status = ''started'', k_response_json = None, k_created_at = pg_now w\<rparr>"
    using assms(2,3) by (auto simp: InsertIdempotencyKey_def key_free_def Let_def)
  then obtain w' where "run (InsertIdempotencyKey uid key hash) w = (Inr \<lparr>k_user_id = uid, k_key = key,
      k_request_hash = hash, k_status = ''started'', k_response_json = None, k_created_at = pg_now w\<rparr>, w')"
    and "healthy w'"
    unfolding run_runs [OF assms(1), symmetric] by blast
  with False show ?thesis by (simp add: claimIdempotency_def)
qed (use assms in \<open>simp add: claimIdempotency_def\<close>)

lemma external_runs:
  assumes "healthy w" and "has_user uid (db w)"
    and "fst (external_for uid cur (pg_now w) (db w)) = [] \<or> accounts_seq (seqs (db w)) \<le> MaxInt64 \<and>
         (\<forall>a\<in>set (accounts (db w)). \<not> (a_user_id a = uid \<and> a_name a = ''External''))"
  shows "\<exists>i w'. resolveExternal uid cur w = (Inr i, w') \<and> healthy w'"
proof (cases "find (\<lambda>a. a_user_id a = uid \<and> a_kind a = ''external'') (accounts (db w))")
  case (Some a)
  then have "fst (GetExternalAccount uid (pg_now w) (db w)) = Inr a"
    by (simp add: GetExternalAccount_def read_only_def)
  then obtain w' where "run (GetExternalAccount uid) w = (Inr a, w')" and "healthy w'"
    unfolding run_runs [OF assms(1), symmetric] by blast
  then show ?thesis by (simp add: resolveExternal_def)
next
  case None
  have r: "run (GetExternalAccount uid) w = (Inl NoRows, w)"
    using assms(1) None by (cases w) (simp add: healthy_def run_healthy GetExternalAccount_def read_only_def)
  have none: "\<not> (\<exists>a\<in>set (accounts (db w)). a_user_id a = uid \<and> a_kind a = ''external'')"
    using find_None_all [THEN iffD1, OF None] by blast
  have new: "accounts_seq (seqs (db w)) \<le> MaxInt64"
    "\<not> (\<exists>a\<in>set (accounts (db w)). a_user_id a = uid \<and> a_name a = ''External'')"
    using assms(3) None by (auto simp: external_for_def)
  have "\<exists>a. fst (CreateExternalAccount uid cur (pg_now w) (db w)) = Inr a"
    using assms(2) none new by (simp add: CreateExternalAccount_def insert_account_def with_serial_def Let_def)
  then obtain a w' where "query (CreateExternalAccount uid cur) w = (Inr a, w')" "healthy w'"
    using query_runs [OF assms(1), of "CreateExternalAccount uid cur"] by blast
  with r show ?thesis by (simp add: resolveExternal_def)
qed

lemma allLegs_runs:
  assumes "healthy w" and "has_user (bi_UserID inp) (db w)"
    and "balanced_exts inp (pg_now w) (db w) = [] \<or> accounts_seq (seqs (db w)) \<le> MaxInt64 \<and>
         (\<forall>a\<in>set (accounts (db w)). \<not> (a_user_id a = bi_UserID inp \<and> a_name a = ''External''))"
  shows "\<exists>legs w'. allLegs inp w = (Inr legs, w') \<and> healthy w'"
  using external_runs [OF assms(1,2), of "bi_Currency inp"] assms
  by (fastforce simp: allLegs_def balanced_exts_def)

lemma checkLegs_runs:
  assumes "healthy w" and "\<forall>l\<in>set ls. leg_ok uid cur (accounts (db w)) l"
  shows "\<exists>w'. checkLegs uid cur ls w = (Inr (), w') \<and> healthy w'"
  using assms
proof (induction ls arbitrary: w)
  case (Cons l ls)
  then obtain a where a: "find (\<lambda>a. a_id a = AccountID l) (accounts (db w)) = Some a" "a_user_id a = uid"
    "a_is_active a" "a_kind a = ''external'' \<or> a_currency a = cur"
    by (auto simp: leg_ok_def split: option.splits)
  obtain w1 where w1: "run (GetAccount (AccountID l)) w = (Inr a, w1)" "healthy w1"
    using run_runs [OF Cons.prems(1), of "GetAccount (AccountID l)" a] a
    by (auto simp: GetAccount_def read_only_def)
  moreover have "db w1 = db w" using w1(1) by (auto simp: GetAccount_def dest: run_read_only)
  ultimately show ?case using Cons.IH [of w1] Cons.prems(2) a by auto
qed simp

lemma createPostings_runs:
  assumes "healthy w" and "has_transaction tid (db w)"
    and "\<forall>l\<in>set ls. AmountMinor l \<noteq> 0 \<and> has_account (AccountID l) (db w)"
    and "postings_seq (seqs (db w)) + int (length ls) - 1 \<le> MaxInt64"
  shows "\<exists>ps w'. createPostings tid ls w = (Inr ps, w') \<and> healthy w'"
  using assms
proof (induction ls arbitrary: w)
  case (Cons l ls)
  have "\<exists>p. fst (CreatePosting tid (AccountID l) (AmountMinor l) (pg_now w) (db w)) = Inr p"
    using Cons.prems by (auto simp: CreatePosting_def with_serial_def Let_def)
  then obtain p w1 where w1: "query (CreatePosting tid (AccountID l) (AmountMinor l)) w = (Inr p, w1)" "healthy w1"
    using query_runs [OF Cons.prems(1), of "CreatePosting tid (AccountID l) (AmountMinor l)"] by blast
  then have "db w1 = (db w)\<lparr>postings := postings (db w) @ [p], deferred_checks := deferred_checks (db w) @ [tid],
      seqs := (seqs (db w))\<lparr>postings_seq := postings_seq (seqs (db w)) + 1\<rparr>\<rparr>"
    by (auto simp: query_Inr run_Some CreatePosting_Inr)
  then have "\<exists>ps w'. createPostings tid ls w1 = (Inr ps, w') \<and> healthy w'"
    using Cons.IH [OF w1(2)] Cons.prems by simp
  with w1(1) show ?case by auto
qed simp

lemma publishAndCache_runs:
  assumes "healthy w" and "ev \<noteq> None" and "key = [] \<or> dto_json dto \<noteq> None"
    and "outbox_seq (seqs (db w)) \<le> MaxInt64"
  shows "\<exists>w'. publishAndCache uid key hash ty ev dto w = (Inr (), w') \<and> healthy w'"
proof -
  obtain pl where pl: "ev = Some pl" using assms(2) by blast
  have "\<exists>x. fst (CreateOutboxEvent ty pl (pg_now w) (db w)) = Inr x"
    using assms(4) by (auto simp: CreateOutboxEvent_def with_serial_def Let_def)
  then obtain x w1 where w1: "query (CreateOutboxEvent ty pl) w = (Inr x, w1)" "healthy w1"
    using query_runs [OF assms(1), of "CreateOutboxEvent ty pl"] by blast
  have "\<exists>w'. query (MarkIdempotencySuccess uid key hash resp) w1 = (Inr (), w') \<and> healthy w'" for resp
    unfolding query_runs [OF w1(2)] by (simp add: MarkIdempotencySuccess_def)
  with w1 assms(3) pl show ?thesis by (auto simp: publishAndCache_def marshalled_def)
qed

lemma booking_for_docs:
  assumes "booking_for E exts h nt legs ty key hash now d = Some (dto, b)"
  shows "key = [] \<or> dto_json dto \<noteq> None"
  using booking_for_fields(4) [OF assms] by (cases "key = []") (auto simp: key_rows_def split: option.splits)

lemma tail_runs:
  assumes h: "healthy w4" and t: "has_transaction (t_id h) (db w4)"
    and legs: "\<forall>l\<in>set legs. AmountMinor l \<noteq> 0 \<and> has_account (AccountID l) (db w4)"
    and sq: "postings_seq (seqs (db w4)) = postings_seq (seqs d)" "outbox_seq (seqs (db w4)) = outbox_seq (seqs d)"
    and rm: "room (length legs) d"
    and b: "booking_for E exts h nt legs ty key hash (pg_now w4) d = Some (dto, b)"
  shows "\<exists>ps w5 w6. createPostings (t_id h) legs w4 = (Inr ps, w5) \<and> header_dto E h nt (reversed_id h) ps = dto \<and>
    publishAndCache (t_user_id h) key hash ty (event_json h (td_OccurredAt dto) (t_reversal_of h) ps) dto w5
      = (Inr (), w6) \<and> healthy w6"
proof -
  note F = booking_for_fields [OF b]
  have "postings_seq (seqs (db w4)) + int (length legs) - 1 \<le> MaxInt64" using rm sq by (simp add: room_def)
  then obtain ps w5 where w5: "createPostings (t_id h) legs w4 = (Inr ps, w5)" "healthy w5"
    using createPostings_runs [OF h t legs] by blast
  note cp = createPostings_Inr [OF w5(1)]
  have ps: "ps = map posting_view (bk_postings b)" using cp(1) F(3) sq by simp
  then have dto: "header_dto E h nt (reversed_id h) ps = dto" using F(5) by simp
  then have "td_Postings dto = ps" by (auto simp: header_dto_def)
  then have "event_json h (td_OccurredAt dto) (t_reversal_of h) ps \<noteq> None" using F(8) by simp
  moreover have "outbox_seq (seqs (db w5)) \<le> MaxInt64" using rm sq by (simp add: cp(2) room_def)
  ultimately show ?thesis
    using publishAndCache_runs [OF w5(2) _ booking_for_docs [OF b]] w5(1) dto by blast
qed

lemma balancedTx_runs:
  assumes h: "healthy w" and a: "admits_balanced inp (pg_now w) (db w)"
    and b: "balanced_booking E inp (pg_now w) (db w) = Some (dto, b)"
  shows "\<exists>dto' legs w'. balancedTx E inp w = (Inr (Written dto' legs), w') \<and> healthy w'"
proof -
  let ?uid = "bi_UserID inp" and ?key = "bi_IdempotencyKey inp" and ?hash = "requestHash E inp"
  let ?d = "db w" and ?now = "pg_now w"
  let ?exts = "balanced_exts inp ?now ?d"
  have A: "key_free ?uid ?key ?d" "has_user ?uid ?d" "room (length (balanced_legs inp ?now ?d)) ?d"
    "?exts = [] \<or> accounts_seq (seqs ?d) \<le> MaxInt64 \<and> (\<forall>a\<in>set (accounts ?d). \<not> (a_user_id a = ?uid \<and> a_name a = ''External''))"
    and lk: "\<forall>l\<in>set (balanced_legs inp ?now ?d). leg_ok ?uid (bi_Currency inp) (accounts ?d @ ?exts) l \<and> AmountMinor l \<noteq> 0"
    using a unfolding admits_balanced_def Let_def by blast+
  obtain w1 where w1: "claimIdempotency ?uid ?key ?hash w = (Inr None, w1)" "healthy w1"
    using claim_runs [OF h A(1,2)] by blast
  note cl = claimIdempotency_fresh [OF w1(1)]
  have n1: "pg_now w1 = ?now" using later_claimIdempotency [of w ?uid ?key ?hash] w1 by (simp add: later_pg_now)
  have same: "balanced_exts inp ?now (db w1) = ?exts" "balanced_legs inp ?now (db w1) = balanced_legs inp ?now ?d"
    by (simp_all add: cl(2) balanced_exts_def balanced_legs_def)
  obtain legs w2 where w2: "allLegs inp w1 = (Inr legs, w2)" "healthy w2"
    using allLegs_runs [OF w1(2), of inp, unfolded n1 same] A(2,4) by (auto simp: cl(2))
  note al = allLegs_Inr [OF w2(1), unfolded n1 same]
  have "\<forall>l\<in>set legs. leg_ok ?uid (bi_Currency inp) (accounts (db w2)) l" using lk unfolding al(1,2) by (simp add: cl(2))
  then obtain w3 where w3: "checkLegs ?uid (bi_Currency inp) legs w2 = (Inr (), w3)" "healthy w3"
    using checkLegs_runs [OF w2(2)] by blast
  let ?hd = "CreateTransactionHeader ?uid (bi_Currency inp) None (pg_time (bi_OccurredAt inp))
      (if bi_Note inp = [] then None else Some (bi_Note inp)) None"
  have "\<exists>h. fst (?hd (pg_now w3) (db w3)) = Inr h" using A(2,3) checkLegs_Inr [OF w3(1)]
    by (simp add: al(2) cl(2) CreateTransactionHeader_def with_serial_def room_def Let_def)
  then obtain hr w4 where w4: "query ?hd w3 = (Inr hr, w4)" "healthy w4" using query_runs [OF w3(2), of ?hd] by blast
  note op = balanced_opened [OF w1(1) w2(1) w3(1) w4(1)]
  have legs: "\<forall>l\<in>set legs. AmountMinor l \<noteq> 0 \<and> has_account (AccountID l) (db w4)"
    using lk leg_ok_found by (fastforce simp: op(1,3) opened_def has_account_def)
  have "\<exists>ps w5 w6. createPostings (t_id hr) legs w4 = (Inr ps, w5) \<and>
      header_dto E hr (bi_Note inp) (reversed_id hr) ps = dto \<and>
      publishAndCache (t_user_id hr) ?key ?hash ''TransactionCreated''
        (event_json hr (td_OccurredAt dto) (t_reversal_of hr) ps) dto w5 = (Inr (), w6) \<and> healthy w6"
    by (rule tail_runs [OF w4(2) _ legs, where d = ?d and exts = ?exts and b = b])
      (use A(3) b in \<open>simp_all add: op(1,3,4) opened_def op(2) balanced_booking_def has_transaction_def\<close>)
  then show ?thesis using w1 w2 w3 w4 by (auto simp: op(2) balancedTx_def Let_def)
qed

lemma reverseTx_original:
  assumes "reverseTx E inp at w = (Inr (Written dto (orig, ops)), w')"
  shows "original_of inp (db w) = Some orig"
proof -
  obtain w1 w2 where "claimIdempotency (ri_UserID inp) (ri_IdempotencyKey inp) (reverseHash E inp) w = (Inr None, w1)"
    and "run (GetTransactionForUser (ri_TransactionID inp) (ri_UserID inp)) w1 = (Inr orig, w2)"
    using assms by (auto simp: reverseTx_def Let_def and_then_Inr run_case_Inr split: option.splits if_splits)
  then show ?thesis
    using claimIdempotency_fresh(2) by (fastforce simp: run_Some GetTransactionForUser_def read_only_Inr
        one_row_Inr original_of_def)
qed

lemma reverseTx_runs:
  assumes h: "healthy w" and a: "admits_reverse inp orig (pg_now w) (db w)"
    and b: "reverse_booking E inp orig at (pg_now w) (db w) = Some (dto, b)"
  shows "\<exists>dto' x w'. reverseTx E inp at w = (Inr (Written dto' x), w') \<and> healthy w'"
proof -
  let ?uid = "ri_UserID inp" and ?key = "ri_IdempotencyKey inp" and ?hash = "reverseHash E inp"
  let ?d = "db w" and ?legs = "reverse_legs orig (db w)"
  have A: "original_of inp ?d = Some orig" "key_free ?uid ?key ?d" "has_user ?uid ?d" "t_reversal_of orig = None"
    "\<forall>t\<in>set (transactions ?d). t_reversal_of t \<noteq> Some (t_id orig)" "?legs \<noteq> []"
    "\<forall>l\<in>set ?legs. AmountMinor l \<noteq> 0 \<and> has_account (AccountID l) ?d" "room (length ?legs) ?d"
    using a unfolding admits_reverse_def Let_def by blast+
  obtain w1 where w1: "claimIdempotency ?uid ?key ?hash w = (Inr None, w1)" "healthy w1"
    using claim_runs [OF h A(2,3)] by blast
  note cl = claimIdempotency_fresh [OF w1(1)]
  have "fst (GetTransactionForUser (ri_TransactionID inp) ?uid (pg_now w1) (db w1)) = Inr orig"
    using A(1) by (simp add: GetTransactionForUser_def read_only_def original_of_def cl(2))
  then obtain w2 where w2: "run (GetTransactionForUser (ri_TransactionID inp) ?uid) w1 = (Inr orig, w2)" "healthy w2"
    unfolding run_runs [OF w1(2), symmetric] by blast
  have d2: "db w2 = db w1" using w2(1) by (auto simp: GetTransactionForUser_def dest: run_read_only)
  have "fst (ListPostingsByTransaction (t_id orig) (pg_now w2) (db w2)) = Inr (postings_of (t_id orig) ?d)"
    by (simp add: ListPostingsByTransaction_def read_only_def postings_of_def d2 cl(2))
  then obtain w3 where w3: "query (ListPostingsByTransaction (t_id orig)) w2 = (Inr (postings_of (t_id orig) ?d), w3)" "healthy w3"
    unfolding query_runs [OF w2(2), symmetric] by blast
  have d3: "db w3 = db w1" using w3(1) d2 by (auto simp: ListPostingsByTransaction_def query_Inr dest: run_read_only)
  let ?hd = "CreateTransactionHeader ?uid (t_currency orig) None (pg_time at) (Some (reversalNote (t_id orig))) (Some (t_id orig))"
  have "has_transaction (t_id orig) ?d" using A(1) by (auto simp: original_of_def has_transaction_def dest: find_Some_in)
  then have "\<exists>x. fst (?hd (pg_now w3) (db w3)) = Inr x" using A(3,5,8)
    by (simp add: d3 cl(2) CreateTransactionHeader_def with_serial_def room_def has_transaction_def Let_def)
  then obtain hr w4 where w4: "run ?hd w3 = (Inr hr, w4)" "healthy w4" using run_runs [OF w3(2), of ?hd] by blast
  note op = reverse_opened [OF w1(1) w2(1) w3(1) w4(1)]
  have "\<exists>ps w5 w6. createPostings (t_id hr) ?legs w4 = (Inr ps, w5) \<and>
      header_dto E hr (reversalNote (t_id orig)) (reversed_id hr) ps = dto \<and>
      publishAndCache (t_user_id hr) ?key ?hash ''TransactionReversed''
        (event_json hr (td_OccurredAt dto) (t_reversal_of hr) ps) dto w5 = (Inr (), w6) \<and> healthy w6"
    by (rule tail_runs [OF w4(2), where d = ?d and exts = "[]" and b = b])
      (use A(7,8) b in \<open>simp_all add: op(3,4) opened_def op(2) reverse_booking_def has_account_def has_transaction_def\<close>)
  then show ?thesis using w1 w2 w3 w4 A(4,6) by (auto simp: op(2) reverseTx_def Let_def reverse_legs_def)
qed

section \<open>The whole call\<close>

lemma run_checks_settled:
  "settles tid rows d0 \<Longrightarrow> postings d = postings d0 @ rows \<Longrightarrow> length rows = n \<Longrightarrow>
   run_checks (replicate n tid) d = Inr ()"
  by (cases rows) (auto simp: settles_def run_checks_ok)

lemma withTx_runs:
  assumes h: "healthy w" and idle: "deferred_checks (db w) = []"
    and s: "session w = (Inr (Written dto x), w2)" "healthy w2"
    and ck: "run_checks (deferred_checks (db w2)) (db w2) = Inr ()"
  shows "withTx session after w = (Inr dto, after x (w2\<lparr>db := (db w2)\<lparr>deferred_checks := []\<rparr>\<rparr>))"
proof -
  have "(db w)\<lparr>deferred_checks := []\<rparr> = db w" using idle by (cases "db w") simp
  then have b: "query Begin w = (Inr (), w)"
    using h by (cases w) (simp add: query_def run_healthy healthy_def Begin_def)
  have "w2\<lparr>db_faults := tl (db_faults w2)\<rparr> = w2" using s(2) by (cases w2) (simp add: healthy_def)
  then have c: "Commit w w2 = (Inr (), w2\<lparr>db := (db w2)\<lparr>deferred_checks := []\<rparr>\<rparr>)"
    using ck s(2) by (simp add: Commit_def next_fault_def healthy_def Let_def)
  show ?thesis by (simp add: withTx_def b s(1) c)
qed

lemma createBalanced_runs:
  assumes h: "healthy w" and idle: "deferred_checks (db w) = []"
    and a: "admits_balanced inp (pg_now w) (db w)"
    and b: "balanced_booking E inp (pg_now w) (db w) = Some (dto, b)"
  shows "\<exists>w'. createBalanced E inp w = (Inr dto, w') \<and> db w' = booked b (db w)"
proof -
  obtain dto' legs w2 where s: "balancedTx E inp w = (Inr (Written dto' legs), w2)" "healthy w2"
    using balancedTx_runs [OF h a b] by blast
  obtain b' where b': "balanced_booking E inp (pg_now w) (db w) = Some (dto', b')"
    and legs: "legs = balanced_legs inp (pg_now w) (db w)"
    and w2: "db w2 = (booked b' (db w))\<lparr>deferred_checks := replicate (length legs) (transactions_seq (seqs (db w)))\<rparr>"
    using balancedTx_Written [OF s(1) idle] by metis
  have eq: "dto' = dto" "b' = b" using b b' by simp_all
  note F = booking_for_fields [OF b [unfolded balanced_booking_def]]
  have st: "settles (transactions_seq (seqs (db w))) (bk_postings b) (db w)"
    using a unfolding admits_balanced_def Let_def by (simp add: F(3) balanced_header_def)
  have "run_checks (deferred_checks (db w2)) (db w2) = Inr ()"
    using run_checks_settled [OF st, of "db w2" "length legs"] by (simp add: w2 eq F(3) legs)
  from withTx_runs [where session = "balancedTx E inp", OF h idle s this]
  have "createBalanced E inp w = (Inr dto, invalidateLegs (bi_OccurredAt inp) legs (w2\<lparr>db := (db w2)\<lparr>deferred_checks := []\<rparr>\<rparr>))"
    using a by (simp add: createBalanced_def admits_balanced_def Let_def eq)
  then show ?thesis by (simp add: w2 eq)
qed

lemma Reverse_runs:
  assumes h: "healthy w" and idle: "deferred_checks (db w) = []"
    and a: "admits_reverse inp orig (pg_now w) (db w)"
    and b: "reverse_booking E inp orig (UTC at) (pg_now w) (db w) = Some (dto, b)"
  shows "\<exists>w'. Reverse E inp at w = (Inr dto, w') \<and> db w' = booked b (db w)"
proof -
  obtain dto' orig' ops w2 where s: "reverseTx E inp (UTC at) w = (Inr (Written dto' (orig', ops)), w2)" "healthy w2"
    using reverseTx_runs [OF h a b] by auto
  obtain b' where b': "reverse_booking E inp orig' (UTC at) (pg_now w) (db w) = Some (dto', b')"
    and ops: "ops = postings_of (t_id orig') (db w)"
    and w2: "db w2 = (booked b' (db w))\<lparr>deferred_checks := replicate (length ops) (transactions_seq (seqs (db w)))\<rparr>"
    and or: "original_of inp (db w) = Some orig'"
    using reverseTx_Written [OF s(1) idle] reverseTx_original [OF s(1)] by metis
  have "orig' = orig" using or a by (simp add: admits_reverse_def Let_def)
  then have eq: "orig' = orig" "dto' = dto" "b' = b" using b b' by simp_all
  note F = booking_for_fields [OF b [unfolded reverse_booking_def]]
  have st: "settles (transactions_seq (seqs (db w))) (bk_postings b) (db w)"
    using a unfolding admits_reverse_def Let_def by (simp add: F(3) reverse_header_def)
  have "run_checks (deferred_checks (db w2)) (db w2) = Inr ()"
    using run_checks_settled [OF st, of "db w2" "length ops"] by (simp add: w2 eq F(3) ops reverse_legs_def)
  from withTx_runs [where session = "reverseTx E inp (UTC at)", OF h idle s this]
  have "Reverse E inp at w = (Inr dto, invalidateReversed E (UTC at) (orig', ops) (w2\<lparr>db := (db w2)\<lparr>deferred_checks := []\<rparr>\<rparr>))"
    by (simp add: Reverse_def Let_def eq)
  then show ?thesis by (simp add: w2 eq)
qed

end
