(* ===== verification/Idempotency.thy ===== *)
theory Idempotency
  imports Progress
begin

text \<open>
  Idempotency keys: the cached response decodes to the response that was sent, a reused key is
  answered from the cache or refused, and a request repeated any number of times under any faults
  is recorded at most once.
\<close>

section \<open>The cached response round-trips\<close>

definition whole_minutes :: "env \<Rightarrow> bool" where
  "whole_minutes E \<longleftrightarrow> (\<forall>t. local_off E t mod 60 = 0)"

definition dto_ok :: "transaction_dto \<Rightarrow> bool" where
  "dto_ok t \<longleftrightarrow> dto_json t \<noteq> None \<and> zone_off (td_OccurredAt t) mod 60 = 0 \<and> zone_off (td_CreatedAt t) mod 60 = 0"

lemma time_json_roundtrip:
  assumes "time_json t = Some j" and "zone_off t mod 60 = 0"
  shows "time_of_json j = Some t"
  using assms
  by (auto simp: time_json_def time_of_json_def time_ok_def zone_ok_def split: if_splits
      intro!: time_text.dec_enc)

lemma posting_json_roundtrip: "posting_of_json (posting_json p) = Some p"
  by (simp add: posting_of_json_def posting_json_def field_or_def amount_of_json_def)

lemma postings_json_roundtrip: "postings_of_json (slice_json posting_json ps) = Some ps"
proof -
  have "those (map posting_of_json (map posting_json ps)) = Some ps"
    by (induction ps) (simp_all add: posting_json_roundtrip)
  then show ?thesis by (simp add: slice_json_def)
qed

lemma dto_json_roundtrip:
  assumes "dto_json t = Some j" and "zone_off (td_OccurredAt t) mod 60 = 0" "zone_off (td_CreatedAt t) mod 60 = 0"
  shows "dto_of_json j = Some t"
proof -
  obtain occ cre where occ: "time_json (td_OccurredAt t) = Some occ" and cre: "time_json (td_CreatedAt t) = Some cre"
    and j: "j = JObj ([(''id'', JNum (td_ID t)), (''user_id'', JNum (td_UserID t)),
            (''currency'', JStr (td_Currency t)), (''occurred_at'', occ)]
           @ (if td_Note t = [] then [] else [(''note'', JStr (td_Note t))])
           @ (if td_ReversalOf t = 0 then [] else [(''reversal_of'', JNum (td_ReversalOf t))])
           @ [(''postings'', slice_json posting_json (td_Postings t)), (''created_at'', cre)])"
    using assms(1) by (auto simp: dto_json_def split: option.splits)
  note r = time_json_roundtrip [OF occ assms(2)] time_json_roundtrip [OF cre assms(3)] postings_json_roundtrip
  show ?thesis
    unfolding j by (cases "td_Note t = []"; cases "td_ReversalOf t = 0")
      (simp_all add: dto_of_json_def field_or_def r)
qed

interpretation dto_doc: codec "\<lambda>t. the (dto_json t)" dto_of_json dto_ok
  by unfold_locales (auto simp: dto_ok_def dto_json_roundtrip)

lemma header_dto_ok: "whole_minutes E \<Longrightarrow> dto_json (header_dto E h nt i ps) \<noteq> None \<Longrightarrow> dto_ok (header_dto E h nt i ps)"
  by (simp add: dto_ok_def header_dto_def whole_minutes_def go_time_def)

section \<open>A key that is taken\<close>

definition key_row :: "int \<Rightarrow> string \<Rightarrow> database \<Rightarrow> idempotency_row option" where
  "key_row uid key d = find (\<lambda>k. k_user_id k = uid \<and> k_key k = key) (idempotency_keys d)"

definition claim_answer :: "idempotency_row \<Rightarrow> string \<Rightarrow> svc_error + transaction_dto" where
  "claim_answer r hash =
     (if k_request_hash r \<noteq> hash then Inl ErrIdempotencyConflict
      else case (if k_status r = ''succeeded'' then k_response_json r else None) of
             None \<Rightarrow> Inl ErrIdempotencyInFlight
           | Some resp \<Rightarrow> (case dto_of_json resp of None \<Rightarrow> Inl JsonError | Some dto \<Rightarrow> Inr dto))"

lemma claim_taken:
  assumes h: "healthy w" and "key \<noteq> []" and r: "key_row uid key (db w) = Some r"
  shows "claimIdempotency uid key hash w =
    (case claim_answer r hash of Inl e \<Rightarrow> (Inl e, w) | Inr dto \<Rightarrow> (Inr (Some dto), w))"
proof -
  have "r \<in> set (idempotency_keys (db w))" "k_user_id r = uid" "k_key r = key"
    using r by (auto simp: key_row_def dest: find_Some_in)
  then have "run (InsertIdempotencyKey uid key hash) w = (Inl NoRows, w)"
    using h by (cases w) (auto simp: healthy_def run_healthy InsertIdempotencyKey_def Let_def)
  moreover have "query (GetIdempotency uid key) w = (Inr r, w)"
    using h r by (cases w) (simp add: healthy_def query_def run_healthy GetIdempotency_def read_only_def key_row_def)
  ultimately show ?thesis using assms(2)
    by (auto simp: claimIdempotency_def claim_answer_def split: option.splits)
qed

lemma balancedTx_taken:
  assumes "healthy w" "bi_IdempotencyKey inp \<noteq> []" "key_row (bi_UserID inp) (bi_IdempotencyKey inp) (db w) = Some r"
  shows "balancedTx E inp w =
    (case claim_answer r (requestHash E inp) of Inl e \<Rightarrow> (Inl e, w) | Inr dto \<Rightarrow> (Inr (Replayed dto), w))"
  by (simp add: balancedTx_def Let_def claim_taken [OF assms] split: sum.split)

lemma reverseTx_taken:
  assumes "healthy w" "ri_IdempotencyKey inp \<noteq> []" "key_row (ri_UserID inp) (ri_IdempotencyKey inp) (db w) = Some r"
  shows "reverseTx E inp at w =
    (case claim_answer r (reverseHash E inp) of Inl e \<Rightarrow> (Inl e, w) | Inr dto \<Rightarrow> (Inr (Replayed dto), w))"
  by (simp add: reverseTx_def Let_def claim_taken [OF assms] split: sum.split)

lemma withTx_taken:
  assumes h: "healthy w" and idle: "deferred_checks (db w) = []"
    and s: "session w = (case a of Inl e \<Rightarrow> (Inl e, w) | Inr dto \<Rightarrow> (Inr (Replayed dto), w))"
  shows "withTx session after w = (a, w)"
proof -
  have "(db w)\<lparr>deferred_checks := []\<rparr> = db w" using idle by (cases "db w") simp
  then have b: "query Begin w = (Inr (), w)"
    using h by (cases w) (simp add: query_def run_healthy healthy_def Begin_def)
  have "rolled_back (db w) (db w) = db w" by (cases "db w") (simp add: rolled_back_def)
  then have "Rollback w w = w" by (cases w) (simp add: Rollback_def)
  then show ?thesis by (cases a) (simp_all add: withTx_def b s)
qed

lemma createBalanced_taken:
  assumes "healthy w" "deferred_checks (db w) = []" "validateLegs (bi_Legs inp) (bi_UseExternalLeg inp) = None"
    "bi_IdempotencyKey inp \<noteq> []" "key_row (bi_UserID inp) (bi_IdempotencyKey inp) (db w) = Some r"
  shows "createBalanced E inp w = (claim_answer r (requestHash E inp), w)"
  using withTx_taken [where session = "balancedTx E inp", OF assms(1,2) balancedTx_taken [OF assms(1,4,5)]] assms(3)
  by (simp add: createBalanced_def)

section \<open>Repeated requests\<close>

lemma key_row_booked:
  assumes b: "booking_for E exts h nt legs ty key hash now d = Some (dto, b)"
    and k: "key_free (t_user_id h) key d" "key \<noteq> []"
  shows "\<exists>j. dto_json dto = Some j \<and>
    key_row (t_user_id h) key (booked b d) = Some \<lparr>k_user_id = t_user_id h, k_key = key, k_request_hash = hash,
      k_status = ''succeeded'', k_response_json = Some j, k_created_at = now\<rparr>"
proof -
  note F = booking_for_fields [OF b]
  obtain j where j: "dto_json dto = Some j" using booking_for_docs [OF b] k(2) by auto
  have "find (\<lambda>x. k_user_id x = t_user_id h \<and> k_key x = key) (idempotency_keys d) = None"
    using k by (auto simp: key_free_def find_None_all)
  moreover have "bk_keys b = [\<lparr>k_user_id = t_user_id h, k_key = key, k_request_hash = hash,
      k_status = ''succeeded'', k_response_json = Some j, k_created_at = now\<rparr>]"
    using F(4) j k(2) by (simp add: key_rows_def)
  ultimately show ?thesis using j by (simp add: key_row_def find_append)
qed

lemma claim_answer_booked:
  assumes b: "booking_for E exts h nt legs ty key hash now d = Some (dto, b)"
    and k: "key_free (t_user_id h) key d" "key \<noteq> []" and m: "whole_minutes E"
    and r: "key_row (t_user_id h) key (booked b d) = Some r"
  shows "claim_answer r hash = Inr dto"
proof -
  obtain j where j: "dto_json dto = Some j" and r': "r = \<lparr>k_user_id = t_user_id h, k_key = key,
      k_request_hash = hash, k_status = ''succeeded'', k_response_json = Some j, k_created_at = now\<rparr>"
    using key_row_booked [OF b k] r by auto
  have "dto_ok dto" using header_dto_ok [OF m] booking_for_fields(5) [OF b] j by (metis option.distinct(1))
  then have "dto_of_json j = Some dto" using dto_doc.dec_enc j by force
  then show ?thesis by (simp add: claim_answer_def r')
qed

lemma replays_answer:
  assumes "replays uid key hash d dto"
  shows "\<exists>r. key_row uid key d = Some r \<and> claim_answer r hash = Inr dto"
proof -
  from assms obtain r where "key_row uid key d = Some r" "k_request_hash r = hash" "k_status r = ''succeeded''"
    "Option.bind (k_response_json r) dto_of_json = Some dto"
    by (auto simp: replays_def key_row_def split: option.splits)
  then show ?thesis by (cases "k_response_json r") (auto simp: claim_answer_def)
qed

lemma key_row_free: "key \<noteq> [] \<Longrightarrow> key_free uid key d \<longleftrightarrow> key_row uid key d = None"
  by (auto simp: key_free_def key_row_def find_None_all)

lemma untouched_frame:
  assumes "untouched d d'"
  shows "key_row uid key d' = key_row uid key d" "deferred_checks d' = deferred_checks d"
    "transactions d' = transactions d" "postings d' = postings d" "accounts d' = accounts d"
    "outbox d' = outbox d" "idempotency_keys d' = idempotency_keys d" "users d' = users d"
    "balance_snapshots d' = balance_snapshots d"
proof -
  from assms obtain s where "d' = d\<lparr>seqs := s\<rparr>" by (auto simp: untouched_def)
  then show "key_row uid key d' = key_row uid key d" "deferred_checks d' = deferred_checks d"
    "transactions d' = transactions d" "postings d' = postings d" "accounts d' = accounts d"
    "outbox d' = outbox d" "idempotency_keys d' = idempotency_keys d" "users d' = users d"
    "balance_snapshots d' = balance_snapshots d"
    by (simp_all add: key_row_def)
qed

lemma untouched_iff: "untouched d d' \<longleftrightarrow> (\<exists>s. seqs_le (seqs d) s \<and> d' = d\<lparr>seqs := s\<rparr>)"
  unfolding untouched_def by (metis database.select_convs(11) database.surjective database.update_convs(11))

lemma untouched_trans:
  assumes "untouched d d'" and "untouched d' d''"
  shows "untouched d d''"
proof -
  from assms obtain s t where "seqs_le (seqs d) s" "d' = d\<lparr>seqs := s\<rparr>" "seqs_le s t" "d'' = d\<lparr>seqs := t\<rparr>"
    by (auto simp: untouched_iff)
  then show ?thesis unfolding untouched_iff using seqs_le_trans by blast
qed

text \<open>One request sent again and again, each time at its own time and under its own faults.\<close>

fun attempts :: "env \<Rightarrow> balanced_input \<Rightarrow> (int \<times> fault list) list \<Rightarrow> world \<Rightarrow>
    (svc_error + transaction_dto) list \<times> world" where
  "attempts E inp [] w = ([], w)"
| "attempts E inp ((t, fs) # ts) w =
     (case createBalanced E inp (w\<lparr>clock := t, db_faults := fs\<rparr>) of (r, w1) \<Rightarrow>
        (case attempts E inp ts w1 of (rs, w2) \<Rightarrow> (r # rs, w2)))"

lemma attempts_taken:
  assumes "attempts E inp ts w = (rs, w')" and "deferred_checks (db w) = []" "bi_Legs inp \<noteq> []"
    "bi_IdempotencyKey inp \<noteq> []"
    "key_row (bi_UserID inp) (bi_IdempotencyKey inp) (db w) = Some k" "claim_answer k (requestHash E inp) = Inr dto"
  shows "untouched (db w) (db w') \<and> (\<forall>r\<in>set rs. isl r \<or> r = Inr dto)"
  using assms
proof (induction ts arbitrary: w rs)
  case (Cons x ts)
  obtain t fs where x: "x = (t, fs)" by fastforce
  obtain r w1 where c: "createBalanced E inp (w\<lparr>clock := t, db_faults := fs\<rparr>) = (r, w1)" by fastforce
  obtain rs1 where m: "attempts E inp ts w1 = (rs1, w')" and e: "rs = r # rs1"
    using Cons.prems(1) by (auto simp: x c split: prod.splits)
  have "\<not> admits_balanced inp now (db w)" for now
    using Cons.prems(4,5) by (simp add: admits_balanced_def Let_def key_row_free)
  then have u: "untouched (db w) (db w1)"
    and rp: "\<forall>x. r = Inr x \<longrightarrow> replays (bi_UserID inp) (bi_IdempotencyKey inp) (requestHash E inp) (db w) x"
    using createBalanced_outcome [OF c] Cons.prems(2,3) by simp_all
  have a: "isl r \<or> r = Inr dto"
  proof (cases r)
    case (Inr x)
    with rp replays_answer [of "bi_UserID inp" "bi_IdempotencyKey inp" "requestHash E inp" "db w" x]
    show ?thesis using Cons.prems(5,6) by auto
  qed simp
  note f = untouched_frame [OF u]
  have "untouched (db w1) (db w') \<and> (\<forall>r\<in>set rs1. isl r \<or> r = Inr dto)"
    using Cons.IH [OF m] Cons.prems(2-6) by (simp add: f)
  with u a e show ?case by (auto intro: untouched_trans)
qed simp

lemma attempts_once:
  assumes "attempts E inp ts w = (rs, w')" and "deferred_checks (db w) = []" "bi_Legs inp \<noteq> []"
    "bi_IdempotencyKey inp \<noteq> []" "key_free (bi_UserID inp) (bi_IdempotencyKey inp) (db w)" "whole_minutes E"
  shows "untouched (db w) (db w') \<and> (\<forall>r\<in>set rs. isl r)
     \<or> (\<exists>d now dto b. untouched (db w) d \<and> admits_balanced inp now d \<and> balanced_booking E inp now d = Some (dto, b) \<and>
          untouched (booked b d) (db w') \<and> (\<forall>r\<in>set rs. isl r \<or> r = Inr dto))"
  using assms
proof (induction ts arbitrary: w rs)
  case (Cons x ts)
  obtain t fs where x: "x = (t, fs)" by fastforce
  obtain r w1 where c: "createBalanced E inp (w\<lparr>clock := t, db_faults := fs\<rparr>) = (r, w1)" by fastforce
  obtain rs1 where m: "attempts E inp ts w1 = (rs1, w')" and e: "rs = r # rs1"
    using Cons.prems(1) by (auto simp: x c split: prod.splits)
  have free: "key_row (bi_UserID inp) (bi_IdempotencyKey inp) (db w) = None"
    using Cons.prems(4,5) by (simp add: key_row_free)
  from createBalanced_outcome [OF c] Cons.prems(2,3) consider
    (skip) "untouched (db w) (db w1)"
      "\<forall>dto. r = Inr dto \<longrightarrow> replays (bi_UserID inp) (bi_IdempotencyKey inp) (requestHash E inp) (db w) dto"
    | (wrote) dto b now where "admits_balanced inp now (db w)" "balanced_booking E inp now (db w) = Some (dto, b)"
      "db w1 = booked b (db w)" "isl r \<or> r = Inr dto" by auto
  then show ?case
  proof cases
    case skip
    then have "isl r" using replays_answer free by (cases r) fastforce+
    note f = untouched_frame [OF skip(1)]
    have "key_free (bi_UserID inp) (bi_IdempotencyKey inp) (db w1)"
      using free Cons.prems(4) by (simp add: key_row_free f)
    from Cons.IH [OF m _ Cons.prems(3,4) this Cons.prems(6)] f(2) Cons.prems(2)
    consider "untouched (db w1) (db w')" "\<forall>r\<in>set rs1. isl r"
      | d now dto b where "untouched (db w1) d" "admits_balanced inp now d" "balanced_booking E inp now d = Some (dto, b)"
        "untouched (booked b d) (db w')" "\<forall>r\<in>set rs1. isl r \<or> r = Inr dto"
      by auto
    then show ?thesis
    proof cases
      case 1
      then show ?thesis using untouched_trans [OF skip(1)] \<open>isl r\<close> e by simp
    next
      case 2
      then show ?thesis using untouched_trans [OF skip(1)] \<open>isl r\<close> e by (intro disjI2) (metis set_ConsD)
    qed
  next
    case wrote
    have hdr: "t_user_id (balanced_header inp now (db w)) = bi_UserID inp" by (simp add: balanced_header_def)
    note bk = wrote(2) [unfolded balanced_booking_def]
    obtain k where k: "key_row (bi_UserID inp) (bi_IdempotencyKey inp) (db w1) = Some k"
      using key_row_booked [OF bk, unfolded hdr, OF Cons.prems(5,4)] wrote(3) by auto
    then have "claim_answer k (requestHash E inp) = Inr dto"
      using claim_answer_booked [OF bk, unfolded hdr, OF Cons.prems(5,4,6)] wrote(3) by simp
    from attempts_taken [OF m _ Cons.prems(3,4) k this] wrote(3)
    have "untouched (db w1) (db w') \<and> (\<forall>r\<in>set rs1. isl r \<or> r = Inr dto)" by simp
    then show ?thesis using wrote e by (intro disjI2) (metis set_ConsD untouched_refl)
  qed
qed simp

end
