(* ===== verification/Sample.thy ===== *)
theory Sample
  imports Transactions
begin

text \<open>
  A small concrete system on which the theorems are applied: an environment in UTC with a digest
  that tells requests apart by their note, one user with two dollar accounts and one euro account, and the
  requests that exercise the service.
\<close>

definition sample_digest :: "json option \<Rightarrow> string" where
  "sample_digest j = (case j of None \<Rightarrow> []
     | Some v \<Rightarrow> (case (jfield ''op'' v, jfield ''note'' v) of
          (None, Some (JStr s)) \<Rightarrow> CHR ''n'' # s
        | _ \<Rightarrow> ''reverse''))"

definition sample_env :: env where
  "sample_env = \<lparr>sha256hex = sample_digest, local_off = (\<lambda>_. 0), pg_off = (\<lambda>_. 0)\<rparr>"

definition sample_account :: "int \<Rightarrow> string \<Rightarrow> string \<Rightarrow> account_row" where
  "sample_account i nm cur = \<lparr>a_id = i, a_user_id = 1, a_name = nm, a_currency = cur, a_is_active = True,
     a_kind = ''normal'', a_created_at = 0\<rparr>"

definition sample_db :: database where
  "sample_db = empty_db\<lparr>
     users := [\<lparr>u_id = 1, u_email = ''a@b'', u_password_hash = ''x'', u_created_at = 0\<rparr>],
     accounts := [sample_account 1 ''Cash'' ''USD'', sample_account 2 ''Bank'' ''USD'', sample_account 3 ''Trip'' ''EUR''],
     seqs := fresh_seqs\<lparr>users_seq := 2, accounts_seq := 4\<rparr>\<rparr>"

text \<open>Three microseconds into 1 January 1970 UTC.\<close>

definition sample_clock :: int where
  "sample_clock = 3000"

definition sample_world :: world where
  "sample_world = \<lparr>db = sample_db, clock = sample_clock, db_faults = [], cache = (\<lambda>_. None), redis_faults = []\<rparr>"

definition sample_time :: gtime where
  "sample_time = \<lparr>unix_ns = sample_clock, zone_off = 0\<rparr>"

definition sample_create :: "int64 \<Rightarrow> string \<Rightarrow> create_input" where
  "sample_create amt key = \<lparr>ci_UserID = 1, ci_AccountID = 1, ci_AmountMinor = amt, ci_Currency = ''USD'',
     ci_OccurredAt = sample_time, ci_Note = ''pay'', ci_IdempotencyKey = key\<rparr>"

definition sample_transfer :: "int64 \<Rightarrow> string \<Rightarrow> transfer_input" where
  "sample_transfer amt key = \<lparr>ti_UserID = 1, ti_FromAccountID = 1, ti_ToAccountID = 2, ti_AmountMinor = amt,
     ti_Currency = ''USD'', ti_OccurredAt = sample_time, ti_Note = [], ti_IdempotencyKey = key\<rparr>"

definition sample_reverse :: "int \<Rightarrow> string \<Rightarrow> reverse_input" where
  "sample_reverse i key = \<lparr>ri_UserID = 1, ri_TransactionID = i, ri_IdempotencyKey = key\<rparr>"

text \<open>The world after income of 500 was recorded under the key \<open>k1\<close>, and its database written out.\<close>

definition sample_world1 :: world where
  "sample_world1 = snd (Create sample_env (sample_create 500 ''k1'') sample_world)"

definition sample_postings :: json where
  "sample_postings = JArr
     [JObj [(''id'', JNum 1), (''account_id'', JNum 1), (''amount_minor'', JNum 500)],
      JObj [(''id'', JNum 2), (''account_id'', JNum 4), (''amount_minor'', JNum (- 500))]]"

definition sample_db1 :: database where
  "sample_db1 = sample_db\<lparr>
     accounts := accounts sample_db @ [\<lparr>a_id = 4, a_user_id = 1, a_name = ''External'', a_currency = ''USD'',
       a_is_active = True, a_kind = ''external'', a_created_at = 3\<rparr>],
     transactions := [\<lparr>t_id = 1, t_user_id = 1, t_currency = ''USD'', t_category_id = None, t_occurred_at = 3,
       t_note = Some ''pay'', t_reversal_of = None, t_created_at = 3\<rparr>],
     postings := [\<lparr>p_id = 1, p_transaction_id = 1, p_account_id = 1, p_amount_minor = 500, p_created_at = 3\<rparr>,
       \<lparr>p_id = 2, p_transaction_id = 1, p_account_id = 4, p_amount_minor = - 500, p_created_at = 3\<rparr>],
     idempotency_keys := [\<lparr>k_user_id = 1, k_key = ''k1'', k_request_hash = ''npay'', k_status = ''succeeded'',
       k_response_json = Some (JObj [(''id'', JNum 1), (''user_id'', JNum 1), (''currency'', JStr ''USD''),
         (''occurred_at'', JStr ''1970-01-01T00:00:00.000003Z''), (''note'', JStr ''pay''),
         (''postings'', sample_postings), (''created_at'', JStr ''1970-01-01T00:00:00.000003Z'')]),
       k_created_at = 3\<rparr>],
     outbox := [\<lparr>o_id = 1, o_event_type = ''TransactionCreated'',
       o_payload = JObj [(''currency'', JStr ''USD''), (''occurred_at'', JStr ''1970-01-01T00:00:00.000003Z''),
         (''postings'', sample_postings), (''transaction_id'', JNum 1), (''user_id'', JNum 1)],
       o_created_at = 3, o_processed_at = None\<rparr>],
     seqs := \<lparr>users_seq = 2, accounts_seq = 5, transactions_seq = 2, postings_seq = 3, snapshots_seq = 1,
       exports_seq = 1, outbox_seq = 2\<rparr>\<rparr>"

definition sample_world2 :: world where
  "sample_world2 = sample_world\<lparr>db := sample_db1\<rparr>"

end
