(* ===== verification/Effects.thy ===== *)
theory Effects
  imports Idempotency Sample
begin

text \<open>
  What the calls of the transaction service do to balances, and how they fail. The statements are
  about \<open>Create\<close>, \<open>Transfer\<close> and \<open>Reverse\<close> themselves; they follow from the outcomes, the
  invariant and the progress lemmas.
\<close>

section \<open>Balances\<close>

definition legs_on :: "int \<Rightarrow> leg list \<Rightarrow> int" where
  "legs_on aid legs = (\<Sum>l\<leftarrow>filter (\<lambda>l. AccountID l = aid) legs. sint (AmountMinor l))"

lemma amount_sum_rows:
  "amount_sum (filter (\<lambda>p. p_account_id p = aid) (posting_rows n tid now legs)) = legs_on aid legs"
  by (induction legs arbitrary: n) (simp_all add: amount_sum_def legs_on_def)

lemma account_sum_booking:
  assumes "booking_for E exts h nt legs ty key hash now d = Some (dto, b)"
  shows "account_sum aid (booked b d) = account_sum aid d + legs_on aid legs"
  using amount_sum_rows [of aid "postings_seq (seqs d)" "t_id h" now legs] booking_for_fields(3) [OF assms]
  by (simp add: account_sum_def amount_sum_def)

lemma account_sum_untouched: "untouched d d' \<Longrightarrow> account_sum aid d' = account_sum aid d"
  by (simp add: account_sum_def untouched_frame)

section \<open>Outcomes of the public calls\<close>

lemma Create_outcome:
  assumes "Create E inp w = (r, w')" and "deferred_checks (db w) = []"
  defines "bi \<equiv> balanced_of_create inp"
  shows "untouched (db w) (db w') \<and>
           (\<forall>dto. r = Inr dto \<longrightarrow> replays (bi_UserID bi) (bi_IdempotencyKey bi) (requestHash E bi) (db w) dto)
       \<or> admits_balanced bi (pg_now w) (db w) \<and>
           (\<exists>dto b. balanced_booking E bi (pg_now w) (db w) = Some (dto, b) \<and> db w' = booked b (db w) \<and>
              (r = Inr dto \<or> r = Inl (DbError ConnectionFailure)))"
proof (cases "ci_AmountMinor inp = 0")
  case True
  with assms(1) show ?thesis by (auto simp: Create_def)
next
  case False
  with assms(1) have "createBalanced E bi w = (r, w')" by (simp add: Create_def bi_def)
  then show ?thesis by (rule createBalanced_outcome) (simp_all add: assms(2) bi_def balanced_of_create_def)
qed

lemma Transfer_outcome:
  assumes "Transfer E inp w = (r, w')" and "deferred_checks (db w) = []"
  defines "bi \<equiv> balanced_of_transfer inp"
  shows "untouched (db w) (db w') \<and>
           (\<forall>dto. r = Inr dto \<longrightarrow> replays (bi_UserID bi) (bi_IdempotencyKey bi) (requestHash E bi) (db w) dto)
       \<or> admits_balanced bi (pg_now w) (db w) \<and>
           (\<exists>dto b. balanced_booking E bi (pg_now w) (db w) = Some (dto, b) \<and> db w' = booked b (db w) \<and>
              (r = Inr dto \<or> r = Inl (DbError ConnectionFailure)))"
proof (cases "sint (ti_AmountMinor inp) \<le> 0 \<or> ti_FromAccountID inp = ti_ToAccountID inp")
  case True
  with assms(1) show ?thesis by (auto simp: Transfer_def split: if_splits)
next
  case False
  with assms(1) have "createBalanced E bi w = (r, w')" by (simp add: Transfer_def bi_def)
  then show ?thesis by (rule createBalanced_outcome) (simp_all add: assms(2) bi_def balanced_of_transfer_def)
qed

lemma replays_taken: "key_free uid key d \<Longrightarrow> \<not> replays uid key hash d dto"
  by (auto simp: replays_def key_free_def split: option.splits dest!: find_Some_in)

lemma admits_sum:
  assumes "admits_balanced bi now d" and "ledger_ok d" and "bi_Legs bi \<noteq> []"
  shows "(\<Sum>l\<leftarrow>balanced_legs bi now d. sint (AmountMinor l)) = 0"
proof -
  have "balanced_legs bi now d \<noteq> []" using assms(3) by (simp add: balanced_legs_def)
  then show ?thesis using settles_zero assms(1,2) unfolding admits_balanced_def ledger_ok_def Let_def by blast
qed

lemma create_legs:
  "balanced_legs (balanced_of_create inp) now d =
    [\<lparr>AccountID = ci_AccountID inp, AmountMinor = ci_AmountMinor inp\<rparr>,
     \<lparr>AccountID = snd (external_for (ci_UserID inp) (ci_Currency inp) now d), AmountMinor = - ci_AmountMinor inp\<rparr>]"
  by (simp add: balanced_legs_def balanced_of_create_def legs_total_def)

lemma transfer_legs: "balanced_legs (balanced_of_transfer inp) now d = bi_Legs (balanced_of_transfer inp)"
  by (simp add: balanced_legs_def balanced_of_transfer_def)

lemma create_not_min:
  assumes "admits_balanced (balanced_of_create inp) now d" and "ledger_ok d"
  shows "ci_AmountMinor inp \<noteq> MinInt64"
  using admits_sum [OF assms] unfolding create_legs
  by (auto simp: balanced_of_create_def)

section \<open>The contract of the calls\<close>

text \<open>C5. \<open>Create\<close> is atomic and its effect is exact, whatever faults the database connection
  meets: either every table is as before (a success then is the replay of a cached response),
  or the request was admitted and the whole booking was appended (the caller sees its response, or
  a connection error when the acknowledgement of the commit was lost).\<close>

theorem Create_refines_append:
  assumes "Create E inp w = (r, w')" and "ledger_ok (db w)"
  defines "bi \<equiv> balanced_of_create inp"
  shows "untouched (db w) (db w') \<and>
           (\<forall>dto. r = Inr dto \<longrightarrow> replays (ci_UserID inp) (ci_IdempotencyKey inp) (requestHash E bi) (db w) dto)
       \<or> admits_balanced bi (pg_now w) (db w) \<and>
           (\<exists>dto b. balanced_booking E bi (pg_now w) (db w) = Some (dto, b) \<and> db w' = booked b (db w) \<and>
              (r = Inr dto \<or> r = Inl (DbError ConnectionFailure)))"
  using Create_outcome [OF assms(1) ledger_idle [OF assms(2)]] by (simp add: bi_def balanced_of_create_def)

text \<open>C10. An admitted \<open>Create\<close> succeeds: without faults it returns the response of its booking and
  the database afterwards is exactly the append of that booking.\<close>

theorem Create_admitted_is_booked:
  assumes "db_faults w = []" and "ledger_ok (db w)" and "ci_AmountMinor inp \<noteq> 0"
    and "admits_balanced (balanced_of_create inp) (pg_now w) (db w)"
    and "balanced_booking E (balanced_of_create inp) (pg_now w) (db w) = Some (dto, b)"
  shows "\<exists>w'. Create E inp w = (Inr dto, w') \<and> db w' = booked b (db w)"
  using createBalanced_runs [OF _ ledger_idle [OF assms(2)] assms(4,5)] assms(1,3)
  by (simp add: Create_def healthy_def)

text \<open>C11. A recorded income or expense moves its amount, exactly, from the user's external account
  to the named account and touches no other balance.\<close>

theorem Create_moves_amount:
  assumes "Create E inp w = (Inr dto, w')" and "ledger_ok (db w)"
    and "key_free (ci_UserID inp) (ci_IdempotencyKey inp) (db w)"
  defines "ext \<equiv> snd (external_for (ci_UserID inp) (ci_Currency inp) (pg_now w) (db w))"
  shows "account_sum a (db w') = account_sum a (db w)
      + (if a = ci_AccountID inp then sint (ci_AmountMinor inp) else 0)
      - (if a = ext then sint (ci_AmountMinor inp) else 0)"
proof -
  let ?bi = "balanced_of_create inp"
  obtain dto' b where a: "admits_balanced ?bi (pg_now w) (db w)"
    and b: "balanced_booking E ?bi (pg_now w) (db w) = Some (dto', b)" and w': "db w' = booked b (db w)"
    using Create_outcome [OF assms(1) ledger_idle [OF assms(2)]] replays_taken [OF assms(3)]
    by (auto simp: balanced_of_create_def)
  show ?thesis
    unfolding w' account_sum_booking [OF b [unfolded balanced_booking_def]] create_legs
    using sint_uminus [OF create_not_min [OF a assms(2)]] by (simp add: legs_on_def ext_def)
qed

text \<open>C12. A transfer moves its amount, exactly, from one account to the other and touches no other
  balance.\<close>

theorem Transfer_moves_amount:
  assumes "Transfer E inp w = (Inr dto, w')" and "ledger_ok (db w)"
    and "key_free (ti_UserID inp) (ti_IdempotencyKey inp) (db w)"
  shows "account_sum a (db w') = account_sum a (db w)
      - (if a = ti_FromAccountID inp then sint (ti_AmountMinor inp) else 0)
      + (if a = ti_ToAccountID inp then sint (ti_AmountMinor inp) else 0)"
proof -
  let ?bi = "balanced_of_transfer inp"
  obtain dto' b where b: "balanced_booking E ?bi (pg_now w) (db w) = Some (dto', b)" and w': "db w' = booked b (db w)"
    using Transfer_outcome [OF assms(1) ledger_idle [OF assms(2)]] replays_taken [OF assms(3)]
    by (auto simp: balanced_of_transfer_def)
  have "0 < sint (ti_AmountMinor inp)" using assms(1) by (auto simp: Transfer_def split: if_splits)
  then have "ti_AmountMinor inp \<noteq> MinInt64" by auto
  then show ?thesis
    unfolding w' account_sum_booking [OF b [unfolded balanced_booking_def]] transfer_legs
    using sint_uminus by (simp add: legs_on_def balanced_of_transfer_def)
qed

lemma sint_uminus_wrap: "sint (- a :: int64) = - sint a - (if a = MinInt64 then 2 ^ 64 else 0)"
  using sint_uminus [of a] by simp

lemma negated_sum:
  "(\<Sum>p\<leftarrow>ps. sint (AmountMinor (negated p))) =
     - amount_sum ps - 2 ^ 64 * int (length (filter (\<lambda>p. p_amount_minor p = MinInt64) ps))"
  by (induction ps) (simp_all add: amount_sum_def negated_def sint_uminus_wrap algebra_simps)

lemma legs_on_negated:
  assumes "\<forall>p\<in>set ps. p_amount_minor p \<noteq> MinInt64"
  shows "legs_on a (map negated ps) = - amount_sum (filter (\<lambda>p. p_account_id p = a) ps)"
  using assms by (induction ps) (simp_all add: legs_on_def amount_sum_def negated_def sint_uminus)

text \<open>An admitted reversal negates exactly: its own zero sum leaves no room for a wrapped amount.\<close>

lemma admits_reverse_exact:
  assumes a: "admits_reverse inp orig now d" and ok: "ledger_ok d"
  shows "\<forall>p\<in>set (postings_of (t_id orig) d). p_amount_minor p \<noteq> MinInt64"
proof -
  let ?ps = "postings_of (t_id orig) d"
  have o: "orig \<in> set (transactions d)" and ne: "reverse_legs orig d \<noteq> []"
    using a by (auto simp: admits_reverse_def Let_def original_of_def dest: find_Some_in)
  have "(\<Sum>l\<leftarrow>reverse_legs orig d. sint (AmountMinor l)) = 0"
    using settles_zero [OF _ ne] a ok unfolding admits_reverse_def ledger_ok_def Let_def by blast
  then have "(\<Sum>p\<leftarrow>?ps. sint (AmountMinor (negated p))) = 0" by (simp add: reverse_legs_def o_def)
  moreover have "amount_sum ?ps = 0"
    using ok o by (simp add: ledger_ok_def zero_sum_def posting_sum_def amount_sum_def postings_of_ok)
  ultimately show ?thesis using negated_sum [of ?ps] by (auto simp: filter_empty_conv)
qed

lemma reverse_sums:
  assumes "Reverse E inp at w = (Inr dto, w')" and "ledger_ok (db w)"
    and "key_free (ri_UserID inp) (ri_IdempotencyKey inp) (db w)"
  shows "account_sum a (db w') = account_sum a (db w)
    - amount_sum (filter (\<lambda>p. p_account_id p = a \<and> p_transaction_id p = ri_TransactionID inp) (postings (db w)))"
proof -
  obtain orig dto' b where a: "admits_reverse inp orig (pg_now w) (db w)"
    and b: "reverse_booking E inp orig (UTC at) (pg_now w) (db w) = Some (dto', b)" and w': "db w' = booked b (db w)"
    using Reverse_outcome [OF assms(1) ledger_idle [OF assms(2)]] replays_taken [OF assms(3)] by auto
  have "t_id orig = ri_TransactionID inp"
    using a by (auto simp: admits_reverse_def Let_def original_of_def dest: find_Some_in)
  moreover have "ids_ok (db w)" using assms(2) by (simp add: ledger_ok_def)
  ultimately show ?thesis
    unfolding w' account_sum_booking [OF b [unfolded reverse_booking_def]]
    using legs_on_negated [OF admits_reverse_exact [OF a assms(2)]]
    by (simp add: reverse_legs_def postings_of_ok conj_commute)
qed

text \<open>C13. A reversal takes back, exactly, what the original transaction put on each account.\<close>

theorem Reverse_takes_back:
  assumes "Reverse E inp at w = (Inr dto, w')" and "ledger_ok (db w)"
    and "key_free (ri_UserID inp) (ri_IdempotencyKey inp) (db w)"
  shows "account_sum a (db w') = account_sum a (db w)
    - amount_sum (filter (\<lambda>p. p_account_id p = a \<and> p_transaction_id p = ri_TransactionID inp) (postings (db w)))"
  using reverse_sums [OF assms] .

text \<open>C14. Recording a transaction and reversing it restores every balance, for any account and
  whatever happened to the clock in between.\<close>

theorem Create_Reverse_restores:
  assumes "Create E inp w = (Inr dto, w1)" and "ledger_ok (db w)"
    and "key_free (ci_UserID inp) (ci_IdempotencyKey inp) (db w)"
    and "db w2 = db w1" and "Reverse E rinp at w2 = (Inr dto2, w3)" and "ri_TransactionID rinp = td_ID dto"
    and "key_free (ri_UserID rinp) (ri_IdempotencyKey rinp) (db w2)"
  shows "account_sum a (db w3) = account_sum a (db w)"
proof -
  let ?bi = "balanced_of_create inp"
  obtain b where ad: "admits_balanced ?bi (pg_now w) (db w)"
    and b: "balanced_booking E ?bi (pg_now w) (db w) = Some (dto, b)" and w1: "db w1 = booked b (db w)"
    using Create_outcome [OF assms(1) ledger_idle [OF assms(2)]] replays_taken [OF assms(3)]
    by (auto simp: balanced_of_create_def)
  note F = booking_for_fields [OF b [unfolded balanced_booking_def]]
  have ok1: "ledger_ok (db w1)" using Create_ledger_ok [OF assms(2), of E inp] assms(1) by simp
  have id: "td_ID dto = transactions_seq (seqs (db w))" using F(5) by (simp add: header_dto_def balanced_header_def)
  have fresh: "filter (\<lambda>p. p_account_id p = a \<and> p_transaction_id p = transactions_seq (seqs (db w))) (postings (db w)) = []"
    using posting_sum_fresh(2) [of "db w"] assms(2) by (fastforce simp: ledger_ok_def filter_empty_conv)
  have "filter (\<lambda>p. p_account_id p = a \<and> p_transaction_id p = td_ID dto) (postings (db w1))
     = filter (\<lambda>p. p_account_id p = a) (bk_postings b)"
    using fresh posting_rows_set unfolding w1 id booked_simps filter_append F(3)
    by (auto simp: balanced_header_def intro!: filter_cong)
  moreover have "account_sum a (db w1) = account_sum a (db w) + amount_sum (filter (\<lambda>p. p_account_id p = a) (bk_postings b))"
    by (simp add: account_sum_def amount_sum_def w1)
  ultimately show ?thesis
    using reverse_sums [OF assms(5) _ assms(7), of a] assms(4,6) ok1 by simp
qed

section \<open>Refusals\<close>

text \<open>C19. The one amount whose negation wraps is never recorded: \<open>Create\<close> of the least \<open>int64\<close>
  passes the service's own checks, but the deferred constraint refuses the commit, so every
  table stays as it was and the caller gets an error.\<close>

theorem Create_MinInt64_refused:
  assumes "Create E inp w = (r, w')" and "ledger_ok (db w)" and "ci_AmountMinor inp = MinInt64"
    and "key_free (ci_UserID inp) (ci_IdempotencyKey inp) (db w)"
  shows "untouched (db w) (db w') \<and> isl r"
proof -
  have "\<not> admits_balanced (balanced_of_create inp) (pg_now w) (db w)"
    using create_not_min assms(2,3) by blast
  then show ?thesis
    using Create_outcome [OF assms(1) ledger_idle [OF assms(2)]] replays_taken [OF assms(4)]
    by (cases r) (auto simp: balanced_of_create_def)
qed

text \<open>The first error of the checks on the legs, in the order of the legs.\<close>

definition leg_error :: "int \<Rightarrow> string \<Rightarrow> account_row list \<Rightarrow> leg \<Rightarrow> svc_error option" where
  "leg_error uid cur accs l =
     (case find (\<lambda>a. a_id a = AccountID l) accs of
        None \<Rightarrow> Some ErrAccountNotFound
      | Some a \<Rightarrow> if a_user_id a \<noteq> uid then Some ErrForbidden
          else if \<not> a_is_active a then Some ErrAccountInactive
          else if a_kind a \<noteq> ''external'' \<and> a_currency a \<noteq> cur then Some ErrCurrencyMismatch
          else None)"

fun legs_error :: "int \<Rightarrow> string \<Rightarrow> account_row list \<Rightarrow> leg list \<Rightarrow> svc_error option" where
  "legs_error uid cur accs [] = None"
| "legs_error uid cur accs (l # ls) =
     (case leg_error uid cur accs l of Some e \<Rightarrow> Some e | None \<Rightarrow> legs_error uid cur accs ls)"

lemma run_GetAccount:
  "healthy w \<Longrightarrow> run (GetAccount i) w =
     ((case find (\<lambda>a. a_id a = i) (accounts (db w)) of None \<Rightarrow> Inl NoRows | Some a \<Rightarrow> Inr a), w)"
  by (cases w) (simp add: healthy_def run_healthy GetAccount_def read_only_def one_row_def)

lemma checkLegs_healthy:
  "healthy w \<Longrightarrow> checkLegs uid cur ls w =
     (case legs_error uid cur (accounts (db w)) ls of None \<Rightarrow> (Inr (), w) | Some e \<Rightarrow> (Inl e, w))"
  by (induction ls) (auto simp: run_GetAccount leg_error_def split: option.split)

lemma withTx_fails:
  assumes "healthy w" and "deferred_checks (db w) = []" and "fst (session w) = Inl e"
  shows "fst (withTx session after w) = Inl e"
proof -
  have "(db w)\<lparr>deferred_checks := []\<rparr> = db w" using assms(2) by (cases "db w") simp
  then have "query Begin w = (Inr (), w)"
    using assms(1) by (cases w) (simp add: query_def run_healthy healthy_def Begin_def)
  then show ?thesis using assms(3) by (cases "session w") (simp add: withTx_def)
qed

text \<open>C20. Without faults, a transfer that names a missing account, an account of someone else, an
  inactive account or an account in another currency is refused with exactly that error, the first
  one in the order from source to destination.\<close>

theorem Transfer_refuses_legs:
  assumes "db_faults w = []" and "ledger_ok (db w)" and "0 < sint (ti_AmountMinor inp)"
    and "ti_FromAccountID inp \<noteq> ti_ToAccountID inp"
    and "key_free (ti_UserID inp) (ti_IdempotencyKey inp) (db w)" and "has_user (ti_UserID inp) (db w)"
    and "legs_error (ti_UserID inp) (ti_Currency inp) (accounts (db w)) (bi_Legs (balanced_of_transfer inp)) = Some e"
  shows "fst (Transfer E inp w) = Inl e"
proof -
  let ?bi = "balanced_of_transfer inp"
  have h: "healthy w" by (simp add: healthy_def assms(1))
  obtain w1 where w1: "claimIdempotency (ti_UserID inp) (ti_IdempotencyKey inp) (requestHash E ?bi) w = (Inr None, w1)"
    "healthy w1" using claim_runs [OF h assms(5,6)] by blast
  have f: "bi_UserID ?bi = ti_UserID inp" "bi_IdempotencyKey ?bi = ti_IdempotencyKey inp"
    "bi_UseExternalLeg ?bi = False" "bi_Currency ?bi = ti_Currency inp"
    by (simp_all add: balanced_of_transfer_def)
  have "accounts (db w1) = accounts (db w)" using claimIdempotency_fresh(2) [OF w1(1)] by simp
  then have "checkLegs (ti_UserID inp) (ti_Currency inp) (bi_Legs ?bi) w1 = (Inl e, w1)"
    using checkLegs_healthy [OF w1(2)] assms(7) by simp
  then have "fst (balancedTx E ?bi w) = Inl e" using w1(1) by (simp add: balancedTx_def allLegs_def f Let_def)
  then have "fst (withTx (balancedTx E ?bi) (invalidateLegs (bi_OccurredAt ?bi)) w) = Inl e"
    using withTx_fails [OF h ledger_idle [OF assms(2)]] by blast
  moreover have "validateLegs (bi_Legs ?bi) (bi_UseExternalLeg ?bi) = None"
    using assms(3) by (auto simp: validateLegs_def balanced_of_transfer_def)
  ultimately show ?thesis using assms(3,4) by (simp add: Transfer_def createBalanced_def)
qed

text \<open>C21. Without faults, a reversal is refused with exactly the right error: a transaction that does
  not exist or belongs to someone else is not found, a reversal cannot be reversed, and a
  transaction that has been reversed cannot be reversed again.\<close>

theorem Reverse_refuses:
  assumes "db_faults w = []" and "ledger_ok (db w)"
    and "key_free (ri_UserID inp) (ri_IdempotencyKey inp) (db w)" and "has_user (ri_UserID inp) (db w)"
    and "transactions_seq (seqs (db w)) \<le> MaxInt64"
  shows "case original_of inp (db w) of
      None \<Rightarrow> fst (Reverse E inp at w) = Inl ErrTxNotFound
    | Some orig \<Rightarrow>
        (t_reversal_of orig \<noteq> None \<longrightarrow> fst (Reverse E inp at w) = Inl ErrIsReversal) \<and>
        (t_reversal_of orig = None \<longrightarrow> (\<exists>t\<in>set (transactions (db w)). t_reversal_of t = Some (t_id orig)) \<longrightarrow>
           fst (Reverse E inp at w) = Inl ErrAlreadyReversed)"
proof -
  let ?uid = "ri_UserID inp" and ?d = "db w"
  have h: "healthy w" by (simp add: healthy_def assms(1))
  note fails = withTx_fails [OF h ledger_idle [OF assms(2)],
      of "reverseTx E inp (UTC at)" _ "invalidateReversed E (UTC at)", folded Reverse_def [unfolded Let_def]]
  obtain w1 where w1: "claimIdempotency ?uid (ri_IdempotencyKey inp) (reverseHash E inp) w = (Inr None, w1)" "healthy w1"
    using claim_runs [OF h assms(3,4)] by blast
  note cl = claimIdempotency_fresh(2) [OF w1(1)]
  have g: "run (GetTransactionForUser (ri_TransactionID inp) ?uid) w1 =
      ((case original_of inp ?d of None \<Rightarrow> Inl NoRows | Some t \<Rightarrow> Inr t), w1)"
    using w1(2) cl by (cases w1) (simp add: healthy_def run_healthy GetTransactionForUser_def read_only_def
        one_row_def original_of_def)
  show ?thesis
  proof (cases "original_of inp ?d")
    case None
    then show ?thesis using w1 g fails by (simp add: reverseTx_def Let_def Reverse_def)
  next
    case (Some orig)
    have "fst (reverseTx E inp (UTC at) w) = Inl ErrIsReversal" if "t_reversal_of orig \<noteq> None"
      using that w1 g Some by (auto simp: reverseTx_def Let_def)
    moreover have "fst (reverseTx E inp (UTC at) w) = Inl ErrAlreadyReversed"
      if n: "t_reversal_of orig = None" and r: "\<exists>t\<in>set (transactions ?d). t_reversal_of t = Some (t_id orig)"
    proof -
      have l: "query (ListPostingsByTransaction (t_id orig)) w1 = (Inr (postings_of (t_id orig) ?d), w1)"
        using w1(2) cl by (cases w1) (simp add: healthy_def query_def run_healthy ListPostingsByTransaction_def
            read_only_def postings_of_def)
      have "orig \<in> set (transactions ?d)" using Some by (auto simp: original_of_def dest: find_Some_in)
      then have ne: "postings_of (t_id orig) ?d \<noteq> []"
        using assms(2) by (auto simp: ledger_ok_def zero_sum_def postings_of_ok filter_empty_conv)
      have "fst (run (CreateTransactionHeader ?uid (t_currency orig) None (pg_time (UTC at))
          (Some (reversalNote (t_id orig))) (Some (t_id orig))) w1) = Inl UniqueViolation"
        using w1(2) cl r assms(5)
        by (auto simp: healthy_def run_healthy CreateTransactionHeader_def with_serial_def Let_def)
      then show ?thesis using w1 g Some n l ne
        by (auto simp: reverseTx_def Let_def isUniqueViolation_def split: prod.splits)
    qed
    ultimately show ?thesis using Some fails by (auto simp: Reverse_def)
  qed
qed

section \<open>Idempotency\<close>

text \<open>C4. A request with an idempotency key is recorded at most once, however often it is sent and
  whatever faults each attempt meets (a commit whose acknowledgement is lost included): either no
  attempt wrote anything and all failed, or exactly one booking was appended and every attempt
  that succeeded returned that booking's response. The server's zone is taken to have offsets of
  whole minutes, which is what the RFC 3339 text of the cached response can represent.\<close>

theorem createBalanced_exactly_once:
  assumes "attempts E inp ts w = (rs, w')" and "ledger_ok (db w)" and "bi_Legs inp \<noteq> []"
    and "bi_IdempotencyKey inp \<noteq> []" and "key_free (bi_UserID inp) (bi_IdempotencyKey inp) (db w)"
    and "whole_minutes E"
  shows "untouched (db w) (db w') \<and> (\<forall>r\<in>set rs. isl r)
     \<or> (\<exists>d now dto b. untouched (db w) d \<and> admits_balanced inp now d \<and> balanced_booking E inp now d = Some (dto, b) \<and>
          untouched (booked b d) (db w') \<and> (\<forall>r\<in>set rs. isl r \<or> r = Inr dto))"
  using attempts_once [OF assms(1) ledger_idle [OF assms(2)] assms(3-6)] .

lemma taken_validates:
  "ci_AmountMinor inp \<noteq> 0 \<Longrightarrow> validateLegs (bi_Legs (balanced_of_create inp)) (bi_UseExternalLeg (balanced_of_create inp)) = None"
  by (simp add: validateLegs_def balanced_of_create_def)

text \<open>A request with a key that succeeded, once or as a replay, has left the row that answers it; a row that is there
  answers every later request with its key.\<close>

lemma Create_answered:
  assumes c: "Create E inp w = (Inr dto, w1)" and ok: "ledger_ok (db w)" and key: "ci_IdempotencyKey inp \<noteq> []"
    and m: "whole_minutes E"
  shows "\<exists>k\<in>set (idempotency_keys (db w1)). k_user_id k = ci_UserID inp \<and> k_key k = ci_IdempotencyKey inp \<and>
    claim_answer k (requestHash E (balanced_of_create inp)) = Inr dto"
proof -
  let ?bi = "balanced_of_create inp"
  have f: "bi_UserID ?bi = ci_UserID inp" "bi_IdempotencyKey ?bi = ci_IdempotencyKey inp"
    "t_user_id (balanced_header ?bi now d) = ci_UserID inp" for now d
    by (simp_all add: balanced_of_create_def balanced_header_def)
  note o = Create_outcome [OF c ledger_idle [OF ok], unfolded f(1,2)]
  consider
      (replay) "untouched (db w) (db w1)" "replays (ci_UserID inp) (ci_IdempotencyKey inp) (requestHash E ?bi) (db w) dto"
    | (fresh) b where "admits_balanced ?bi (pg_now w) (db w)" "balanced_booking E ?bi (pg_now w) (db w) = Some (dto, b)"
        "db w1 = booked b (db w)"
    using o by (elim disjE exE conjE) blast+
  then have "\<exists>k. key_row (ci_UserID inp) (ci_IdempotencyKey inp) (db w1) = Some k \<and> claim_answer k (requestHash E ?bi) = Inr dto"
  proof cases
    case replay
    from replays_answer [OF replay(2)] show ?thesis unfolding untouched_frame(1) [OF replay(1)] .
  next
    case fresh
    have free: "key_free (ci_UserID inp) (ci_IdempotencyKey inp) (db w)"
      using fresh(1) by (simp add: admits_balanced_def Let_def f)
    note bk = fresh(2) [unfolded balanced_booking_def f(2)]
    obtain k where "key_row (ci_UserID inp) (ci_IdempotencyKey inp) (db w1) = Some k"
      using key_row_booked [OF bk, unfolded f, OF free key] fresh(3) by auto
    then show ?thesis using claim_answer_booked [OF bk, unfolded f, OF free key m] fresh(3) by simp
  qed
  then show ?thesis by (fastforce simp: key_row_def dest: find_Some_in)
qed

lemma Create_taken:
  assumes "db_faults w = []" and "ledger_ok (db w)" and "ci_AmountMinor inp \<noteq> 0"
    and k: "k \<in> set (idempotency_keys (db w))" "k_user_id k = ci_UserID inp" "k_key k = ci_IdempotencyKey inp"
  shows "Create E inp w = (claim_answer k (requestHash E (balanced_of_create inp)), w)"
proof -
  let ?bi = "balanced_of_create inp"
  have ok: "distinct (map (\<lambda>k. (k_user_id k, k_key k)) (idempotency_keys (db w)))" "key_ok (db w) k"
    using assms(2) k(1) by (auto simp: ledger_ok_def keys_ok_def)
  have f: "bi_UserID ?bi = ci_UserID inp" "bi_IdempotencyKey ?bi = ci_IdempotencyKey inp"
    by (simp_all add: balanced_of_create_def)
  have row: "key_row (ci_UserID inp) (ci_IdempotencyKey inp) (db w) = Some k"
    unfolding key_row_def
  proof (rule find_unique [OF k(1)])
    fix y assume "y \<in> set (idempotency_keys (db w))" "k_user_id y = ci_UserID inp \<and> k_key y = ci_IdempotencyKey inp"
    then show "y = k" using distinct_map_eqD [OF ok(1) _ k(1)] k(2,3) by simp
  qed (simp add: k(2,3))
  have "ci_IdempotencyKey inp \<noteq> []" using ok(2) k(3) by (auto simp: key_ok_def)
  then show ?thesis
    using createBalanced_taken [of w ?bi k E] assms(1,3) ledger_idle [OF assms(2)] row f taken_validates
    by (simp add: healthy_def Create_def)
qed

text \<open>C18. A key is answered as it was the first time. Once a \<open>Create\<close> with an idempotency key has succeeded, then in any later
  consistent state that still has the stored keys, and without database faults, every request of the same user with the same key and a
  non-zero amount leaves the whole state as it is: when its request hash is the first one's, it is answered with the response that the
  first request got, otherwise with a conflict. Zone offsets of the server are whole minutes, as for the cached response above.\<close>

theorem Create_key_reuse:
  assumes "Create E inp w = (Inr dto, w1)" and "ledger_ok (db w)" and "ci_IdempotencyKey inp \<noteq> []" and "whole_minutes E"
    and "set (idempotency_keys (db w1)) \<subseteq> set (idempotency_keys (db w2))" and "ledger_ok (db w2)" and "db_faults w2 = []"
    and "ci_UserID inp2 = ci_UserID inp" and "ci_IdempotencyKey inp2 = ci_IdempotencyKey inp" and "ci_AmountMinor inp2 \<noteq> 0"
  shows "Create E inp2 w2 =
     (if requestHash E (balanced_of_create inp2) = requestHash E (balanced_of_create inp) then Inr dto
      else Inl ErrIdempotencyConflict, w2)"
proof -
  obtain k where k: "k \<in> set (idempotency_keys (db w1))" "k_user_id k = ci_UserID inp" "k_key k = ci_IdempotencyKey inp"
    and a: "claim_answer k (requestHash E (balanced_of_create inp)) = Inr dto"
    using Create_answered [OF assms(1-4)] by blast
  have "Create E inp2 w2 = (claim_answer k (requestHash E (balanced_of_create inp2)), w2)"
    using Create_taken [OF assms(7,6,10)] k assms(5,8,9) by auto
  then show ?thesis using a by (auto simp: claim_answer_def split: if_splits option.splits)
qed

text \<open>C22. The comparison of requests does not depend on the client's time zone: two requests that
  differ only in the zone of the same instant have the same hash.\<close>

theorem requestHash_zone_independent:
  assumes "unix_ns (bi_OccurredAt inp) = unix_ns t"
  shows "requestHash E (inp\<lparr>bi_OccurredAt := t\<rparr>) = requestHash E inp"
proof -
  have "UTC t = UTC (bi_OccurredAt inp)" using assms by (simp add: UTC_def)
  then show ?thesis by (simp add: requestHash_def cong: option.case_cong)
qed

section \<open>The theorems on the sample system\<close>

definition sample_dto :: transaction_dto where
  "sample_dto = \<lparr>td_ID = 1, td_UserID = 1, td_Currency = ''USD'', td_OccurredAt = sample_time, td_Note = ''pay'',
     td_ReversalOf = 0,
     td_Postings = [\<lparr>pd_ID = 1, pd_AccountID = 1, pd_AmountMinor = 500\<rparr>,
                    \<lparr>pd_ID = 2, pd_AccountID = 4, pd_AmountMinor = - 500\<rparr>],
     td_CreatedAt = sample_time\<rparr>"

definition sample_booking :: booking where
  "sample_booking = snd (the (balanced_booking sample_env (balanced_of_create (sample_create 500 ''k1''))
     (pg_now sample_world) (db sample_world)))"

lemma sample_ok: "ledger_ok (db sample_world)"
  by code_simp

lemma sample_admits: "admits_balanced (balanced_of_create (sample_create 500 ''k1'')) (pg_now sample_world) (db sample_world)"
  by code_simp

lemma sample_booked: "balanced_booking sample_env (balanced_of_create (sample_create 500 ''k1''))
    (pg_now sample_world) (db sample_world) = Some (sample_dto, sample_booking)"
proof -
  have "map_option fst (balanced_booking sample_env (balanced_of_create (sample_create 500 ''k1''))
    (pg_now sample_world) (db sample_world)) = Some sample_dto" by code_simp
  then show ?thesis by (auto simp: sample_booking_def)
qed

lemma sample_healthy: "db_faults sample_world = []"
  by (simp add: sample_world_def)

lemma sample_created:
  "Create sample_env (sample_create 500 ''k1'') sample_world = (Inr sample_dto, sample_world1)"
  "db sample_world1 = booked sample_booking (db sample_world)"
proof -
  obtain w' where "createBalanced sample_env (balanced_of_create (sample_create 500 ''k1'')) sample_world = (Inr sample_dto, w')"
    and "db w' = booked sample_booking (db sample_world)"
    using createBalanced_runs [OF _ ledger_idle [OF sample_ok] sample_admits sample_booked]
    by (auto simp: healthy_def sample_healthy)
  then show "Create sample_env (sample_create 500 ''k1'') sample_world = (Inr sample_dto, sample_world1)"
    "db sample_world1 = booked sample_booking (db sample_world)"
    by (simp_all add: sample_world1_def Create_def sample_create_def)
qed

lemma sample_key_free: "key_free 1 key (db sample_world)"
  by (simp add: key_free_def sample_world_def sample_db_def empty_db_def)

theorem Create_refines_append_witness:
  "untouched (db sample_world) (db sample_world1) \<and>
     (\<forall>dto. Inr sample_dto = (Inr dto :: svc_error + _) \<longrightarrow>
        replays 1 ''k1'' (requestHash sample_env (balanced_of_create (sample_create 500 ''k1''))) (db sample_world) dto)
   \<or> admits_balanced (balanced_of_create (sample_create 500 ''k1'')) (pg_now sample_world) (db sample_world) \<and>
     (\<exists>dto b. balanced_booking sample_env (balanced_of_create (sample_create 500 ''k1'')) (pg_now sample_world)
         (db sample_world) = Some (dto, b) \<and> db sample_world1 = booked b (db sample_world) \<and>
        (Inr sample_dto = (Inr dto :: svc_error + _) \<or> Inr sample_dto = Inl (DbError ConnectionFailure)))"
  using Create_refines_append [OF sample_created(1) sample_ok] by (simp add: sample_create_def)

theorem Create_admitted_is_booked_witness:
  "\<exists>w'. Create sample_env (sample_create 500 ''k1'') sample_world = (Inr sample_dto, w') \<and>
     db w' = booked sample_booking (db sample_world)"
  by (rule Create_admitted_is_booked [OF sample_healthy sample_ok _ sample_admits sample_booked])
    (simp add: sample_create_def)

lemma sample_key1_free: "key_free (ci_UserID (sample_create 500 ''k1'')) (ci_IdempotencyKey (sample_create 500 ''k1'')) (db sample_world)"
  by (simp add: sample_create_def sample_key_free)

theorem Create_moves_amount_witness: "account_sum 1 (db sample_world1) = 500"
proof -
  have "account_sum 1 (db sample_world) = 0" by code_simp
  moreover have "snd (external_for 1 ''USD'' (pg_now sample_world) (db sample_world)) = 4" by code_simp
  ultimately show ?thesis
    using Create_moves_amount [OF sample_created(1) sample_ok sample_key1_free, of 1]
    by (simp add: sample_create_def)
qed

lemma sample_db1: "db sample_world1 = sample_db1"
  by code_simp

lemma sample_ok2: "ledger_ok (db sample_world2)"
  by code_simp

lemma sample_healthy2: "db_faults sample_world2 = []"
  by (simp add: sample_world2_def sample_world_def)

lemma sample_key2_free: "key_free 1 ''k2'' (db sample_world2)"
  by (simp add: key_free_def sample_world2_def sample_db1_def)

definition sample_transferred :: "(svc_error + transaction_dto) \<times> world" where
  "sample_transferred = Transfer sample_env (sample_transfer 200 ''k2'') sample_world2"

lemma sample_transferred_ok: "\<exists>dto. fst sample_transferred = Inr dto"
proof -
  have "\<not> isl (fst sample_transferred)" by code_simp
  then show ?thesis by (cases "fst sample_transferred") auto
qed

theorem Transfer_moves_amount_witness: "account_sum 2 (db (snd sample_transferred)) = 200"
proof -
  obtain dto where "Transfer sample_env (sample_transfer 200 ''k2'') sample_world2 = (Inr dto, snd sample_transferred)"
    using sample_transferred_ok by (auto simp: sample_transferred_def prod_eq_iff)
  moreover have "account_sum 2 (db sample_world2) = 0" by code_simp
  ultimately show ?thesis
    using Transfer_moves_amount [OF _ sample_ok2, of sample_env "sample_transfer 200 ''k2''" dto _ 2] sample_key2_free
    by (simp add: sample_transfer_def)
qed

definition sample_reversed :: "(svc_error + transaction_dto) \<times> world" where
  "sample_reversed = Reverse sample_env (sample_reverse 1 ''k2'') sample_time sample_world2"

lemma sample_reversed_ok: "\<exists>dto. Reverse sample_env (sample_reverse 1 ''k2'') sample_time sample_world2 = (Inr dto, snd sample_reversed)"
proof -
  have "\<not> isl (fst sample_reversed)" by code_simp
  then show ?thesis by (cases "fst sample_reversed") (auto simp: sample_reversed_def prod_eq_iff)
qed

lemma sample_reverse_free:
  "key_free (ri_UserID (sample_reverse 1 ''k2'')) (ri_IdempotencyKey (sample_reverse 1 ''k2'')) (db sample_world2)"
  by (simp add: sample_reverse_def sample_key2_free)

theorem Reverse_takes_back_witness: "account_sum 1 (db (snd sample_reversed)) = 500 - 500"
proof -
  obtain dto where r: "Reverse sample_env (sample_reverse 1 ''k2'') sample_time sample_world2 = (Inr dto, snd sample_reversed)"
    using sample_reversed_ok by blast
  have "account_sum 1 (db sample_world2) = 500" by code_simp
  moreover have "amount_sum (filter (\<lambda>p. p_account_id p = 1 \<and> p_transaction_id p = 1) (postings (db sample_world2))) = 500"
    by code_simp
  ultimately show ?thesis
    using Reverse_takes_back [OF r sample_ok2 sample_reverse_free, of 1] by (simp add: sample_reverse_def)
qed

theorem Create_Reverse_restores_witness: "account_sum 4 (db (snd sample_reversed)) = account_sum 4 (db sample_world)"
proof -
  obtain dto where r: "Reverse sample_env (sample_reverse 1 ''k2'') sample_time sample_world2 = (Inr dto, snd sample_reversed)"
    using sample_reversed_ok by blast
  show ?thesis
    by (rule Create_Reverse_restores [OF sample_created(1) sample_ok sample_key1_free _ r _ sample_reverse_free])
      (simp_all add: sample_db1 sample_world2_def sample_reverse_def sample_dto_def)
qed

theorem Create_MinInt64_refused_witness:
  "untouched (db sample_world) (db (snd (Create sample_env (sample_create MinInt64 []) sample_world))) \<and>
   isl (fst (Create sample_env (sample_create MinInt64 []) sample_world))"
  by (rule Create_MinInt64_refused [OF _ sample_ok, of sample_env "sample_create MinInt64 []"])
    (simp_all add: sample_create_def sample_key_free)

theorem Transfer_refuses_legs_witness:
  "fst (Transfer sample_env ((sample_transfer 200 [])\<lparr>ti_ToAccountID := 3\<rparr>) sample_world) = Inl ErrCurrencyMismatch"
proof (rule Transfer_refuses_legs [OF sample_healthy sample_ok])
  show "legs_error (ti_UserID ((sample_transfer 200 [])\<lparr>ti_ToAccountID := 3\<rparr>))
      (ti_Currency ((sample_transfer 200 [])\<lparr>ti_ToAccountID := 3\<rparr>)) (accounts (db sample_world))
      (bi_Legs (balanced_of_transfer ((sample_transfer 200 [])\<lparr>ti_ToAccountID := 3\<rparr>))) = Some ErrCurrencyMismatch"
    by code_simp
  show "has_user (ti_UserID ((sample_transfer 200 [])\<lparr>ti_ToAccountID := 3\<rparr>)) (db sample_world)"
    by code_simp
qed (simp_all add: sample_transfer_def sample_key_free)

theorem Reverse_refuses_witness:
  "original_of (sample_reverse 7 ''k2'') (db sample_world2) = None \<and>
   fst (Reverse sample_env (sample_reverse 7 ''k2'') sample_time sample_world2) = Inl ErrTxNotFound"
proof -
  have o: "original_of (sample_reverse 7 ''k2'') (db sample_world2) = None" by code_simp
  have "has_user (ri_UserID (sample_reverse 7 ''k2'')) (db sample_world2)" by code_simp
  moreover have "transactions_seq (seqs (db sample_world2)) \<le> MaxInt64" by code_simp
  ultimately show ?thesis
    using Reverse_refuses [OF sample_healthy2 sample_ok2, of "sample_reverse 7 ''k2''" sample_env sample_time] o
      sample_key2_free by (simp add: sample_reverse_def)
qed

lemma sample_whole_minutes: "whole_minutes sample_env"
  by (simp add: whole_minutes_def sample_env_def)

text \<open>A first attempt whose commit is acknowledged to nobody, then a second one.\<close>

definition sample_attempts :: "(svc_error + transaction_dto) list \<times> world" where
  "sample_attempts = attempts sample_env (balanced_of_create (sample_create 500 ''k1''))
     [(3000, replicate 11 Healthy @ [LostAck]), (4000, [])] sample_world"

theorem createBalanced_exactly_once_witness:
  "untouched (db sample_world) (db (snd sample_attempts)) \<and> (\<forall>r\<in>set (fst sample_attempts). isl r)
   \<or> (\<exists>d now dto b. untouched (db sample_world) d \<and>
        admits_balanced (balanced_of_create (sample_create 500 ''k1'')) now d \<and>
        balanced_booking sample_env (balanced_of_create (sample_create 500 ''k1'')) now d = Some (dto, b) \<and>
        untouched (booked b d) (db (snd sample_attempts)) \<and> (\<forall>r\<in>set (fst sample_attempts). isl r \<or> r = Inr dto))"
proof -
  have "attempts sample_env (balanced_of_create (sample_create 500 ''k1''))
     [(3000, replicate 11 Healthy @ [LostAck]), (4000, [])] sample_world = (fst sample_attempts, snd sample_attempts)"
    by (simp add: sample_attempts_def)
  then show ?thesis
    by (rule createBalanced_exactly_once [OF _ sample_ok])
      (simp_all add: balanced_of_create_def sample_create_def sample_key_free sample_whole_minutes)
qed

theorem Create_key_reuse_witness:
  "Create sample_env (sample_create 500 ''k1'') sample_world2 = (Inr sample_dto, sample_world2) \<and>
   Create sample_env ((sample_create 500 ''k1'')\<lparr>ci_Note := ''rent''\<rparr>) sample_world2 = (Inl ErrIdempotencyConflict, sample_world2)"
proof -
  have "Create sample_env inp sample_world2 =
     (if requestHash sample_env (balanced_of_create inp) = requestHash sample_env (balanced_of_create (sample_create 500 ''k1''))
      then Inr sample_dto else Inl ErrIdempotencyConflict, sample_world2)"
    if "ci_UserID inp = 1" "ci_IdempotencyKey inp = ''k1''" "ci_AmountMinor inp \<noteq> 0" for inp
    by (rule Create_key_reuse [OF sample_created(1) sample_ok _ sample_whole_minutes _ sample_ok2 sample_healthy2])
      (simp_all add: that sample_create_def sample_world2_def sample_db1)
  moreover have "requestHash sample_env (balanced_of_create ((sample_create 500 ''k1'')\<lparr>ci_Note := ''rent''\<rparr>)) \<noteq>
     requestHash sample_env (balanced_of_create (sample_create 500 ''k1''))" by code_simp
  ultimately show ?thesis by (simp add: sample_create_def)
qed
theorem requestHash_zone_independent_witness:
  "requestHash sample_env ((balanced_of_create (sample_create 500 []))\<lparr>bi_OccurredAt := \<lparr>unix_ns = 3000, zone_off = 3600\<rparr>\<rparr>)
   = requestHash sample_env (balanced_of_create (sample_create 500 []))"
  by (rule requestHash_zone_independent)
    (simp add: balanced_of_create_def sample_create_def sample_time_def sample_clock_def)

end
