(* ===== verification/Balance.thy ===== *)
theory Balance
  imports Progress Sample
begin

text \<open>
  internal/service/balance.go and the snapshot tasks of internal/worker/snapshot\_worker.go. The
  current balance is the latest daily snapshot plus the postings created after its day; both cut on
  the insertion time. Postgres \<open>DATE\<close> values are day numbers here.
\<close>

section \<open>The code\<close>

text \<open>How pgx reads a \<open>DATE\<close> (midnight UTC) and writes one (the calendar date of the time).\<close>

definition date_time :: "int \<Rightarrow> gtime" where
  "date_time day = \<lparr>unix_ns = day * 86400000000000, zone_off = 0\<rparr>"

definition date_day :: "gtime \<Rightarrow> int" where
  "date_day t = civil_days (Year t) (Month t) (Day t)"

definition end_of_day :: "gtime \<Rightarrow> gtime" where
  "end_of_day d = time_Date (Year d) (Month d) (Day d) 23 59 59 999999999 0"

record balance_result =
  br_AccountID :: int
  br_AsOfISO :: string
  br_Balance :: int64

text \<open>The cut-off and the balance to start from: any error of the lookup, not only a missing row, leaves
  the zero time and zero.\<close>

definition snapshotBase :: "int \<Rightarrow> world \<Rightarrow> (gtime \<times> int64) \<times> world" where
  "snapshotBase aid w =
     (case run (GetLatestSnapshot aid) w of
        (Inr snap, w1) \<Rightarrow> ((end_of_day (UTC (date_time (s_as_of_date snap))), s_balance_minor snap), w1)
      | (Inl _, w1) \<Rightarrow> ((zero_time, 0), w1))"

definition CurrentBalance :: "int \<Rightarrow> gtime \<Rightarrow> world \<Rightarrow> balance_result result \<times> world" where
  "CurrentBalance aid now w =
     (case snapshotBase aid w of ((snapCutoff, snapBal), w1) \<Rightarrow>
        (case run (SumPostingsSince aid (pg_time snapCutoff)) w1 of
           (Inl e, w2) \<Rightarrow> (Inl e, w2)
         | (Inr delta, w2) \<Rightarrow>
             (Inr \<lparr>br_AccountID = aid, br_AsOfISO = fmt_RFC3339 (UTC now), br_Balance = snapBal + delta\<rparr>, w2)))"

record snapshot_payload =
  sp_AccountID :: int
  sp_Date :: string

definition snapshotKey :: "int \<Rightarrow> gtime \<Rightarrow> string" where
  "snapshotKey aid date = ''snapshot:'' @ fmt_int aid @ '':'' @ fmt_date date"

datatype task_error = BadDate | TaskDb db_error

text \<open>The tasks to enqueue, each with its task id; the result of an enqueue is ignored by the code.\<close>

definition handleSnapshotAll ::
  "string \<Rightarrow> gtime \<Rightarrow> world \<Rightarrow> (task_error + (string \<times> snapshot_payload) list) \<times> world" where
  "handleSnapshotAll pDate timeNow w =
     (let date = (if pDate = [] then fmt_date ((UTC timeNow)\<lparr>unix_ns := unix_ns timeNow - 86400000000000\<rparr>) else pDate)
      in case run ListAllAccountIDs w of
           (Inl e, w1) \<Rightarrow> (Inl (TaskDb e), w1)
         | (Inr ids, w1) \<Rightarrow>
             (case parse_date date of
                None \<Rightarrow> (Inl BadDate, w1)
              | Some d \<Rightarrow> (Inr (map (\<lambda>i. (snapshotKey i d, \<lparr>sp_AccountID = i, sp_Date = date\<rparr>)) ids), w1)))"

definition handleSnapshotAccount :: "snapshot_payload \<Rightarrow> world \<Rightarrow> (task_error + unit) \<times> world" where
  "handleSnapshotAccount p w =
     (case parse_date (sp_Date p) of
        None \<Rightarrow> (Inl BadDate, w)
      | Some date \<Rightarrow>
          let cutoff = end_of_day date
          in case run (SumPostingsUpTo (sp_AccountID p) (pg_time cutoff)) w of
               (Inl e, w1) \<Rightarrow> (Inl (TaskDb e), w1)
             | (Inr s, w1) \<Rightarrow>
                 (case run (UpsertBalanceSnapshot (sp_AccountID p) (date_day date) s) w1 of
                    (Inl e, w2) \<Rightarrow> (Inl (TaskDb e), w2)
                  | (Inr _, w2) \<Rightarrow> (Inr (), w2)))"

section \<open>Days and cut-offs\<close>

definition day_end :: "int \<Rightarrow> int" where
  "day_end day = (day + 1) * 86400000000 - 1"

lemma end_of_day_us: "pg_time (end_of_day t) = day_end (date_day t)"
  by (simp add: pg_time_def end_of_day_def time_Date_def day_end_def date_day_def algebra_simps)

lemma date_day_date_time [simp]: "date_day (UTC (date_time k)) = k"
  by (simp add: date_day_def wall_date_days wall_secs_def UTC_def date_time_def)

lemma date_day_wall: "date_day t = wall_secs t div 86400"
  by (simp add: date_day_def wall_date_days)

lemma day_end_mono: "j < k \<Longrightarrow> day_end j < day_end k"
  by (simp add: day_end_def)

lemma zero_time_us: "pg_time zero_time = - 62135596800000000"
  by code_simp

section \<open>The snapshot invariant\<close>

text \<open>
  Every snapshot is of a day that is over, and holds the exact sum of the account's postings
  up to the end of that day; postings were created between 1970 and now.
\<close>

definition sum_until :: "int \<Rightarrow> int \<Rightarrow> database \<Rightarrow> int" where
  "sum_until aid t d = amount_sum (filter (\<lambda>p. p_account_id p = aid \<and> p_created_at p \<le> t) (postings d))"

definition snapshots_ok :: "world \<Rightarrow> bool" where
  "snapshots_ok w \<longleftrightarrow>
     (\<forall>p\<in>set (postings (db w)). 0 \<le> p_created_at p \<and> p_created_at p \<le> pg_now w) \<and> 0 \<le> pg_now w \<and>
     distinct (map (\<lambda>s. (s_account_id s, s_as_of_date s)) (balance_snapshots (db w))) \<and>
     (\<forall>s\<in>set (balance_snapshots (db w)). day_end (s_as_of_date s) < pg_now w \<and>
        sint (s_balance_minor s) = sum_until (s_account_id s) (day_end (s_as_of_date s)) (db w))"

lemma amount_sum_split:
  "amount_sum (filter (\<lambda>p. p_account_id p = aid \<and> t < p_created_at p) ps)
   = amount_sum (filter (\<lambda>p. p_account_id p = aid) ps)
     - amount_sum (filter (\<lambda>p. p_account_id p = aid \<and> p_created_at p \<le> t) ps)"
  by (induction ps) (auto simp: amount_sum_def)

lemma to_bigint_sint: "to_bigint k = Inr x \<Longrightarrow> sint x = k"
  by (auto simp: to_bigint_def split: if_splits)

lemma latest_snapshot:
  assumes "GetLatestSnapshot aid now d = (Inr s, d')"
  shows "s \<in> set (balance_snapshots d) \<and> s_account_id s = aid \<and> d' = d"
proof -
  from assms obtain ss where "sort_key (\<lambda>s. - s_as_of_date s) (filter (\<lambda>s. s_account_id s = aid) (balance_snapshots d)) = s # ss"
    and "d' = d"
    by (auto simp: GetLatestSnapshot_def read_only_Inr one_row_Inr split: list.splits)
  then have "s \<in> set (sort_key (\<lambda>s. - s_as_of_date s) (filter (\<lambda>s. s_account_id s = aid) (balance_snapshots d)))"
    by simp
  with \<open>d' = d\<close> show ?thesis by simp
qed

lemma snapshotBase_sum:
  assumes ok: "snapshots_ok w" and b: "snapshotBase aid w = ((ct, bal), w1)"
  shows "db w1 = db w \<and> pg_now w1 = pg_now w \<and> sint bal = sum_until aid (pg_time ct) (db w)"
proof (cases "run (GetLatestSnapshot aid) w")
  case (Pair x v)
  have v: "db v = db w \<and> pg_now v = pg_now w" using Pair run_read_only unfolding GetLatestSnapshot_def by blast
  show ?thesis
  proof (cases x)
    case (Inl e)
    have "filter (\<lambda>p. p_account_id p = aid \<and> p_created_at p \<le> pg_time zero_time) (postings (db w)) = []"
      using ok by (fastforce simp: snapshots_ok_def filter_empty_conv zero_time_us)
    then show ?thesis using b Pair Inl v by (auto simp: snapshotBase_def sum_until_def amount_sum_def)
  next
    case (Inr snap)
    then have "snap \<in> set (balance_snapshots (db w)) \<and> s_account_id snap = aid"
      using Pair latest_snapshot by (auto simp: run_Some)
    then show ?thesis using b Pair Inr v ok by (auto simp: snapshotBase_def snapshots_ok_def end_of_day_us)
  qed
qed

lemma word_of_int_sum: "sint (a :: int64) + sint b = k \<Longrightarrow> a + b = word_of_int k"
  by (metis of_int_add of_int_sint scast_id)

lemma CurrentBalance_sum:
  assumes ok: "snapshots_ok w" and r: "CurrentBalance aid now w = (Inr res, w')"
  shows "br_AccountID res = aid \<and> br_Balance res = word_of_int (account_sum aid (db w)) \<and> db w' = db w"
proof -
  obtain ct bal w1 where c: "snapshotBase aid w = ((ct, bal), w1)" by (metis surj_pair)
  note b = snapshotBase_sum [OF ok c]
  obtain delta where d: "run (SumPostingsSince aid (pg_time ct)) w1 = (Inr delta, w')"
    and res: "res = \<lparr>br_AccountID = aid, br_AsOfISO = fmt_RFC3339 (UTC now), br_Balance = bal + delta\<rparr>"
    using r unfolding CurrentBalance_def c by (auto split: prod.splits sum.splits)
  from d b have "sint delta = amount_sum (filter (\<lambda>p. p_account_id p = aid \<and> pg_time ct < p_created_at p) (postings (db w)))"
    and w2: "db w' = db w"
    by (auto simp: run_Some SumPostingsSince_def read_only_Inr dest!: to_bigint_sint)
  then have "sint delta = account_sum aid (db w) - sum_until aid (pg_time ct) (db w)"
    by (simp only: amount_sum_split account_sum_def sum_until_def)
  then have "bal + delta = word_of_int (account_sum aid (db w))" using b by (intro word_of_int_sum) simp
  then show ?thesis by (simp add: res w2)
qed

lemma CurrentBalance_returns:
  assumes "healthy w" and "snapshots_ok w"
    and "in_int64 (account_sum aid (db w) - sum_until aid (pg_time (fst (fst (snapshotBase aid w)))) (db w))"
  shows "\<exists>res w'. CurrentBalance aid now w = (Inr res, w')"
proof -
  obtain ct bal w1 where c: "snapshotBase aid w = ((ct, bal), w1)" by (metis surj_pair)
  have h: "healthy w1" using c assms(1)
    by (auto simp: snapshotBase_def healthy_def run_healthy split: sum.splits)
  have "to_bigint (amount_sum (filter (\<lambda>p. p_account_id p = aid \<and> pg_time ct < p_created_at p) (postings (db w1))))
     = Inr (word_of_int (account_sum aid (db w) - sum_until aid (pg_time ct) (db w)))"
    using assms(3) snapshotBase_sum [OF assms(2) c] c
    by (simp add: amount_sum_split account_sum_def sum_until_def to_bigint_ok)
  then show ?thesis
    using h by (simp add: CurrentBalance_def c healthy_def run_healthy SumPostingsSince_def read_only_def)
qed

section \<open>What keeps the snapshots right\<close>

lemma sum_until_append:
  assumes "\<And>p. p \<in> set ps \<Longrightarrow> t < p_created_at p"
  shows "amount_sum (filter (\<lambda>p. p_account_id p = aid \<and> p_created_at p \<le> t) (qs @ ps))
       = amount_sum (filter (\<lambda>p. p_account_id p = aid \<and> p_created_at p \<le> t) qs)"
proof -
  have "filter (\<lambda>p. p_account_id p = aid \<and> p_created_at p \<le> t) ps = []"
    using assms by (fastforce simp: filter_empty_conv)
  then show ?thesis by simp
qed

text \<open>Appending postings created now, and the passing of time.\<close>

lemma snapshots_ok_append:
  assumes "snapshots_ok w" and "balance_snapshots (db w') = balance_snapshots (db w)" and "pg_now w' = pg_now w"
    and "postings (db w') = postings (db w) @ ps" and "\<And>p. p \<in> set ps \<Longrightarrow> p_created_at p = pg_now w"
  shows "snapshots_ok w'"
proof -
  have "sum_until aid t (db w') = sum_until aid t (db w)" if "t < pg_now w" for aid t
    using sum_until_append [of ps t aid "postings (db w)"] assms(4,5) that by (simp add: sum_until_def)
  then show ?thesis using assms by (auto simp: snapshots_ok_def)
qed

lemma snapshots_ok_tick:
  assumes "snapshots_ok w" and "db w' = db w" and "clock w \<le> clock w'"
  shows "snapshots_ok w'"
proof -
  have "pg_now w \<le> pg_now w'" using assms(3) by (simp add: pg_now_def zdiv_mono1)
  then show ?thesis using assms(1,2) by (fastforce simp: snapshots_ok_def)
qed

text \<open>A snapshot taken of a day that is over.\<close>

lemma upsert_cases:
  "run (UpsertBalanceSnapshot aid day b) w = (r, w') \<Longrightarrow>
     pg_now w' = pg_now w \<and> postings (db w') = postings (db w) \<and>
     (balance_snapshots (db w') = balance_snapshots (db w) \<or>
      balance_snapshots (db w') = map (\<lambda>s. if s_account_id s = aid \<and> s_as_of_date s = day
        then s\<lparr>s_balance_minor := b\<rparr> else s) (balance_snapshots (db w)) \<or>
      (\<forall>s\<in>set (balance_snapshots (db w)). \<not> (s_account_id s = aid \<and> s_as_of_date s = day)) \<and>
      (\<exists>n. balance_snapshots (db w') = balance_snapshots (db w) @
        [\<lparr>s_id = n, s_account_id = aid, s_as_of_date = day, s_balance_minor = b, s_created_at = pg_now w\<rparr>]))"
  by (auto simp: run_def UpsertBalanceSnapshot_def with_serial_def Let_def split: fault.splits if_splits)

lemma upsert_ok:
  assumes ok: "snapshots_ok w" and u: "run (UpsertBalanceSnapshot aid day b) w = (r, w')"
    and b: "sint b = sum_until aid (day_end day) (db w)" and past: "day_end day < pg_now w"
  shows "snapshots_ok w' \<and> postings (db w') = postings (db w)"
proof -
  note c = upsert_cases [OF u]
  have same: "sum_until a t (db w') = sum_until a t (db w)" for a t using c by (simp add: sum_until_def)
  let ?f = "\<lambda>s. if s_account_id s = aid \<and> s_as_of_date s = day then s\<lparr>s_balance_minor := b\<rparr> else s"
  have keys: "map (\<lambda>s. (s_account_id s, s_as_of_date s)) (map ?f xs) = map (\<lambda>s. (s_account_id s, s_as_of_date s)) xs" for xs
    by (induction xs) auto
  from c consider "balance_snapshots (db w') = balance_snapshots (db w)"
    | "balance_snapshots (db w') = map ?f (balance_snapshots (db w))"
    | n where "\<forall>s\<in>set (balance_snapshots (db w)). \<not> (s_account_id s = aid \<and> s_as_of_date s = day)"
      "balance_snapshots (db w') = balance_snapshots (db w) @
        [\<lparr>s_id = n, s_account_id = aid, s_as_of_date = day, s_balance_minor = b, s_created_at = pg_now w\<rparr>]" by blast
  then have "distinct (map (\<lambda>s. (s_account_id s, s_as_of_date s)) (balance_snapshots (db w'))) \<and>
    (\<forall>s\<in>set (balance_snapshots (db w')). day_end (s_as_of_date s) < pg_now w \<and>
        sint (s_balance_minor s) = sum_until (s_account_id s) (day_end (s_as_of_date s)) (db w))"
  proof cases
    case 1
    with ok show ?thesis by (simp add: snapshots_ok_def)
  next
    case 2
    then show ?thesis using ok b past unfolding 2 keys by (auto simp: snapshots_ok_def)
  next
    case 3
    then show ?thesis using ok b past by (auto simp: snapshots_ok_def)
  qed
  with ok c same show ?thesis by (simp add: snapshots_ok_def)
qed

lemma handleSnapshotAccount_ok:
  assumes ok: "snapshots_ok w" and h: "handleSnapshotAccount p w = (r, w')"
    and past: "\<And>date. parse_date (sp_Date p) = Some date \<Longrightarrow> day_end (date_day date) < pg_now w"
  shows "snapshots_ok w' \<and> postings (db w') = postings (db w)"
proof (cases "parse_date (sp_Date p)")
  case None
  with h ok show ?thesis by (simp add: handleSnapshotAccount_def)
next
  case (Some date)
  let ?aid = "sp_AccountID p" and ?day = "date_day date"
  obtain r1 w1 where s: "run (SumPostingsUpTo ?aid (day_end ?day)) w = (r1, w1)" by fastforce
  have w1: "db w1 = db w" "pg_now w1 = pg_now w"
    using s run_read_only unfolding SumPostingsUpTo_def by blast+
  have ok1: "snapshots_ok w1" using ok w1 by (simp add: snapshots_ok_def)
  show ?thesis
  proof (cases r1)
    case (Inl e)
    with h Some s ok1 w1 show ?thesis by (auto simp: handleSnapshotAccount_def end_of_day_us Let_def)
  next
    case (Inr b)
    then have b: "sint b = sum_until ?aid (day_end ?day) (db w1)"
      using s w1 by (auto simp: run_Some SumPostingsUpTo_def read_only_Inr to_bigint_def sum_until_def split: if_splits)
    obtain r2 w2 where u: "run (UpsertBalanceSnapshot ?aid ?day b) w1 = (r2, w2)" by fastforce
    have w': "w' = w2" using h Some s Inr u by (auto simp: handleSnapshotAccount_def end_of_day_us Let_def split: sum.splits)
    have "snapshots_ok w2 \<and> postings (db w2) = postings (db w1)"
      using upsert_ok [OF ok1 u b] past [OF Some] w1 by simp
    then show ?thesis by (simp add: w' w1)
  qed
qed

section \<open>The nightly fan-out\<close>

definition day_before :: "gtime \<Rightarrow> gtime" where
  "day_before t = (UTC t)\<lparr>unix_ns := unix_ns t - 86400000000000\<rparr>"

lemma date_day_parsed:
  assumes "0 \<le> Year t" "Year t \<le> 9999"
  shows "\<exists>d. parse_date (fmt_date t) = Some d \<and> date_day d = date_day t"
proof -
  have "date_day (time_Date (Year t) (Month t) (Day t) 0 0 0 0 0) = date_day t"
    using date_of_time_Date [OF wall_date_valid [of t], of 0 0 0 0 0] by (simp add: date_day_def)
  then show ?thesis using fmt_date_parse [OF assms] by simp
qed

lemma date_day_yesterday: "date_day (day_before t) = unix_ns t div 1000000000 div 86400 - 1"
proof -
  have "(unix_ns t - 86400000000000) div 1000000000 = unix_ns t div 1000000000 - 86400"
    using div_plus_div_distrib_dvd_right [of 1000000000 "-86400000000000" "unix_ns t"] by simp
  moreover have "(unix_ns t div 1000000000 - 86400) div 86400 = unix_ns t div 1000000000 div 86400 - 1"
    using div_plus_div_distrib_dvd_right [of 86400 "-86400" "unix_ns t div 1000000000"] by simp
  ultimately show ?thesis by (simp add: date_day_wall wall_secs_def day_before_def UTC_def)
qed

lemma yesterday_is_over: "day_end (date_day (day_before t)) < unix_ns t div 1000"
proof -
  let ?s = "unix_ns t div 1000000000"
  have "86400 * (?s div 86400) \<le> ?s" by simp
  moreover have "1000000000 * ?s \<le> unix_ns t" by simp
  then have "1000000 * ?s \<le> unix_ns t div 1000" by linarith
  ultimately show ?thesis by (simp add: date_day_yesterday day_end_def)
qed

lemma snapshotKey_inj:
  assumes "snapshotKey i t = snapshotKey j u"
  shows "i = j"
proof -
  have sep: "CHR '':'' \<notin> set (fmt_int k)" for k using fmt_int_chars [of "CHR '':''" k] by auto
  have "fmt_int i @ CHR '':'' # fmt_date t = fmt_int j @ CHR '':'' # fmt_date u"
    using assms by (simp add: snapshotKey_def)
  from append_sep_inj [OF sep sep this] show ?thesis by (simp add: fmt_int_inj)
qed

text \<open>C39. When the nightly job, which carries no date, finishes, it has asked for exactly one snapshot per active account, in
  the order of the account ids and under distinct task ids, and for a day that is over: the calendar day in UTC
  before the one on which it runs (a day of the years 0 to 9999).\<close>

theorem handleSnapshotAll_covers_accounts:
  assumes "handleSnapshotAll [] t w = (Inr tasks, w')" and "ledger_ok (db w)"
    and "0 \<le> Year (day_before t)" and "Year (day_before t) \<le> 9999"
  shows "map (\<lambda>x. sp_AccountID (snd x)) tasks = sort (map a_id (filter a_is_active (accounts (db w)))) \<and>
    distinct (map fst tasks) \<and>
    (\<forall>x\<in>set tasks. \<exists>d. parse_date (sp_Date (snd x)) = Some d \<and> date_day d = date_day (day_before t) \<and>
       day_end (date_day d) < unix_ns t div 1000)"
proof -
  obtain d where d: "parse_date (fmt_date (day_before t)) = Some d" "date_day d = date_day (day_before t)"
    using date_day_parsed [OF assms(3,4)] by blast
  obtain ids where r: "run ListAllAccountIDs w = (Inr ids, w')"
    and ts: "tasks = map (\<lambda>i. (snapshotKey i d, \<lparr>sp_AccountID = i, sp_Date = fmt_date (day_before t)\<rparr>)) ids"
    using assms(1) d(1) by (auto simp: handleSnapshotAll_def day_before_def Let_def split: prod.splits sum.splits)
  have ids: "ids = sort (map a_id (filter a_is_active (accounts (db w))))"
    using r by (auto simp: run_Some ListAllAccountIDs_def read_only_Inr)
  have "distinct (map a_id (accounts (db w)))" using assms(2) by (simp add: ledger_ok_def ids_ok_def)
  then have "distinct ids" using ids by (simp add: distinct_map_filter)
  then have "distinct (map fst tasks)"
    using snapshotKey_inj by (auto simp: ts o_def distinct_map inj_on_def)
  moreover have "map (\<lambda>x. sp_AccountID (snd x)) tasks = ids" by (simp add: ts o_def)
  ultimately show ?thesis using d yesterday_is_over [of t] ids by (auto simp: ts)
qed

theorem handleSnapshotAll_covers_accounts_witness:
  "\<exists>tasks. fst (handleSnapshotAll [] sample_time sample_world) = Inr tasks \<and>
     map (\<lambda>x. sp_AccountID (snd x)) tasks = [1, 2, 3] \<and> distinct (map fst tasks)"
proof -
  have "\<not> isl (fst (handleSnapshotAll [] sample_time sample_world))" by code_simp
  then obtain tasks where t: "fst (handleSnapshotAll [] sample_time sample_world) = Inr tasks"
    by (cases "fst (handleSnapshotAll [] sample_time sample_world)") auto
  then have h: "handleSnapshotAll [] sample_time sample_world = (Inr tasks, snd (handleSnapshotAll [] sample_time sample_world))"
    by (simp add: prod_eq_iff)
  have "ledger_ok (db sample_world)" by code_simp
  moreover have "0 \<le> Year (day_before sample_time)" "Year (day_before sample_time) \<le> 9999" by code_simp+
  moreover have "sort (map a_id (filter a_is_active (accounts (db sample_world)))) = [1, 2, 3]" by code_simp
  ultimately show ?thesis using handleSnapshotAll_covers_accounts [OF h] t by simp
qed

end
