(* ===== verification/Cursor.thy ===== *)
theory Cursor
  imports GoTimeText
begin

text \<open>
  The pagination cursor of internal/transport/http/transactions.go: the time and the posting id
  of the last row of a page, joined by a bar and encoded with \<open>base64.RawURLEncoding\<close> (URL
  alphabet, no padding).
\<close>

section \<open>Base64 without padding\<close>

fun char_bits :: "char \<Rightarrow> bool list" where
  "char_bits (Char b0 b1 b2 b3 b4 b5 b6 b7) = [b7, b6, b5, b4, b3, b2, b1, b0]"

fun bits_char :: "bool list \<Rightarrow> char" where
  "bits_char [b7, b6, b5, b4, b3, b2, b1, b0] = Char b0 b1 b2 b3 b4 b5 b6 b7"
| "bits_char _ = CHR 0x00"

lemma bits_char_bits [simp]: "bits_char (char_bits c) = c"
  by (cases c) simp

lemma length_char_bits [simp]: "length (char_bits c) = 8"
  by (cases c) simp

definition url_alphabet :: string where
  "url_alphabet = ''ABCDEFGHIJKLMNOPQRSTUVWXYZabcdefghijklmnopqrstuvwxyz0123456789-_''"

text \<open>The alphabet with its six-bit values, most significant bit first.\<close>

definition url_table :: "(char \<times> bool list) list" where
  "url_table = zip url_alphabet (map rev (List.n_lists 6 [False, True]))"

function six_groups :: "bool list \<Rightarrow> bool list list" where
  "six_groups bs = (if bs = [] then [] else take 6 (bs @ replicate 5 False) # six_groups (drop 6 bs))"
  by auto
termination by (relation "measure length") auto

function eight_groups :: "bool list \<Rightarrow> bool list list" where
  "eight_groups bs = (if length bs < 8 then [] else take 8 bs # eight_groups (drop 8 bs))"
  by auto
termination by (relation "measure length") auto

declare six_groups.simps [simp del] eight_groups.simps [simp del]

definition b64_encode :: "string \<Rightarrow> string" where
  "b64_encode s = map (\<lambda>g. case map_of (map (\<lambda>(c, g). (g, c)) url_table) g of None \<Rightarrow> CHR ''A'' | Some c \<Rightarrow> c)
                    (six_groups (concat (map char_bits s)))"

text \<open>The decoder skips line breaks, refuses other foreign characters and a last group of a single
  character, and drops the bits that do not fill a byte.\<close>

definition b64_decode :: "string \<Rightarrow> string option" where
  "b64_decode s =
     (let cs = filter (\<lambda>c. c \<noteq> CHR 0x0A \<and> c \<noteq> CHR 0x0D) s
      in if length cs mod 4 = 1 then None
         else case those (map (map_of url_table) cs) of
                None \<Rightarrow> None
              | Some gs \<Rightarrow> Some (map bits_char (eight_groups (concat gs))))"

section \<open>The cursor\<close>

definition encodeCursor :: "gtime \<Rightarrow> int \<Rightarrow> string" where
  "encodeCursor t i = b64_encode (fmt_RFC3339Nano (UTC t) @ ''|'' @ fmt_int i)"

definition decodeCursor :: "string \<Rightarrow> (gtime \<times> int) option" where
  "decodeCursor s =
     (if s = [] then Some (time_Date 9999 1 1 0 0 0 0 0, MaxInt64)
      else Option.bind (b64_decode s) (\<lambda>raw.
           case split2 CHR ''|'' raw of
             [a, b] \<Rightarrow> Option.bind (parse_RFC3339Nano a) (\<lambda>t.
                       Option.bind (ParseInt b) (\<lambda>i. Some (t, i)))
           | _ \<Rightarrow> None))"

section \<open>Round trips\<close>

lemma url_table_ok:
  "distinct (map fst url_table)" "distinct (map snd url_table)" "map snd url_table = map rev (List.n_lists 6 [False, True])"
  "\<forall>x\<in>set url_table. fst x \<noteq> CHR 0x0A \<and> fst x \<noteq> CHR 0x0D"
  by code_simp+

definition url_char :: "bool list \<Rightarrow> char" where
  "url_char g = (case map_of (map (\<lambda>(c, g). (g, c)) url_table) g of None \<Rightarrow> CHR ''A'' | Some c \<Rightarrow> c)"

lemma url_char_entry:
  assumes "length g = 6"
  shows "(url_char g, g) \<in> set url_table"
proof -
  have "rev g \<in> set (List.n_lists 6 [False, True])" using assms by (auto simp: set_n_lists)
  then have "rev (rev g) \<in> set (map rev (List.n_lists 6 [False, True]))" by (metis imageI set_map)
  then have "g \<in> snd ` set url_table" using url_table_ok(3) by (metis rev_rev_ident set_map)
  then obtain c where c: "(c, g) \<in> set url_table" by auto
  have "distinct (map fst (map (\<lambda>(c, g). (g, c)) url_table))"
    using url_table_ok(2) by (simp add: o_def case_prod_unfold)
  then have "map_of (map (\<lambda>(c, g). (g, c)) url_table) g = Some c"
    using c by (intro map_of_is_SomeI) force+
  then show ?thesis using c by (simp add: url_char_def)
qed

lemma url_char_decodes: "length g = 6 \<Longrightarrow> map_of url_table (url_char g) = Some g"
  using url_char_entry url_table_ok(1) by (simp add: map_of_is_SomeI)

lemma url_char_line: "length g = 6 \<Longrightarrow> url_char g \<noteq> CHR 0x0A \<and> url_char g \<noteq> CHR 0x0D"
  using url_char_entry url_table_ok(4) by fastforce

lemma six_groups_length: "\<forall>g\<in>set (six_groups bs). length g = 6"
proof (induction bs rule: six_groups.induct)
  case (1 bs)
  show ?case
  proof (cases bs)
    case Nil
    then show ?thesis by (simp add: six_groups.simps)
  next
    case (Cons b cs)
    with 1 show ?thesis by (subst six_groups.simps) simp
  qed
qed

lemma six_groups_concat: "\<exists>k. k < 6 \<and> concat (six_groups bs) = bs @ replicate k False"
proof (induction bs rule: six_groups.induct)
  case (1 bs)
  show ?case
  proof (cases "length bs < 6")
    case True
    show ?thesis
    proof (cases "bs = []")
      case False
      with True have "concat (six_groups bs) = bs @ replicate (6 - length bs) False"
        by (subst six_groups.simps) (cases bs, simp_all add: six_groups.simps [of "[]"] min_def)
      with False show ?thesis by (intro exI [of _ "6 - length bs"]) auto
    qed (simp add: six_groups.simps)
  next
    case False
    then have "bs \<noteq> []" by auto
    from 1 [OF this] obtain k where "k < 6" "concat (six_groups (drop 6 bs)) = drop 6 bs @ replicate k False" by blast
    with False \<open>bs \<noteq> []\<close> show ?thesis
      by (subst six_groups.simps) (auto simp flip: append_assoc)
  qed
qed

lemma six_groups_count: "length (six_groups bs) = (length bs + 5) div 6"
proof (induction bs rule: six_groups.induct)
  case (1 bs)
  show ?case
  proof (cases "bs = []")
    case False
    have "length (six_groups bs) = Suc ((length bs - 6 + 5) div 6)"
      using 1 [OF False] False by (subst six_groups.simps) simp
    also have "\<dots> = (length bs + 5) div 6"
      using False by (cases "length bs < 6") (auto simp: div_if)
    finally show ?thesis .
  qed (simp add: six_groups.simps)
qed

lemma eight_groups_bytes: "length pad < 8 \<Longrightarrow> eight_groups (concat (map char_bits s) @ pad) = map char_bits s"
  by (induction s) (simp_all add: eight_groups.simps)

lemma length_bits: "length (concat (map char_bits s)) = 8 * length s"
  by (induction s) simp_all

lemma those_map_Some: "(\<And>x. x \<in> set xs \<Longrightarrow> f x = Some (g x)) \<Longrightarrow> those (map f xs) = Some (map g xs)"
  by (induction xs) simp_all

lemma b64_roundtrip: "b64_decode (b64_encode s) = Some s"
proof -
  let ?bs = "concat (map char_bits s)"
  let ?gs = "six_groups ?bs"
  have e: "b64_encode s = map url_char ?gs" by (simp add: b64_encode_def url_char_def)
  have f: "filter (\<lambda>c. c \<noteq> CHR 0x0A \<and> c \<noteq> CHR 0x0D) (map url_char ?gs) = map url_char ?gs"
    using six_groups_length [of ?bs] url_char_line by (auto simp: filter_id_conv)
  have n: "length ?gs mod 4 \<noteq> 1" unfolding six_groups_count length_bits by presburger
  have "those (map (map_of url_table \<circ> url_char) ?gs) = Some (map id ?gs)"
    using six_groups_length [of ?bs] by (intro those_map_Some) (simp add: url_char_decodes)
  then have t: "those (map (map_of url_table) (map url_char ?gs)) = Some ?gs" by simp
  obtain k where "k < 6" "concat ?gs = ?bs @ replicate k False" using six_groups_concat by blast
  then have "eight_groups (concat ?gs) = map char_bits s" using eight_groups_bytes [of "replicate k False" s] by simp
  then show ?thesis unfolding e b64_decode_def Let_def f using n t by (simp add: o_def)
qed

interpretation base64: codec b64_encode b64_decode "\<lambda>_. True"
  by unfold_locales (rule b64_roundtrip)

lemma b64_encode_Nil: "b64_encode s = [] \<longleftrightarrow> s = []"
proof
  assume "b64_encode s = []"
  then have "b64_decode [] = Some s" using b64_roundtrip [of s] by simp
  then show "s = []" by (simp add: b64_decode_def eight_groups.simps)
qed (simp add: b64_encode_def six_groups.simps)

definition cursor_ok :: "gtime \<times> int \<Rightarrow> bool" where
  "cursor_ok c \<longleftrightarrow> 0 \<le> Year (UTC (fst c)) \<and> Year (UTC (fst c)) \<le> 9999 \<and> zone_off (fst c) = 0 \<and> in_int64 (snd c)"

lemma cursor_roundtrip:
  assumes "0 \<le> Year (UTC t)" "Year (UTC t) \<le> 9999" "in_int64 i"
  shows "decodeCursor (encodeCursor t i) = Some (UTC t, i)"
proof -
  have "split2 CHR ''|'' (fmt_RFC3339Nano (UTC t) @ ''|'' @ fmt_int i) = [fmt_RFC3339Nano (UTC t), fmt_int i]"
    using split2_sep [OF fmt_RFC3339Nano_no_bar] by simp
  moreover have "parse_RFC3339Nano (fmt_RFC3339Nano (UTC t)) = Some (UTC t)"
    using time_text.dec_enc time_ok_UTC assms(1,2) by blast
  moreover have "ParseInt (fmt_int i) = Some i" using int_text.dec_enc assms(3) by blast
  ultimately show ?thesis
    by (simp add: decodeCursor_def encodeCursor_def b64_roundtrip b64_encode_Nil)
qed

interpretation cursor: codec "\<lambda>c. encodeCursor (fst c) (snd c)" decodeCursor cursor_ok
proof unfold_locales
  fix c :: "gtime \<times> int" assume "cursor_ok c"
  then show "decodeCursor (encodeCursor (fst c) (snd c)) = Some c"
    using cursor_roundtrip [of "fst c" "snd c"] by (cases c) (simp add: cursor_ok_def UTC_def)
qed

text \<open>C26. A cursor decodes to the instant and the posting id it was made from, for every time that the
  database returns in any zone (years 0 to 9999) and every 64 bit id.\<close>

theorem decodeCursor_encodeCursor:
  assumes "0 \<le> Year (UTC t)" and "Year (UTC t) \<le> 9999" and "in_int64 i"
  shows "decodeCursor (encodeCursor t i) = Some (UTC t, i)"
  by (rule cursor_roundtrip [OF assms])

theorem decodeCursor_encodeCursor_witness:
  "decodeCursor (encodeCursor \<lparr>unix_ns = 3000, zone_off = 7200\<rparr> (-7)) = Some (\<lparr>unix_ns = 3000, zone_off = 0\<rparr>, -7)"
proof -
  have "0 \<le> Year (UTC \<lparr>unix_ns = 3000, zone_off = 7200\<rparr>)" "Year (UTC \<lparr>unix_ns = 3000, zone_off = 7200\<rparr>) \<le> 9999"
    by code_simp+
  from decodeCursor_encodeCursor [OF this, of "-7"] show ?thesis by (simp add: UTC_def in_int64_def)
qed

end
