(* ===== verification/Http.thy ===== *)
theory Http
  imports Effects Balance Cursor
begin

text \<open>
  What the HTTP handlers of internal/transport/http share: requests and replies, the decoding of JSON
  bodies, query parameters, the ownership check and the mapping of service errors to status codes.
\<close>

section \<open>Requests and replies\<close>

text \<open>
  A request as the handlers see it: the user id that the authentication middleware put into the
  context, the \<open>{id}\<close> of the route, the first value of a query parameter or header (empty when absent)
  and the first JSON value of the body, if there is one. Network I/O and chi's routing are outside.
\<close>

record request =
  rq_user :: "int option"
  rq_id :: string
  rq_query :: "string \<Rightarrow> string"
  rq_header :: "string \<Rightarrow> string"
  rq_body :: "json option"

datatype body = NoBody | Text string | Doc json | File string

datatype reply = Reply int body | Panic

type_synonym handler = "request \<Rightarrow> world \<Rightarrow> reply \<times> world"

fun status :: "reply \<Rightarrow> int" where
  "status (Reply c _) = c"
| "status Panic = 500"

definition http_Error :: "string \<Rightarrow> int \<Rightarrow> reply" where
  "http_Error msg code = Reply code (Text msg)"

text \<open>The status line is out before the document is encoded; an encoding error leaves the body empty.\<close>

definition writeJSON :: "int \<Rightarrow> json option \<Rightarrow> reply" where
  "writeJSON code v = Reply code (case v of None \<Rightarrow> NoBody | Some j \<Rightarrow> Doc j)"

text \<open>\<open>time.Now()\<close>: the clock, in the server's zone.\<close>

definition time_Now :: "env \<Rightarrow> world \<Rightarrow> gtime" where
  "time_Now E w = \<lparr>unix_ns = clock w, zone_off = local_off E (clock w)\<rparr>"

text \<open>The user of the request; handlers answer 401 when there is none.\<close>

definition user_of :: "request \<Rightarrow> int option" where
  "user_of rq = (case rq_user rq of None \<Rightarrow> None | Some u \<Rightarrow> if u = 0 then None else Some u)"

definition unauthorized :: reply where
  "unauthorized = http_Error ''unauthorized'' 401"

text \<open>The \<open>{id}\<close> of the route: a positive int64.\<close>

definition path_id :: "request \<Rightarrow> int option" where
  "path_id rq = (case ParseInt (rq_id rq) of None \<Rightarrow> None | Some i \<Rightarrow> if i \<le> 0 then None else Some i)"

definition parseInt :: "request \<Rightarrow> string \<Rightarrow> int \<Rightarrow> int" where
  "parseInt rq key dflt =
     (let v = rq_query rq key
      in if v = [] then dflt
         else case ParseInt v of None \<Rightarrow> dflt | Some n \<Rightarrow> if n < 0 then dflt else n)"

definition int32 :: "int \<Rightarrow> int" where
  "int32 n = sint (word_of_int n :: 32 word)"

section \<open>JSON bodies\<close>

text \<open>
  Decoding an object into a struct: keys match field names without regard to case, a later key
  overwrites an earlier one, \<open>null\<close> leaves a field alone, unknown keys are skipped and a value of
  the wrong type is an error. A body that is \<open>null\<close> leaves the whole struct at its zero value.
\<close>

fun decode_field :: "'a \<Rightarrow> (json \<Rightarrow> 'a option) \<Rightarrow> string \<Rightarrow> (string \<times> json) list \<Rightarrow> 'a option" where
  "decode_field z f k [] = Some z"
| "decode_field z f k ((n, v) # fs) =
     (if EqualFold n k \<and> v \<noteq> JNull then Option.bind (f v) (\<lambda>x. decode_field x f k fs)
      else decode_field z f k fs)"

fun fields_of :: "json \<Rightarrow> (string \<times> json) list option" where
  "fields_of (JObj fs) = Some fs"
| "fields_of JNull = Some []"
| "fields_of _ = None"

definition id_of_json :: "json \<Rightarrow> int option" where
  "id_of_json j = (case num_of_json j of None \<Rightarrow> None | Some n \<Rightarrow> if in_int64 n then Some n else None)"

section \<open>Errors of the services\<close>

text \<open>The texts of the sentinel errors; those of other errors are never shown to a client.\<close>

fun error_text :: "svc_error \<Rightarrow> string" where
  "error_text ErrAccountNotFound = ''account not found''"
| "error_text ErrForbidden = ''account does not belong to user''"
| "error_text ErrAccountInactive = ''account is inactive''"
| "error_text ErrCurrencyMismatch = ''transaction currency does not match account currency''"
| "error_text ErrUnbalanced = ''postings must sum to zero''"
| "error_text ErrZeroAmount = ''posting amount must be non-zero''"
| "error_text ErrIdempotencyConflict = ''idempotency key reused with a different payload''"
| "error_text ErrIdempotencyInFlight = ''a request with this idempotency key is already in progress''"
| "error_text ErrTxNotFound = ''transaction not found''"
| "error_text ErrAlreadyReversed = ''transaction has already been reversed''"
| "error_text ErrIsReversal = ''a reversal cannot itself be reversed''"
| "error_text (DbError _) = []"
| "error_text JsonError = []"

fun writeServiceError :: "svc_error \<Rightarrow> reply" where
  "writeServiceError ErrAccountNotFound = http_Error (error_text ErrAccountNotFound) 404"
| "writeServiceError ErrTxNotFound = http_Error (error_text ErrTxNotFound) 404"
| "writeServiceError ErrAlreadyReversed = http_Error (error_text ErrAlreadyReversed) 409"
| "writeServiceError ErrIsReversal = http_Error (error_text ErrIsReversal) 409"
| "writeServiceError ErrForbidden = http_Error ''forbidden'' 403"
| "writeServiceError ErrAccountInactive = http_Error (error_text ErrAccountInactive) 422"
| "writeServiceError ErrCurrencyMismatch = http_Error (error_text ErrCurrencyMismatch) 422"
| "writeServiceError ErrUnbalanced = http_Error (error_text ErrUnbalanced) 422"
| "writeServiceError ErrZeroAmount = http_Error (error_text ErrZeroAmount) 422"
| "writeServiceError ErrIdempotencyConflict = http_Error (error_text ErrIdempotencyConflict) 409"
| "writeServiceError ErrIdempotencyInFlight = http_Error (error_text ErrIdempotencyInFlight) 409"
| "writeServiceError (DbError _) = http_Error ''internal error'' 500"
| "writeServiceError JsonError = http_Error ''internal error'' 500"

section \<open>Ownership\<close>

text \<open>Other users' accounts are reported as missing.\<close>

definition ownedAccount :: "int \<Rightarrow> int \<Rightarrow> world \<Rightarrow> account_row call" where
  "ownedAccount uid aid w =
     (case run (GetAccount aid) w of
        (Inl e, w1) \<Rightarrow> (Inl (if e = NoRows then ErrAccountNotFound else DbError e), w1)
      | (Inr acc, w1) \<Rightarrow>
          if a_user_id acc \<noteq> uid then (Inl ErrAccountNotFound, w1) else (Inr acc, w1))"

lemma int32_small: "0 \<le> n \<Longrightarrow> n < 2 ^ 31 \<Longrightarrow> int32 n = n"
  by (simp add: int32_def sint_sbintrunc' signed_take_bit_int_eq_self)

lemma ownedAccount_frame: "ownedAccount uid aid w = (r, w') \<Longrightarrow> db w' = db w \<and> pg_now w' = pg_now w \<and> clock w' = clock w"
  by (auto simp: ownedAccount_def run_def GetAccount_def read_only_def Let_def split: fault.splits sum.splits if_splits prod.splits)

lemma ownedAccount_Inr:
  assumes "ownedAccount uid aid w = (Inr acc, w')"
  shows "acc \<in> set (accounts (db w)) \<and> a_id acc = aid \<and> a_user_id acc = uid"
proof -
  have "find (\<lambda>a. a_id a = aid) (accounts (db w)) = Some acc \<and> a_user_id acc = uid"
    using assms by (auto simp: ownedAccount_def run_Some GetAccount_def read_only_Inr one_row_Inr split: sum.splits prod.splits if_splits)
  then show ?thesis using find_Some_in by fastforce
qed

end
