(* ===== verification/Entries.thy ===== *)
theory Entries
  imports Http
begin

text \<open>
  The account history of internal/transport/http/transactions.go: keyset pagination over the
  entries of an account, newest first, and what a client collects by following the cursors.
\<close>

section \<open>The handler\<close>

record entry_dto =
  ed_PostingID :: int
  ed_TransactionID :: int
  ed_AccountID :: int
  ed_AmountMinor :: int64
  ed_Currency :: string
  ed_OccurredAt :: gtime
  ed_Note :: string

definition entryDTO :: "env \<Rightarrow> entry_row \<Rightarrow> entry_dto" where
  "entryDTO E r =
     \<lparr>ed_PostingID = en_posting_id r, ed_TransactionID = en_transaction_id r, ed_AccountID = en_account_id r,
      ed_AmountMinor = en_amount_minor r, ed_Currency = en_currency r, ed_OccurredAt = go_time E (en_occurred_at r),
      ed_Note = (case en_note r of None \<Rightarrow> [] | Some n \<Rightarrow> n)\<rparr>"

definition entry_json :: "entry_dto \<Rightarrow> json option" where
  "entry_json e =
     (case time_json (ed_OccurredAt e) of None \<Rightarrow> None
      | Some occ \<Rightarrow> Some (JObj (
          [(''posting_id'', JNum (ed_PostingID e)), (''transaction_id'', JNum (ed_TransactionID e)),
           (''account_id'', JNum (ed_AccountID e)), (''amount_minor'', JNum (sint (ed_AmountMinor e))),
           (''currency'', JStr (ed_Currency e)), (''occurred_at'', occ)]
          @ (if ed_Note e = [] then [] else [(''note'', JStr (ed_Note e))]))))"

definition page_json :: "env \<Rightarrow> entry_row list \<Rightarrow> string \<Rightarrow> json option" where
  "page_json E rows nxt =
     map_option (\<lambda>es. JObj [(''entries'', JArr es), (''next_cursor'', JStr nxt)])
       (those (map (\<lambda>r. entry_json (entryDTO E r)) rows))"

text \<open>The cursor of the next page: only after a full page; a full page of no rows indexes row \<open>-1\<close>.\<close>

definition next_cursor :: "env \<Rightarrow> int \<Rightarrow> entry_row list \<Rightarrow> string option" where
  "next_cursor E limit rows =
     (if int (length rows) = limit then
        (if rows = [] then None
         else Some (encodeCursor (go_time E (en_occurred_at (last rows))) (en_posting_id (last rows))))
      else Some [])"

definition page_limit :: "request \<Rightarrow> int" where
  "page_limit rq = (let limit = parseInt rq ''limit'' 20 in if 100 < limit then 100 else limit)"

definition ListAccountEntries_handler :: "env \<Rightarrow> handler" where
  "ListAccountEntries_handler E rq w =
     (case user_of rq of None \<Rightarrow> (unauthorized, w) | Some uid \<Rightarrow>
      case path_id rq of None \<Rightarrow> (http_Error ''invalid account id'' 400, w) | Some accID \<Rightarrow>
      case ownedAccount uid accID w of
        (Inl e, w1) \<Rightarrow> (writeServiceError e, w1)
      | (Inr _, w1) \<Rightarrow>
          let limit = page_limit rq
          in case decodeCursor (rq_query rq ''cursor'') of
               None \<Rightarrow> (http_Error ''invalid cursor'' 400, w1)
             | Some (cursorT, cursorID) \<Rightarrow>
                 (case run (ListAccountEntries accID (pg_time cursorT) cursorID (int32 limit)) w1 of
                    (Inl _, w2) \<Rightarrow> (http_Error ''db error'' 500, w2)
                  | (Inr rows, w2) \<Rightarrow>
                      (case next_cursor E limit rows of
                         None \<Rightarrow> (Panic, w2)
                       | Some nxt \<Rightarrow> (writeJSON 200 (page_json E rows nxt), w2))))"

section \<open>Keyset order\<close>

definition newer :: "entry_row \<Rightarrow> entry_row \<Rightarrow> bool" where
  "newer a b \<longleftrightarrow> before_cursor (en_occurred_at a) (en_posting_id a) b"

lemma newer_eq: "before_cursor (en_occurred_at a) (en_posting_id a) = newer a"
  by (simp add: newer_def fun_eq_iff)

lemma newer_trans: "newer a b \<Longrightarrow> newer b c \<Longrightarrow> newer a c"
  by (auto simp: newer_def before_cursor_def)

lemma newer_irrefl: "\<not> newer a a"
  by (simp add: newer_def before_cursor_def)

lemma newer_before: "newer a b \<Longrightarrow> before_cursor t i a \<Longrightarrow> before_cursor t i b"
  by (auto simp: newer_def before_cursor_def)

lemma newest_first_set [simp]: "set (newest_first es) = set es" and newest_first_length [simp]: "length (newest_first es) = length es"
  by (simp_all add: newest_first_def)

lemma filter_newest_first: "filter P (newest_first es) = newest_first (filter P es)"
  by (simp add: newest_first_def filter_sort)

lemma sort_key_stable_wrt:
  assumes "sorted_wrt R xs"
  shows "sorted_wrt (\<lambda>a b. f a < f b \<or> f a = f b \<and> R a b) (sort_key (f :: 'a \<Rightarrow> int) xs)"
  using assms
proof (induction xs)
  case (Cons x xs)
  have "sorted_wrt (\<lambda>a b. f a < f b \<or> f a = f b \<and> R a b) (insort_key f x ys)"
    if "sorted_wrt (\<lambda>a b. f a < f b \<or> f a = f b \<and> R a b) ys" "\<forall>y\<in>set ys. R x y" for ys
    using that by (induction ys) (auto simp: set_insort_key)
  with Cons show ?case by simp
qed simp

lemma newest_first_newer:
  assumes "distinct (map en_posting_id es)"
  shows "sorted_wrt newer (newest_first es)"
proof -
  let ?ys = "sort_key (\<lambda>e. - en_posting_id e) es"
  have "sorted (map (\<lambda>e. - en_posting_id e) ?ys)" by simp
  moreover have "distinct (map (\<lambda>e. - en_posting_id e) ?ys)"
    using assms by (auto simp: distinct_map inj_on_def)
  ultimately have "sorted_wrt (<) (map (\<lambda>e. - en_posting_id e) ?ys)"
    using strict_sorted_iff by blast
  then have "sorted_wrt (\<lambda>a b. en_posting_id b < en_posting_id a) ?ys" by (simp add: sorted_wrt_map)
  from sort_key_stable_wrt [OF this, of "\<lambda>e. - en_occurred_at e"]
  show ?thesis unfolding newest_first_def newer_def before_cursor_def by (simp add: conj_commute eq_commute)
qed

text \<open>In a list in strict keyset order, what lies before the cursor of row \<open>n\<close> is what follows it.\<close>

lemma keyset_drop:
  assumes "sorted_wrt newer es" and "n < length es"
  shows "filter (before_cursor (en_occurred_at (es ! n)) (en_posting_id (es ! n))) es = drop (Suc n) es"
  using assms
proof (induction es arbitrary: n)
  case (Cons e es)
  show ?case
  proof (cases n)
    case 0
    have "filter (newer e) es = es" using Cons.prems(1) by (simp add: filter_id_conv)
    then show ?thesis using 0 newer_irrefl [of e] by (simp add: newer_eq)
  next
    case (Suc m)
    then have "newer e (es ! m)" using Cons.prems by simp
    then have "\<not> newer (es ! m) e" using newer_trans newer_irrefl by blast
    then show ?thesis using Suc Cons by (simp add: newer_eq)
  qed
qed simp

section \<open>Following the cursors\<close>

text \<open>A client that asks for the first page, then for the page of every cursor it is given, until there is
  none; \<open>None\<close> when a reply is not a page or the number of requests runs out.\<close>

definition at_cursor :: "request \<Rightarrow> string \<Rightarrow> request" where
  "at_cursor rq c = rq\<lparr>rq_query := (rq_query rq)(''cursor'' := c)\<rparr>"

fun read_all :: "env \<Rightarrow> request \<Rightarrow> nat \<Rightarrow> string \<Rightarrow> world \<Rightarrow> json list option" where
  "read_all E rq 0 c w = None"
| "read_all E rq (Suc n) c w =
     (case ListAccountEntries_handler E (at_cursor rq c) w of
        (Reply code (Doc j), w1) \<Rightarrow>
          (case (jfield ''entries'' j, jfield ''next_cursor'' j) of
             (Some (JArr es), Some (JStr nxt)) \<Rightarrow>
               if code \<noteq> 200 then None
               else if nxt = [] then Some es
               else map_option ((@) es) (read_all E rq n nxt w1)
           | _ \<Rightarrow> None)
      | _ \<Rightarrow> None)"

text \<open>What the pages show: the entries before the sentinel of the first page (9999-01-01), newest first. It is the whole of
  the account's entries when none is dated from that day on.\<close>

definition history :: "int \<Rightarrow> database \<Rightarrow> entry_row list" where
  "history aid d = newest_first (filter (before_cursor (pg_time (time_Date 9999 1 1 0 0 0 0 0)) MaxInt64) (account_entries aid d))"

definition shown :: "env \<Rightarrow> entry_row \<Rightarrow> json" where
  "shown E r = the (entry_json (entryDTO E r))"

definition showable :: "env \<Rightarrow> entry_row \<Rightarrow> bool" where
  "showable E r \<longleftrightarrow> time_json (go_time E (en_occurred_at r)) \<noteq> None \<and> in_int64 (en_posting_id r) \<and>
     0 \<le> Year (UTC (go_time E (en_occurred_at r))) \<and> Year (UTC (go_time E (en_occurred_at r))) \<le> 9999"

lemma page_json_shown:
  assumes "\<forall>r\<in>set rows. showable E r"
  shows "page_json E rows nxt = Some (JObj [(''entries'', JArr (map (shown E) rows)), (''next_cursor'', JStr nxt)])"
proof -
  have "entry_json (entryDTO E r) = Some (shown E r)" if "r \<in> set rows" for r
    using assms that by (auto simp: showable_def shown_def entry_json_def entryDTO_def)
  then have "those (map (\<lambda>r. entry_json (entryDTO E r)) rows) = Some (map (shown E) rows)"
    by (rule those_map_Some)
  then show ?thesis by (simp add: page_json_def)
qed

lemma at_cursor_fields [simp]:
  "user_of (at_cursor rq c) = user_of rq" "path_id (at_cursor rq c) = path_id rq"
  "page_limit (at_cursor rq c) = page_limit rq" "rq_query (at_cursor rq c) ''cursor'' = c"
  by (simp_all add: at_cursor_def user_of_def path_id_def page_limit_def parseInt_def)

lemma page_limit_le: "0 \<le> page_limit rq \<and> page_limit rq \<le> 100"
  by (auto simp: page_limit_def parseInt_def Let_def split: option.splits)

text \<open>One page at a cursor, for an owner and without faults.\<close>

definition owns :: "request \<Rightarrow> int \<Rightarrow> database \<Rightarrow> bool" where
  "owns rq aid d \<longleftrightarrow> path_id rq = Some aid \<and>
     (case find (\<lambda>a. a_id a = aid) (accounts d) of None \<Rightarrow> False | Some a \<Rightarrow> user_of rq = Some (a_user_id a))"

lemma handler_page:
  assumes "healthy w" and o: "owns rq aid (db w)" and c: "decodeCursor c = Some (t, i)"
    and rows: "rows = take (nat (page_limit rq)) (newest_first (filter (before_cursor (pg_time t) i) (account_entries aid (db w))))"
    and n: "next_cursor E (page_limit rq) rows = Some nxt" and s: "\<forall>r\<in>set rows. showable E r"
  shows "ListAccountEntries_handler E (at_cursor rq c) w =
     (Reply 200 (Doc (JObj [(''entries'', JArr (map (shown E) rows)), (''next_cursor'', JStr nxt)])), w)"
proof -
  obtain acc where a: "find (\<lambda>a. a_id a = aid) (accounts (db w)) = Some acc" "user_of rq = Some (a_user_id acc)" "path_id rq = Some aid"
    using o by (auto simp: owns_def split: option.splits)
  have w: "ownedAccount (a_user_id acc) aid w = (Inr acc, w)"
    using assms(1) a(1) by (simp add: ownedAccount_def healthy_def run_healthy GetAccount_def read_only_def)
  have l: "int32 (page_limit rq) = page_limit rq" using page_limit_le [of rq] by (intro int32_small) auto
  have "run (ListAccountEntries aid (pg_time t) i (page_limit rq)) w = (Inr rows, w)"
    using assms(1) page_limit_le [of rq] by (simp add: rows healthy_def run_healthy ListAccountEntries_def read_only_def)
  then show ?thesis
    by (simp add: ListAccountEntries_handler_def a w c l n Let_def page_json_shown [OF s] writeJSON_def)
qed

lemma distinct_pairs:
  assumes "distinct (map g ps)" and "\<And>p. length (f p) \<le> 1"
  shows "distinct (map (\<lambda>x. g (fst x)) (concat (map (\<lambda>p. map (Pair p) (f p)) ps)))"
  using assms(1)
proof (induction ps)
  case (Cons p ps)
  have "distinct (map (\<lambda>x. g (fst x)) (map (Pair p) (f p)))"
    using assms(2) [of p] by (cases "f p") auto
  with Cons show ?case by (auto simp: image_iff)
qed simp

lemma distinct_joined:
  assumes "ids_ok d"
  shows "distinct (map (\<lambda>x. p_id (fst x)) (joined d))"
proof -
  have "distinct (map p_id (postings d))" using assms by (auto simp: ids_ok_def strict_sorted_iff)
  moreover have "length (filter (\<lambda>t. t_id t = p_transaction_id p) (transactions d)) \<le> 1" for p
    using assms by (intro filter_key_once) (simp add: ids_ok_def)
  ultimately show ?thesis unfolding joined_def by (rule distinct_pairs)
qed

lemma distinct_account_entries:
  assumes "ids_ok d"
  shows "distinct (map en_posting_id (account_entries aid d))"
proof -
  have "distinct (map en_posting_id (map entry_of (joined d)))"
    using distinct_joined [OF assms] by (simp add: o_def entry_of_def case_prod_unfold)
  then show ?thesis unfolding account_entries_def by (rule distinct_map_filter)
qed

lemma history_newer: "ids_ok d \<Longrightarrow> sorted_wrt newer (history aid d)"
  unfolding history_def
  by (intro newest_first_newer distinct_map_filter distinct_account_entries)

text \<open>After row \<open>n\<close> of the history, the rows before its cursor are the rest of the history.\<close>

lemma history_after:
  assumes "ids_ok d" and "n < length (history aid d)"
  shows "newest_first (filter (newer (history aid d ! n)) (account_entries aid d)) = drop (Suc n) (history aid d)"
proof -
  let ?e = "history aid d ! n" and ?S = "before_cursor (pg_time (time_Date 9999 1 1 0 0 0 0 0)) MaxInt64"
  have "?e \<in> set (history aid d)" using assms(2) by simp
  then have e: "?S ?e" by (simp add: history_def)
  have "filter (newer ?e) (filter ?S (account_entries aid d)) = filter (newer ?e) (account_entries aid d)"
    unfolding filter_filter using newer_before [OF _ e] by (intro filter_cong) auto
  then have "newest_first (filter (newer ?e) (account_entries aid d)) = filter (newer ?e) (history aid d)"
    unfolding history_def by (simp only: filter_newest_first)
  also have "\<dots> = drop (Suc n) (history aid d)"
    using keyset_drop [OF history_newer [OF assms(1)] assms(2)] by (simp add: newer_eq)
  finally show ?thesis .
qed

lemma read_all_from:
  assumes "healthy w" and "owns rq aid (db w)" and "ids_ok (db w)" and "0 < page_limit rq"
    and "\<forall>r\<in>set (history aid (db w)). showable E r"
    and "decodeCursor c = Some (t, i)" and "k \<le> length (history aid (db w))"
    and "newest_first (filter (before_cursor (pg_time t) i) (account_entries aid (db w))) = drop k (history aid (db w))"
    and "length (history aid (db w)) - k < n"
  shows "read_all E rq n c w = Some (map (shown E) (drop k (history aid (db w))))"
  using assms(6-)
proof (induction n arbitrary: c t i k)
  case (Suc n)
  let ?H = "history aid (db w)" and ?m = "nat (page_limit rq)"
  let ?rows = "take ?m (drop k ?H)"
  have r: "?rows = take ?m (newest_first (filter (before_cursor (pg_time t) i) (account_entries aid (db w))))"
    using Suc.prems(3) by simp
  have s: "\<forall>r\<in>set ?rows. showable E r" using assms(5) by (auto dest!: in_set_takeD in_set_dropD)
  note page = handler_page [OF assms(1,2) Suc.prems(1) r _ s]
  show ?case
  proof (cases "length ?rows = ?m")
    case False
    then have "next_cursor E (page_limit rq) ?rows = Some []" using assms(4) by (auto simp: next_cursor_def)
    moreover have "?rows = drop k ?H" using False by (simp add: min_def split: if_splits)
    ultimately show ?thesis using page by simp
  next
    case True
    let ?j = "k + ?m - 1"
    have m: "0 < ?m" using assms(4) by simp
    have len: "?m \<le> length (drop k ?H)" using True by (simp add: min_def split: if_splits)
    then have j: "?j < length ?H" using m by (simp add: le_diff_conv2)
    have lst: "last ?rows = ?H ! ?j" and ne: "?rows \<noteq> []" using len m by (auto simp: last_conv_nth min_def)
    have e: "showable E (?H ! ?j)" using assms(5) j by simp
    let ?nxt = "encodeCursor (go_time E (en_occurred_at (?H ! ?j))) (en_posting_id (?H ! ?j))"
    have nc: "next_cursor E (page_limit rq) ?rows = Some ?nxt"
      unfolding next_cursor_def lst using True ne assms(4) by simp
    have d: "decodeCursor ?nxt = Some (UTC (go_time E (en_occurred_at (?H ! ?j))), en_posting_id (?H ! ?j))"
      using e by (intro cursor_roundtrip) (auto simp: showable_def)
    have nz: "?nxt \<noteq> []" using fmt_int_chars by (simp add: encodeCursor_def b64_encode_Nil)
    have "pg_time (UTC (go_time E (en_occurred_at (?H ! ?j)))) = en_occurred_at (?H ! ?j)"
      by (simp add: pg_time_def go_time_def UTC_def)
    then have "newest_first (filter (before_cursor (pg_time (UTC (go_time E (en_occurred_at (?H ! ?j))))) (en_posting_id (?H ! ?j)))
        (account_entries aid (db w))) = drop (k + ?m) ?H"
      using history_after [OF assms(3) j] m by (simp add: newer_eq)
    then have "read_all E rq n ?nxt w = Some (map (shown E) (drop (k + ?m) ?H))"
      using Suc.prems(2,4) len m j by (intro Suc.IH [OF d]) auto
    moreover have "?rows @ drop (k + ?m) ?H = drop k ?H"
      using append_take_drop_id [of ?m "drop k ?H"] by (simp add: add.commute)
    ultimately show ?thesis using page [OF nc] nz by (simp flip: map_append)
  qed
qed simp

lemma history_whole:
  assumes "\<forall>r\<in>set (account_entries aid d). en_occurred_at r < 253370764800000000"
  shows "history aid d = newest_first (account_entries aid d)"
proof -
  have "pg_time (time_Date 9999 1 1 0 0 0 0 0) = 253370764800000000" by code_simp
  then show ?thesis using assms by (auto simp: history_def before_cursor_def intro!: arg_cong [where f = newest_first] filter_True)
qed

text \<open>C23. Following the cursors from the first page, with any page size from 1 (sizes over 100 count as 100),
  shows the owner of an account every entry that lies before the sentinel cursor of the first page (dated before
  9999-01-01 00:00 UTC) exactly once and newest first, when no database fault occurs: the pages neither skip nor repeat
  a row, also among rows of the same instant. \<open>history\<close> is exactly the set of these entries, in strictly descending order
  of time and posting id; an entry dated later, which the service accepts, is on no page.\<close>

theorem read_all_history:
  assumes "healthy w" and "owns rq aid (db w)" and "ledger_ok (db w)" and "0 < page_limit rq"
    and "\<forall>r\<in>set (history aid (db w)). showable E r"
  shows "read_all E rq (Suc (length (history aid (db w)))) [] w = Some (map (shown E) (history aid (db w))) \<and>
     set (history aid (db w)) = {r \<in> set (account_entries aid (db w)). before_cursor 253370764800000000 MaxInt64 r} \<and>
     sorted_wrt newer (history aid (db w))"
proof -
  have i: "ids_ok (db w)" using assms(3) by (simp add: ledger_ok_def)
  have s: "pg_time (time_Date 9999 1 1 0 0 0 0 0) = 253370764800000000" by code_simp
  have d: "decodeCursor [] = Some (time_Date 9999 1 1 0 0 0 0 0, MaxInt64)" by (simp add: decodeCursor_def)
  have "read_all E rq (Suc (length (history aid (db w)))) [] w = Some (map (shown E) (drop 0 (history aid (db w))))"
    by (rule read_all_from [OF assms(1,2) i assms(4,5) d]) (simp_all add: history_def)
  then show ?thesis using history_newer [OF i] by (auto simp: history_def s)
qed

definition sample_request :: request where
  "sample_request = \<lparr>rq_user = Some 1, rq_id = ''1'', rq_query = (\<lambda>k. if k = ''limit'' then ''1'' else []),
     rq_header = (\<lambda>_. []), rq_body = None\<rparr>"

text \<open>The sample after income of 500 and a transfer of 200 at the same instant.\<close>

definition sample_world3 :: world where
  "sample_world3 = sample_world2\<lparr>db := db (snd (Transfer sample_env (sample_transfer 200 []) sample_world2))\<rparr>"

theorem read_all_history_witness:
  "map en_posting_id (history 1 (db sample_world3)) = [3, 1] \<and>
   read_all sample_env sample_request 3 [] sample_world3 = Some (map (shown sample_env) (history 1 (db sample_world3)))"
proof -
  have h: "map en_posting_id (history 1 (db sample_world3)) = [3, 1]" by code_simp
  have "healthy sample_world3" by (simp add: healthy_def sample_world3_def sample_world2_def sample_world_def)
  moreover have "owns sample_request 1 (db sample_world3)" by code_simp
  moreover have "ledger_ok (db sample_world3)" by code_simp
  moreover have "0 < page_limit sample_request" by code_simp
  moreover have "\<forall>r\<in>set (history 1 (db sample_world3)). showable sample_env r" by code_simp
  ultimately have "read_all sample_env sample_request (Suc (length (history 1 (db sample_world3)))) [] sample_world3
      = Some (map (shown sample_env) (history 1 (db sample_world3)))"
    using read_all_history by blast
  moreover have "Suc (length (history 1 (db sample_world3))) = 3"
    using arg_cong [OF h, of length] by simp
  ultimately show ?thesis using h by simp
qed

text \<open>C27. A request for pages of no rows by the owner of an account crashes the handler instead of returning a page: the page is
  full with no row, and its last row is taken.\<close>

theorem zero_limit_panics:
  assumes "healthy w" and "owns rq aid (db w)" and "page_limit rq = 0"
  shows "fst (ListAccountEntries_handler E (at_cursor rq []) w) = Panic"
  using assms
  by (auto simp: owns_def ListAccountEntries_handler_def ownedAccount_def healthy_def run_healthy GetAccount_def
      read_only_def decodeCursor_def ListAccountEntries_def Let_def int32_small next_cursor_def split: option.splits)

theorem zero_limit_panics_witness:
  "fst (ListAccountEntries_handler sample_env (at_cursor (sample_request\<lparr>rq_query := (\<lambda>_. ''0'')\<rparr>) []) sample_world2) = Panic"
proof (rule zero_limit_panics)
  show "healthy sample_world2" by (simp add: healthy_def sample_world2_def sample_world_def)
  show "owns (sample_request\<lparr>rq_query := (\<lambda>_. ''0'')\<rparr>) 1 (db sample_world2)" by code_simp
  show "page_limit (sample_request\<lparr>rq_query := (\<lambda>_. ''0'')\<rparr>) = 0" by code_simp
qed

end
