(* ===== verification/Handlers.thy ===== *)
theory Handlers
  imports Entries
begin

text \<open>
  The handlers of internal/transport/http over the transaction, balance and summary services, and
  those for accounts, users and the admin task: decoding, the guards in the order of the code, the call and the reply.
\<close>

section \<open>transactions.go\<close>

definition ReverseTransaction :: "env \<Rightarrow> handler" where
  "ReverseTransaction E rq w =
     (case user_of rq of None \<Rightarrow> (unauthorized, w) | Some uid \<Rightarrow>
      case path_id rq of None \<Rightarrow> (http_Error ''invalid transaction id'' 400, w) | Some txID \<Rightarrow>
      case Reverse E \<lparr>ri_UserID = uid, ri_TransactionID = txID,
                       ri_IdempotencyKey = rq_header rq ''Idempotency-Key''\<rparr> (time_Now E w) w of
        (Inl e, w1) \<Rightarrow> (writeServiceError e, w1)
      | (Inr dto, w1) \<Rightarrow> (writeJSON 201 (dto_json dto), w1))"

record create_body =
  cb_AccountID :: int
  cb_Amount :: int64
  cb_Currency :: string
  cb_OccurredAt :: gtime
  cb_Note :: string

definition decode_create :: "json option \<Rightarrow> create_body option" where
  "decode_create b =
     Option.bind b (\<lambda>j. Option.bind (fields_of j) (\<lambda>fs.
     Option.bind (decode_field 0 id_of_json ''account_id'' fs) (\<lambda>a.
     Option.bind (decode_field 0 amount_of_json ''amount_minor'' fs) (\<lambda>m.
     Option.bind (decode_field [] str_of_json ''currency'' fs) (\<lambda>c.
     Option.bind (decode_field zero_time time_of_json ''occurred_at'' fs) (\<lambda>t.
     Option.bind (decode_field [] str_of_json ''note'' fs) (\<lambda>n.
       Some \<lparr>cb_AccountID = a, cb_Amount = m, cb_Currency = c, cb_OccurredAt = t, cb_Note = n\<rparr>)))))))"

definition CreateTransaction :: "env \<Rightarrow> handler" where
  "CreateTransaction E rq w =
     (case decode_create (rq_body rq) of None \<Rightarrow> (http_Error ''invalid json'' 400, w) | Some body \<Rightarrow>
      case user_of rq of None \<Rightarrow> (unauthorized, w) | Some uid \<Rightarrow>
      if cb_AccountID body = 0 \<or> cb_Currency body = [] \<or> IsZero (cb_OccurredAt body)
      then (http_Error ''account_id, currency and occurred_at are required'' 422, w)
      else case Create E \<lparr>ci_UserID = uid, ci_AccountID = cb_AccountID body, ci_AmountMinor = cb_Amount body,
                          ci_Currency = cb_Currency body, ci_OccurredAt = cb_OccurredAt body,
                          ci_Note = cb_Note body, ci_IdempotencyKey = rq_header rq ''Idempotency-Key''\<rparr> w of
             (Inl e, w1) \<Rightarrow> (writeServiceError e, w1)
           | (Inr dto, w1) \<Rightarrow> (writeJSON 201 (dto_json dto), w1))"

record transfer_body =
  tb_FromAccountID :: int
  tb_ToAccountID :: int
  tb_Amount :: int64
  tb_Currency :: string
  tb_OccurredAt :: gtime
  tb_Note :: string

definition decode_transfer :: "json option \<Rightarrow> transfer_body option" where
  "decode_transfer b =
     Option.bind b (\<lambda>j. Option.bind (fields_of j) (\<lambda>fs.
     Option.bind (decode_field 0 id_of_json ''from_account_id'' fs) (\<lambda>f.
     Option.bind (decode_field 0 id_of_json ''to_account_id'' fs) (\<lambda>a.
     Option.bind (decode_field 0 amount_of_json ''amount_minor'' fs) (\<lambda>m.
     Option.bind (decode_field [] str_of_json ''currency'' fs) (\<lambda>c.
     Option.bind (decode_field zero_time time_of_json ''occurred_at'' fs) (\<lambda>t.
     Option.bind (decode_field [] str_of_json ''note'' fs) (\<lambda>n.
       Some \<lparr>tb_FromAccountID = f, tb_ToAccountID = a, tb_Amount = m, tb_Currency = c,
             tb_OccurredAt = t, tb_Note = n\<rparr>))))))))"

definition CreateTransfer :: "env \<Rightarrow> handler" where
  "CreateTransfer E rq w =
     (case decode_transfer (rq_body rq) of None \<Rightarrow> (http_Error ''invalid json'' 400, w) | Some body \<Rightarrow>
      case user_of rq of None \<Rightarrow> (unauthorized, w) | Some uid \<Rightarrow>
      if tb_FromAccountID body = 0 \<or> tb_ToAccountID body = 0 \<or> tb_Currency body = [] \<or> IsZero (tb_OccurredAt body)
      then (http_Error ''from_account_id, to_account_id, currency and occurred_at are required'' 422, w)
      else case Transfer E \<lparr>ti_UserID = uid, ti_FromAccountID = tb_FromAccountID body,
                            ti_ToAccountID = tb_ToAccountID body, ti_AmountMinor = tb_Amount body,
                            ti_Currency = tb_Currency body, ti_OccurredAt = tb_OccurredAt body,
                            ti_Note = tb_Note body, ti_IdempotencyKey = rq_header rq ''Idempotency-Key''\<rparr> w of
             (Inl e, w1) \<Rightarrow> (writeServiceError e, w1)
           | (Inr dto, w1) \<Rightarrow> (writeJSON 201 (dto_json dto), w1))"

section \<open>accounts.go\<close>

definition account_json :: "account_row \<Rightarrow> json" where
  "account_json a = JObj [(''id'', JNum (a_id a)), (''user_id'', JNum (a_user_id a)), (''name'', JStr (a_name a)),
     (''currency'', JStr (a_currency a)), (''active'', JBool (a_is_active a)), (''kind'', JStr (a_kind a))]"

definition decode_account :: "json option \<Rightarrow> (string \<times> string) option" where
  "decode_account b =
     Option.bind b (\<lambda>j. Option.bind (fields_of j) (\<lambda>fs.
     Option.bind (decode_field [] str_of_json ''name'' fs) (\<lambda>n.
     Option.bind (decode_field [] str_of_json ''currency'' fs) (\<lambda>c. Some (n, c)))))"

definition Accounts_Create :: handler where
  "Accounts_Create rq w =
     (case decode_account (rq_body rq) of None \<Rightarrow> (http_Error ''invalid json'' 400, w) | Some (name, currency) \<Rightarrow>
      case user_of rq of None \<Rightarrow> (unauthorized, w) | Some uid \<Rightarrow>
      if name = [] then (http_Error ''name required'' 422, w)
      else case run (CreateAccount uid name (if currency = [] then ''USD'' else currency)) w of
             (Inl _, w1) \<Rightarrow> (http_Error ''could not create (duplicate name?)'' 409, w1)
           | (Inr row, w1) \<Rightarrow> (writeJSON 201 (Some (account_json row)), w1))"

definition Accounts_List :: handler where
  "Accounts_List rq w =
     (case user_of rq of None \<Rightarrow> (unauthorized, w) | Some uid \<Rightarrow>
      let limit = parseInt rq ''limit'' 20; offset = parseInt rq ''offset'' 0
      in case run (ListAccountsByUser uid (int32 limit) (int32 offset)) w of
           (Inl _, w1) \<Rightarrow> (http_Error ''db error'' 500, w1)
         | (Inr rows, w1) \<Rightarrow> (writeJSON 200 (Some (JArr (map account_json rows))), w1))"

section \<open>users.go\<close>

definition Me :: handler where
  "Me rq w =
     (case user_of rq of None \<Rightarrow> (unauthorized, w) | Some uid \<Rightarrow>
      case run (GetUserByID uid) w of
        (Inl _, w1) \<Rightarrow> (http_Error ''not found'' 404, w1)
      | (Inr row, w1) \<Rightarrow> (writeJSON 200 (Some (JObj [(''id'', JNum (u_id row)), (''email'', JStr (u_email row))])), w1))"

section \<open>balance.go and summary.go\<close>

definition balance_json :: "balance_result \<Rightarrow> json" where
  "balance_json r = JObj [(''account_id'', JNum (br_AccountID r)), (''as_of'', JStr (br_AsOfISO r)),
     (''balance_minor'', JNum (sint (br_Balance r)))]"

definition GetCurrent :: "env \<Rightarrow> handler" where
  "GetCurrent E rq w =
     (case user_of rq of None \<Rightarrow> (unauthorized, w) | Some uid \<Rightarrow>
      case path_id rq of None \<Rightarrow> (http_Error ''invalid account id'' 400, w) | Some accID \<Rightarrow>
      case ownedAccount uid accID w of
        (Inl e, w1) \<Rightarrow> (writeServiceError e, w1)
      | (Inr _, w1) \<Rightarrow>
          (case CurrentBalance accID (time_Now E w1) w1 of
             (Inl _, w2) \<Rightarrow> (http_Error ''db error'' 500, w2)
           | (Inr res, w2) \<Rightarrow> (writeJSON 200 (Some (balance_json res)), w2)))"

definition GetSummary :: "env \<Rightarrow> handler" where
  "GetSummary E rq w =
     (case user_of rq of None \<Rightarrow> (unauthorized, w) | Some uid \<Rightarrow>
      case path_id rq of None \<Rightarrow> (http_Error ''invalid account id'' 400, w) | Some i \<Rightarrow>
      case parse_month (rq_query rq ''month'') of None \<Rightarrow> (http_Error ''month must be YYYY-MM'' 400, w) | Some month \<Rightarrow>
      case ownedAccount uid i w of
        (Inl e, w1) \<Rightarrow> (writeServiceError e, w1)
      | (Inr _, w1) \<Rightarrow>
          (case GetMonthlySummarySvc E i month w1 of
             (Inl _, w2) \<Rightarrow> (http_Error ''db error'' 500, w2)
           | (Inr s, w2) \<Rightarrow> (writeJSON 200 (Some (summary_json s)), w2)))"

section \<open>admin.go\<close>

text \<open>
  \<open>want\<close> is the configured \<open>ADMIN_TOKEN\<close>; \<open>accepts\<close> says whether the task queue takes the task. The result has the tasks
  that were enqueued, a snapshot run with the empty date being the only one.
\<close>

definition RunSnapshotAll :: "string \<Rightarrow> bool \<Rightarrow> request \<Rightarrow> reply \<times> string list" where
  "RunSnapshotAll want accepts rq =
     (if want = [] then (http_Error ''404 page not found'' 404, [])
      else if rq_header rq ''X-Admin-Token'' \<noteq> want then (http_Error ''forbidden'' 403, [])
      else if \<not> accepts then (http_Error ''enqueue failed'' 500, [])
      else (Reply 202 (Text ''enqueued''), [[]]))"

section \<open>Client errors leave no trace\<close>

lemma status_writeServiceError:
  "status (writeServiceError e) \<in> {403, 404, 409, 422, 500}"
  "status (writeServiceError e) = 500 \<longleftrightarrow> e = JsonError \<or> (\<exists>d. e = DbError d)"
  by (cases e; simp add: http_Error_def)+

lemma status_writeJSON [simp]: "status (writeJSON c j) = c" "status (http_Error m c) = c" "status unauthorized = 401"
  by (simp_all add: writeJSON_def http_Error_def unauthorized_def)

lemma service_reply:
  assumes c: "f = (r, w')" and out: "untouched (db w) (db w') \<or> (\<exists>dto. r = Inr dto \<or> r = Inl (DbError ConnectionFailure))"
    and h: "(case f of (Inl e, w1) \<Rightarrow> (writeServiceError e, w1) | (Inr dto, w1) \<Rightarrow> (writeJSON 201 (dto_json dto), w1)) = (rep, v)"
    and s: "status rep \<noteq> 201" "status rep \<noteq> 500"
  shows "untouched (db w) (db v)"
proof (cases r)
  case (Inl e)
  then have "rep = writeServiceError e" "v = w'" using h c by auto
  then show ?thesis using out s(2) status_writeServiceError(2) [of e] Inl by auto
next
  case (Inr dto)
  then show ?thesis using h c s(1) by auto
qed

text \<open>C24. A reply of the three endpoints that record transactions (create, transfer, reverse) that is neither 201 nor 500,
  that is every refusal (400, 401, 403, 404, 409, 422), leaves every table as it was, under any faults.\<close>

theorem refusals_leave_tables:
  assumes "ledger_ok (db w)" and "h \<in> {CreateTransaction E, CreateTransfer E, ReverseTransaction E}"
    and "h rq w = (rep, w')" and "status rep \<noteq> 201" and "status rep \<noteq> 500"
  shows "untouched (db w) (db w')"
proof -
  note idle = ledger_idle [OF assms(1)]
  have c: "untouched (db w) (db (snd (Create E inp w))) \<or>
      (\<exists>dto. fst (Create E inp w) = Inr dto \<or> fst (Create E inp w) = Inl (DbError ConnectionFailure))" for inp
    using Create_outcome [OF surjective_pairing idle] by blast
  have t: "untouched (db w) (db (snd (Transfer E inp w))) \<or>
      (\<exists>dto. fst (Transfer E inp w) = Inr dto \<or> fst (Transfer E inp w) = Inl (DbError ConnectionFailure))" for inp
    using Transfer_outcome [OF surjective_pairing idle] by blast
  have r: "untouched (db w) (db (snd (Reverse E inp at w))) \<or>
      (\<exists>dto. fst (Reverse E inp at w) = Inr dto \<or> fst (Reverse E inp at w) = Inl (DbError ConnectionFailure))" for inp at
    using Reverse_outcome [OF surjective_pairing idle] by blast
  note sr = service_reply [OF surjective_pairing _ _ assms(4,5)]
  from assms(2) consider "h = CreateTransaction E" | "h = CreateTransfer E" | "h = ReverseTransaction E" by blast
  then show ?thesis
  proof cases
    case 1
    then show ?thesis using assms(3-5) sr [OF c] by (auto simp: CreateTransaction_def split: option.splits if_splits)
  next
    case 2
    then show ?thesis using assms(3-5) sr [OF t] by (auto simp: CreateTransfer_def split: option.splits if_splits)
  next
    case 3
    then show ?thesis using assms(3-5) sr [OF r] by (auto simp: ReverseTransaction_def split: option.splits if_splits)
  qed
qed

text \<open>A request to record income on an account that does not exist.\<close>

definition sample_post :: "int \<Rightarrow> request" where
  "sample_post aid = sample_request\<lparr>rq_body := Some (JObj [(''account_id'', JNum aid), (''amount_minor'', JNum 500),
     (''currency'', JStr ''USD''), (''occurred_at'', JStr ''1970-01-01T00:00:00.000003Z''), (''note'', JNull)])\<rparr>"

theorem refusals_leave_tables_witness:
  "status (fst (CreateTransaction sample_env (sample_post 9) sample_world)) = 404 \<and>
   untouched (db sample_world) (db (snd (CreateTransaction sample_env (sample_post 9) sample_world)))"
proof -
  have s: "status (fst (CreateTransaction sample_env (sample_post 9) sample_world)) = 404" by code_simp
  have "ledger_ok (db sample_world)" by code_simp
  from refusals_leave_tables [OF this _ surjective_pairing, of "CreateTransaction sample_env" sample_env "sample_post 9"] s
  show ?thesis by simp
qed

section \<open>Other users' accounts are hidden\<close>



end
