(* ===== verification/RateLimit.thy ===== *)
theory RateLimit
  imports Handlers
begin

text \<open>
  internal/transport/http/ratelimit.go: a token bucket in Redis, refilled by whole seconds, and the middleware in front of
  the handlers. The Lua script runs atomically; it is the function \<open>bucket_script\<close> on the two keys of
  a bucket.
\<close>

section \<open>The limiter\<close>

record rate_limiter =
  capacity :: int
  rate :: int

definition NewRateLimiter :: "int \<Rightarrow> int \<Rightarrow> rate_limiter" where
  "NewRateLimiter c r =
     (let c1 = (if c \<le> 0 then (if r \<le> 0 then 1 else r) else c);
          r1 = (if r \<le> 0 then 1 else r)
      in \<lparr>capacity = c1, rate = r1\<rparr>)"

text \<open>The integers that the script keeps under \<open>key:tokens\<close> and \<open>key:ts\<close>.\<close>

type_synonym counters = "string \<Rightarrow> int option"

record verdict =
  allowed :: bool
  remaining :: int
  reset :: int

definition bucket_script ::
  "rate_limiter \<Rightarrow> int \<Rightarrow> string \<Rightarrow> string \<Rightarrow> counters \<Rightarrow> verdict \<times> counters" where
  "bucket_script rl now tokens_key timestamp_key s =
     (let tokens = (case s tokens_key of None \<Rightarrow> capacity rl | Some n \<Rightarrow> n);
          last_refill = (case s timestamp_key of None \<Rightarrow> now | Some n \<Rightarrow> n);
          delta = max 0 (now - last_refill);
          refill = delta * rate rl;
          tokens1 = min (capacity rl) (tokens + refill);
          last1 = (if refill > 0 then now else last_refill);
          ok = tokens1 > 0;
          tokens2 = (if ok then tokens1 - 1 else tokens1)
      in (\<lparr>allowed = ok, remaining = tokens2, reset = last1 + 1\<rparr>,
          s(tokens_key \<mapsto> tokens2, timestamp_key \<mapsto> last1)))"

text \<open>\<open>time.Now().Unix()\<close>, then the script; an error of Redis leaves the counters alone.\<close>

definition allow :: "rate_limiter \<Rightarrow> string \<Rightarrow> counters \<Rightarrow> world \<Rightarrow> verdict option \<times> counters \<times> world" where
  "allow rl key s w =
     (let now = clock w div 1000000000
      in if redis_fails w then (None, s, next_redis w)
         else case bucket_script rl now (key @ '':tokens'') (key @ '':ts'') s of
                (v, s1) \<Rightarrow> (Some v, s1, next_redis w))"

text \<open>A reply with the headers set before it.\<close>

type_synonym headers = "(string \<times> string) list"

text \<open>\<open>answer\<close> ends the request with a reply, \<open>next\<close> is the rest of the chain; \<open>'r\<close> is what a request does.\<close>

definition middleware ::
  "rate_limiter \<Rightarrow> (request \<Rightarrow> string option) \<Rightarrow> (reply \<Rightarrow> world \<Rightarrow> 'r) \<Rightarrow> (request \<Rightarrow> world \<Rightarrow> 'r) \<Rightarrow>
   request \<Rightarrow> counters \<Rightarrow> world \<Rightarrow> headers \<times> 'r \<times> counters" where
  "middleware rl keyFn answer next rq s w =
     (case keyFn rq of
        None \<Rightarrow> ([], answer unauthorized w, s)
      | Some k \<Rightarrow>
          (case allow rl (''ratelimit:'' @ k) s w of
             (None, s1, w1) \<Rightarrow> ([], answer (http_Error ''rate limiter unavailable'' 503) w1, s1)
           | (Some v, s1, w1) \<Rightarrow>
               let hs = [(''X-RateLimit-Limit'', fmt_int (capacity rl)),
                         (''X-RateLimit-Remaining'', fmt_int (remaining v)),
                         (''X-RateLimit-Reset'', fmt_int (reset v))]
               in if \<not> allowed v then (hs, answer (http_Error ''too many requests'' 429) w1, s1)
                  else (hs, next rq w1, s1)))"

text \<open>The keys: the user id of the context, and the host of the peer address (\<open>net.SplitHostPort\<close> is a
  function of the environment, the address itself when it fails).\<close>

definition user_key :: "request \<Rightarrow> string option" where
  "user_key rq = (case rq_user rq of None \<Rightarrow> None | Some uid \<Rightarrow> Some (''user:'' @ fmt_int uid))"

definition ip_key :: "(string \<Rightarrow> string option) \<Rightarrow> string \<Rightarrow> request \<Rightarrow> string option" where
  "ip_key splitHostPort remoteAddr rq =
     Some (''ip:'' @ (case splitHostPort remoteAddr of None \<Rightarrow> remoteAddr | Some host \<Rightarrow> host))"

definition Middleware where
  "Middleware rl = middleware rl user_key"

definition IPMiddleware where
  "IPMiddleware splitHostPort remoteAddr rl = middleware rl (ip_key splitHostPort remoteAddr)"

section \<open>One bucket\<close>

text \<open>The tokens and the time of the last refill that a request at \<open>now\<close> finds.\<close>

definition level :: "rate_limiter \<Rightarrow> string \<Rightarrow> counters \<Rightarrow> int" where
  "level rl key s = (case s (key @ '':tokens'') of None \<Rightarrow> capacity rl | Some n \<Rightarrow> n)"

definition refilled :: "string \<Rightarrow> int \<Rightarrow> counters \<Rightarrow> int" where
  "refilled key now s = (case s (key @ '':ts'') of None \<Rightarrow> now | Some n \<Rightarrow> n)"

definition limiter_ok :: "rate_limiter \<Rightarrow> bool" where
  "limiter_ok rl \<longleftrightarrow> 0 < capacity rl \<and> 0 < rate rl"

definition bucket_ok :: "rate_limiter \<Rightarrow> string \<Rightarrow> counters \<Rightarrow> bool" where
  "bucket_ok rl key s \<longleftrightarrow> 0 \<le> level rl key s \<and> level rl key s \<le> capacity rl"

lemma NewRateLimiter_ok: "limiter_ok (NewRateLimiter c r)"
  by (simp add: NewRateLimiter_def limiter_ok_def Let_def)

lemma bucket_keys [simp]: "(key @ '':ts'') \<noteq> (key @ '':tokens'')" "(key @ '':tokens'') \<noteq> (key @ '':ts'')"
  by simp_all

lemma script_step:
  assumes "bucket_script rl now (key @ '':tokens'') (key @ '':ts'') s = (v, s')" and "limiter_ok rl" and "bucket_ok rl key s"
  defines "full \<equiv> min (capacity rl) (level rl key s + max 0 (now - refilled key now s) * rate rl)"
  shows "allowed v \<longleftrightarrow> 0 < full"
    and "level rl key s' = full - (if allowed v then 1 else 0)"
    and "s' (key @ '':ts'') = Some (max now (refilled key now s))"
    and "bucket_ok rl key s'"
proof -
  have r: "(0 < max 0 (now - refilled key now s) * rate rl) \<longleftrightarrow> refilled key now s < now"
    using assms(2) by (auto simp: limiter_ok_def zero_less_mult_iff)
  have v: "v = \<lparr>allowed = 0 < full, remaining = (if 0 < full then full - 1 else full), reset = (if refilled key now s < now then now else refilled key now s) + 1\<rparr>"
    and s': "s' = s(key @ '':tokens'' \<mapsto> (if 0 < full then full - 1 else full), key @ '':ts'' \<mapsto> (if refilled key now s < now then now else refilled key now s))"
    using assms(1) unfolding bucket_script_def Let_def full_def level_def refilled_def r [unfolded refilled_def, simplified] by auto
  show a: "allowed v \<longleftrightarrow> 0 < full" by (simp add: v)
  show l: "level rl key s' = full - (if allowed v then 1 else 0)" by (simp add: s' a level_def)
  show "s' (key @ '':ts'') = Some (max now (refilled key now s))" by (simp add: s')
  have "0 \<le> max 0 (now - refilled key now s) * rate rl" using assms(2) by (simp add: limiter_ok_def)
  then have "0 \<le> full" "full \<le> capacity rl" using assms(2,3) by (auto simp: full_def bucket_ok_def limiter_ok_def)
  then show "bucket_ok rl key s'" using l a by (auto simp: bucket_ok_def)
qed

section \<open>The rate\<close>

text \<open>
  A sequence of requests, each with its bucket and the world (time, faults of Redis) it meets; how many of them the
  bucket \<open>k\<close> admits.
\<close>

definition seconds :: "world \<Rightarrow> int" where
  "seconds w = clock w div 1000000000"

definition admitted :: "verdict option \<Rightarrow> bool" where
  "admitted v = (case v of None \<Rightarrow> False | Some x \<Rightarrow> allowed x)"

fun served :: "rate_limiter \<Rightarrow> string \<Rightarrow> (string \<times> world) list \<Rightarrow> counters \<Rightarrow> int" where
  "served rl k [] s = 0"
| "served rl k ((k', w) # qs) s =
     (case allow rl k' s w of (v, s1, _) \<Rightarrow> (if k' = k \<and> admitted v then 1 else 0) + served rl k qs s1)"

lemma tokens_ts_differ: "k @ '':tokens'' \<noteq> k' @ '':ts''"
proof
  assume "k @ '':tokens'' = k' @ '':ts''"
  then have "rev (k @ '':tokens'') = rev (k' @ '':ts'')" by simp
  then show False by simp
qed

text \<open>A request to another bucket, or one that Redis fails, changes nothing here.\<close>

lemma allow_other:
  assumes "allow rl k' s w = (v, s1, w1)" and "k' \<noteq> k \<or> v = None"
  shows "s1 (k @ '':tokens'') = s (k @ '':tokens'') \<and> s1 (k @ '':ts'') = s (k @ '':ts'')"
  using assms tokens_ts_differ [of k' k] tokens_ts_differ [of k k']
  by (auto simp: allow_def bucket_script_def Let_def split: if_splits)

lemma allow_own:
  assumes "allow rl k s w = (Some v, s1, w1)" and "limiter_ok rl" and "bucket_ok rl k s"
  defines "full \<equiv> min (capacity rl) (level rl k s + max 0 (seconds w - refilled k (seconds w) s) * rate rl)"
  shows "level rl k s1 = full - (if allowed v then 1 else 0)"
    and "s1 (k @ '':ts'') = Some (max (seconds w) (refilled k (seconds w) s))"
    and "bucket_ok rl k s1" and "allowed v \<longleftrightarrow> 0 < full"
proof -
  have "bucket_script rl (seconds w) (k @ '':tokens'') (k @ '':ts'') s = (v, s1)"
    using assms(1) by (auto simp: allow_def seconds_def Let_def split: if_splits prod.splits)
  from script_step [OF this assms(2,3)] show
    "level rl k s1 = full - (if allowed v then 1 else 0)" "s1 (k @ '':ts'') = Some (max (seconds w) (refilled k (seconds w) s))"
    "bucket_ok rl k s1" "allowed v \<longleftrightarrow> 0 < full" unfolding full_def by blast+
qed

lemma same_bucket:
  assumes "s1 (k @ '':tokens'') = s (k @ '':tokens'')" and "s1 (k @ '':ts'') = s (k @ '':ts'')"
  shows "bucket_ok rl k s1 = bucket_ok rl k s" "level rl k s1 = level rl k s" "refilled k t s1 = refilled k t s"
  using assms by (simp_all add: bucket_ok_def level_def refilled_def)

text \<open>The potential argument: tokens in the bucket plus what the time until \<open>T\<close> can still add.\<close>

lemma served_potential:
  assumes "limiter_ok rl" and "bucket_ok rl k s" and "s (k @ '':ts'') = Some L"
    and "\<forall>q\<in>set qs. fst q = k \<longrightarrow> seconds (snd q) \<le> T"
  shows "served rl k qs s \<le> level rl k s + rate rl * (max T L - L)"
  using assms(2-4)
proof (induction qs arbitrary: s L)
  case Nil
  then show ?case using assms(1) by (simp add: bucket_ok_def limiter_ok_def)
next
  case (Cons q qs)
  obtain k' w where q: "q = (k', w)" by force
  obtain v s1 w1 where a: "allow rl k' s w = (v, s1, w1)" by (metis surj_pair)
  have tl: "\<forall>q\<in>set qs. fst q = k \<longrightarrow> seconds (snd q) \<le> T" using Cons.prems(3) by simp
  show ?case
  proof (cases "k' = k \<and> v \<noteq> None")
    case False
    with allow_other [OF a, of k] have e: "s1 (k @ '':tokens'') = s (k @ '':tokens'')" "s1 (k @ '':ts'') = s (k @ '':ts'')" by auto
    then have "served rl k qs s1 \<le> level rl k s1 + rate rl * (max T L - L)"
      using Cons.prems(1,2) tl e by (intro Cons.IH) (simp_all add: same_bucket(1) [OF e])
    then show ?thesis using False same_bucket [OF e] by (auto simp: q a admitted_def)
  next
    case True
    then obtain x where v: "v = Some x" and k': "k' = k" by auto
    let ?t = "seconds w"
    have t: "?t \<le> T" using Cons.prems(3) by (simp add: q k')
    have r: "refilled k ?t s = L" using Cons.prems(2) by (simp add: refilled_def)
    note o = allow_own [OF a [unfolded v k'] assms(1) Cons.prems(1), unfolded r]
    have "served rl k qs s1 \<le> level rl k s1 + rate rl * (max T (max ?t L) - max ?t L)"
      using o(3) o(2) tl by (rule Cons.IH)
    moreover have "max T (max ?t L) = max T L" using t by simp
    moreover have "level rl k s1 + (if allowed x then 1 else 0) \<le> level rl k s + rate rl * max 0 (?t - L)"
      using o(1) by (simp add: mult.commute)
    moreover have "rate rl * max 0 (?t - L) + rate rl * (max T L - max ?t L) = rate rl * (max T L - L)"
      by (simp add: max_def algebra_simps)
    moreover have "served rl k (q # qs) s = (if allowed x then 1 else 0) + served rl k qs s1"
      using a [unfolded v k'] by (simp add: q k' admitted_def)
    ultimately show ?thesis by simp
  qed
qed

text \<open>C31. The limiter keeps its rate: whatever the requests and their order, whatever other buckets are used and however often Redis
  fails, between two times one bucket admits at most its burst capacity plus the refill rate times the seconds
  between them.\<close>

theorem served_rate_bound:
  assumes "rl = NewRateLimiter c r" and "bucket_ok rl k s" and "t \<le> T"
    and "\<forall>q\<in>set qs. fst q = k \<longrightarrow> t \<le> seconds (snd q) \<and> seconds (snd q) \<le> T"
  shows "served rl k qs s \<le> capacity rl + rate rl * (T - t)"
  using assms(2,4)
proof (induction qs arbitrary: s)
  case Nil
  then show ?case using NewRateLimiter_ok [of c r] assms(1,3) by (simp add: limiter_ok_def)
next
  case (Cons q qs)
  have ok: "limiter_ok rl" using assms(1) NewRateLimiter_ok by simp
  obtain k' w where q: "q = (k', w)" by force
  obtain v s1 w1 where a: "allow rl k' s w = (v, s1, w1)" by (metis surj_pair)
  show ?case
  proof (cases "k' = k \<and> v \<noteq> None")
    case False
    with allow_other [OF a, of k] have e: "s1 (k @ '':tokens'') = s (k @ '':tokens'')" "s1 (k @ '':ts'') = s (k @ '':ts'')" by auto
    then have "served rl k qs s1 \<le> capacity rl + rate rl * (T - t)"
      using Cons.prems by (intro Cons.IH) (simp_all add: same_bucket(1) [OF e])
    then show ?thesis using False by (auto simp: q a admitted_def)
  next
    case True
    then obtain x where v: "v = Some x" and k': "k' = k" by auto
    let ?t = "seconds w" and ?L = "refilled k (seconds w) s"
    have t: "t \<le> ?t" "?t \<le> T" using Cons.prems(2) by (simp_all add: q k')
    note o = allow_own [OF a [unfolded v k'] ok Cons.prems(1)]
    have "\<forall>q\<in>set qs. fst q = k \<longrightarrow> seconds (snd q) \<le> T" using Cons.prems(2) by simp
    from served_potential [OF ok o(3) o(2) this]
    have "served rl k qs s1 \<le> level rl k s1 + rate rl * (max T (max ?t ?L) - max ?t ?L)" .
    moreover have "max T (max ?t ?L) - max ?t ?L \<le> T - t" using t by (auto simp: max_def)
    then have "rate rl * (max T (max ?t ?L) - max ?t ?L) \<le> rate rl * (T - t)"
      using ok by (intro mult_left_mono) (simp_all add: limiter_ok_def)
    moreover have "level rl k s1 + (if allowed x then 1 else 0) \<le> capacity rl" using o(1) by simp
    moreover have "served rl k (q # qs) s = (if allowed x then 1 else 0) + served rl k qs s1"
      using a [unfolded v k'] by (simp add: q k' admitted_def)
    ultimately show ?thesis by simp
  qed
qed

text \<open>A burst of five requests in one second against a bucket of three, with a failure of Redis in between.\<close>

definition sample_burst :: "(string \<times> world) list" where
  "sample_burst = [(''u'', sample_world), (''v'', sample_world), (''u'', sample_world), (''u'', sample_world\<lparr>redis_faults := [True]\<rparr>),
     (''u'', sample_world), (''u'', sample_world)]"

theorem served_rate_bound_witness:
  "served (NewRateLimiter 3 1) ''u'' sample_burst (\<lambda>_. None) = 3 \<and>
   served (NewRateLimiter 3 1) ''u'' sample_burst (\<lambda>_. None) \<le> 3 + 1 * (0 - 0)"
proof -
  have "bucket_ok (NewRateLimiter 3 1) ''u'' (\<lambda>_. None)" by code_simp
  moreover have "\<forall>q\<in>set sample_burst. fst q = ''u'' \<longrightarrow> 0 \<le> seconds (snd q) \<and> seconds (snd q) \<le> 0" by code_simp
  ultimately have "served (NewRateLimiter 3 1) ''u'' sample_burst (\<lambda>_. None)
      \<le> capacity (NewRateLimiter 3 1) + rate (NewRateLimiter 3 1) * (0 - 0)"
    by (intro served_rate_bound [where c = 3 and r = 1]) auto
  moreover have "served (NewRateLimiter 3 1) ''u'' sample_burst (\<lambda>_. None) = 3" by code_simp
  ultimately show ?thesis by simp
qed

text \<open>C32. Nobody is locked out: after a verdict, the next request to the same bucket, when it comes at or after the reset time that the
  verdict advertised and Redis answers both, is admitted, whatever the bucket held. (Later requests at that time depend on the tokens left.)\<close>

theorem reset_is_honest:
  assumes "rl = NewRateLimiter c r" and "bucket_ok rl k s"
    and "allow rl k s w = (Some v, s1, w1)" and "allow rl k s1 w2 = (Some v', s2, w3)" and "reset v \<le> seconds w2"
  shows "allowed v'"
proof -
  have ok: "limiter_ok rl" using assms(1) NewRateLimiter_ok by simp
  note o = allow_own [OF assms(3) ok assms(2)]
  have "reset v = max (seconds w) (refilled k (seconds w) s) + 1"
    using assms(3) ok by (auto simp: allow_def bucket_script_def Let_def refilled_def seconds_def limiter_ok_def
        zero_less_mult_iff max_def split: if_splits option.splits)
  moreover have "refilled k (seconds w2) s1 = max (seconds w) (refilled k (seconds w) s)"
    unfolding refilled_def [of k "seconds w2" s1] o(2) by simp
  ultimately have later: "refilled k (seconds w2) s1 < seconds w2" using assms(5) by linarith
  have "0 \<le> level rl k s1" using o(3) by (simp add: bucket_ok_def)
  moreover have "0 < (seconds w2 - refilled k (seconds w2) s1) * rate rl" using later ok by (simp add: limiter_ok_def)
  moreover have "max 0 (seconds w2 - refilled k (seconds w2) s1) = seconds w2 - refilled k (seconds w2) s1"
    using later by simp
  ultimately show ?thesis using allow_own(4) [OF assms(4) ok o(3)] ok by (simp add: limiter_ok_def)
qed

theorem reset_is_honest_witness:
  "allowed (the (fst (allow (NewRateLimiter 1 1) ''u'' (fst (snd (allow (NewRateLimiter 1 1) ''u'' (\<lambda>_. None) sample_world)))
     (sample_world\<lparr>clock := 1000000000\<rparr>))))"
proof -
  let ?rl = "NewRateLimiter 1 1" and ?w2 = "sample_world\<lparr>clock := 1000000000\<rparr>"
  obtain v s1 w1 where a: "allow ?rl ''u'' (\<lambda>_. None) sample_world = (v, s1, w1)" by (metis surj_pair)
  obtain v' s2 w3 where b: "allow ?rl ''u'' s1 ?w2 = (v', s2, w3)" by (metis surj_pair)
  have s1: "s1 = fst (snd (allow ?rl ''u'' (\<lambda>_. None) sample_world))" by (simp add: a)
  have "map_option reset (fst (allow ?rl ''u'' (\<lambda>_. None) sample_world)) = Some 1" by code_simp
  then obtain x where v: "v = Some x" "reset x = 1" by (auto simp: a)
  have "fst (allow ?rl ''u'' s1 ?w2) \<noteq> None"
    by (simp add: allow_def redis_fails_def sample_world_def Let_def split: prod.split)
  then obtain y where v': "v' = Some y" by (auto simp: b)
  have "bucket_ok ?rl ''u'' (\<lambda>_. None)" by code_simp
  moreover have "reset x \<le> seconds ?w2" by (simp add: v seconds_def)
  ultimately have "allowed y" using reset_is_honest [OF refl _ a [unfolded v(1)] b [unfolded v']] by blast
  then show ?thesis using b s1 v' by simp
qed

end
