(* ===== verification/Auth.thy ===== *)
theory Auth
  imports RateLimit
begin

text \<open>
  Accounts of users and their tokens: internal/service/auth.go, internal/transport/http/auth.go and middleware.go.

  Password hashing and the token format are libraries (bcrypt, golang-jwt). They appear as parameters: \<open>hash pw\<close> is the
  outcome of \<open>GenerateFromPassword\<close>, \<open>check h pw\<close> says whether \<open>CompareHashAndPassword\<close> returns no error, \<open>sign\<close> is
  \<open>SignedString\<close> with HS256, and \<open>verify secret now tok\<close> are the claims that \<open>jwt.Parse\<close> accepts at a time in seconds with the
  options of the code (HS256 only, expiration required). Numbers among the claims are the integral floats of \<open>encoding/json\<close>.
\<close>

record libs =
  hash :: "string \<Rightarrow> string option"
  check :: "string \<Rightarrow> string \<Rightarrow> bool"
  sign :: "string \<Rightarrow> json \<Rightarrow> string option"
  verify :: "string \<Rightarrow> int \<Rightarrow> string \<Rightarrow> json option"

section \<open>The service\<close>

text \<open>The signing key is a package variable, empty until \<open>InitAuth\<close>.\<close>

definition InitAuth :: "string \<Rightarrow> string option" where
  "InitAuth secret = (if secret = [] then None else Some secret)"

text \<open>The choice of the key in \<open>main\<close>: a missing key is fatal outside the environment \<open>dev\<close>.\<close>

definition signing_key :: "string \<Rightarrow> string \<Rightarrow> string option" where
  "signing_key env key =
     (if key = [] then (if env \<noteq> ''dev'' then None else InitAuth ''dev-only-insecure-secret'') else InitAuth key)"

definition claims :: "int \<Rightarrow> int \<Rightarrow> json" where
  "claims uid expires = JObj [(''user_id'', JNum uid), (''exp'', JNum expires)]"

definition GenerateJWT :: "libs \<Rightarrow> string \<Rightarrow> int \<Rightarrow> world \<Rightarrow> string option" where
  "GenerateJWT L secret uid w =
     (if secret = [] then None
      else sign L secret (claims uid ((clock w + 24 * 3600 * 1000000000) div 1000000000)))"

text \<open>The conversion of an out-of-range float to \<open>int64\<close> gives the least value (on amd64).\<close>

definition ParseJWT :: "libs \<Rightarrow> string \<Rightarrow> string \<Rightarrow> world \<Rightarrow> int option" where
  "ParseJWT L secret tok w =
     (if secret = [] then None
      else case verify L secret (seconds w) tok of
             None \<Rightarrow> None
           | Some c \<Rightarrow>
               (case jfield ''user_id'' c of
                  Some (JNum i) \<Rightarrow> if i \<le> 0 then None else Some (if in_int64 i then i else - (2 ^ 63))
                | _ \<Rightarrow> None))"

section \<open>Registration and login\<close>

record credentials =
  cr_Email :: string
  cr_Password :: string

definition decode_credentials :: "json option \<Rightarrow> credentials option" where
  "decode_credentials b =
     Option.bind b (\<lambda>j. Option.bind (fields_of j) (\<lambda>fs.
     Option.bind (decode_field [] str_of_json ''email'' fs) (\<lambda>e.
     Option.bind (decode_field [] str_of_json ''password'' fs) (\<lambda>p.
       Some \<lparr>cr_Email = e, cr_Password = p\<rparr>))))"

definition normal_email :: "string \<Rightarrow> string" where
  "normal_email e = TrimSpace (ToLower e)"

text \<open>The normalised credentials and the message, empty when they are valid.\<close>

definition validate :: "credentials \<Rightarrow> credentials \<times> string" where
  "validate c =
     (let c1 = c\<lparr>cr_Email := normal_email (cr_Email c)\<rparr>
      in if cr_Email c1 = [] \<or> CHR ''@'' \<notin> set (cr_Email c1) then (c1, ''valid email required'')
         else if length (cr_Password c1) < 8 then (c1, ''password must be at least 8 characters'')
         else (c1, []))"

definition token_json :: "string \<Rightarrow> json" where
  "token_json tok = JObj [(''token'', JStr tok)]"

definition Register :: "libs \<Rightarrow> string \<Rightarrow> handler" where
  "Register L secret rq w =
     (case decode_credentials (rq_body rq) of None \<Rightarrow> (http_Error ''invalid json'' 400, w) | Some raw \<Rightarrow>
      case validate raw of (body, msg) \<Rightarrow>
      if msg \<noteq> [] then (http_Error msg 422, w) else
      case hash L (cr_Password body) of None \<Rightarrow> (http_Error ''internal error'' 500, w) | Some h \<Rightarrow>
      case run (CreateUser (cr_Email body) h) w of
        (Inl _, w1) \<Rightarrow> (http_Error ''email already registered'' 409, w1)
      | (Inr u, w1) \<Rightarrow>
          (case GenerateJWT L secret (u_id u) w1 of
             None \<Rightarrow> (http_Error ''internal error'' 500, w1)
           | Some tok \<Rightarrow> (writeJSON 201 (Some (token_json tok)), w1)))"

definition Login :: "libs \<Rightarrow> string \<Rightarrow> handler" where
  "Login L secret rq w =
     (case decode_credentials (rq_body rq) of None \<Rightarrow> (http_Error ''invalid json'' 400, w) | Some body \<Rightarrow>
      case run (GetUserByEmail (normal_email (cr_Email body))) w of
        (Inl _, w1) \<Rightarrow> (http_Error ''invalid credentials'' 401, w1)
      | (Inr u, w1) \<Rightarrow>
          if \<not> check L (u_password_hash u) (cr_Password body) then (http_Error ''invalid credentials'' 401, w1)
          else (case GenerateJWT L secret (u_id u) w1 of
                  None \<Rightarrow> (http_Error ''internal error'' 500, w1)
                | Some tok \<Rightarrow> (writeJSON 200 (Some (token_json tok)), w1)))"

section \<open>The middleware\<close>

text \<open>\<open>answer\<close> ends the request with a reply, \<open>next\<close> is the rest of the chain.\<close>

definition AuthMiddleware :: "libs \<Rightarrow> string \<Rightarrow> (reply \<Rightarrow> 'r) \<Rightarrow> (request \<Rightarrow> 'r) \<Rightarrow> request \<Rightarrow> world \<Rightarrow> 'r" where
  "AuthMiddleware L secret answer next rq w =
     (let h = rq_header rq ''Authorization''
      in if h = [] \<or> \<not> HasPrefix h ''Bearer '' then answer (http_Error ''missing token'' 401)
         else case ParseJWT L secret (TrimPrefix h ''Bearer '') w of
                None \<Rightarrow> answer (http_Error ''invalid token'' 401)
              | Some uid \<Rightarrow> next (rq\<lparr>rq_user := Some uid\<rparr>))"

text \<open>The chain in front of every route under \<open>/v1\<close> (\<open>main\<close>): authentication, then the limiter of the user.\<close>

definition v1 ::
  "libs \<Rightarrow> string \<Rightarrow> rate_limiter \<Rightarrow> (reply \<Rightarrow> world \<Rightarrow> 'r) \<Rightarrow> (request \<Rightarrow> world \<Rightarrow> 'r) \<Rightarrow>
   request \<Rightarrow> counters \<Rightarrow> world \<Rightarrow> headers \<times> 'r \<times> counters" where
  "v1 L secret rl answer h rq s w =
     AuthMiddleware L secret (\<lambda>rep. ([], answer rep w, s)) (\<lambda>rq1. Middleware rl answer h rq1 s w) rq w"

text \<open>The documented behaviour of the libraries that the statements below rely on.\<close>

definition bcrypt_ok :: "libs \<Rightarrow> bool" where
  "bcrypt_ok L \<longleftrightarrow> (\<forall>pw h. hash L pw = Some h \<longrightarrow> check L h pw)"

text \<open>Signing succeeds; a token is accepted with its claims before its expiry and refused from then on. Ids and
  expiry times are floats in the token, exact up to \<open>2 ^ 53\<close>.\<close>

definition jwt_ok :: "libs \<Rightarrow> bool" where
  "jwt_ok L \<longleftrightarrow> (\<forall>secret uid expires. secret \<noteq> [] \<longrightarrow> \<bar>uid\<bar> \<le> 2 ^ 53 \<longrightarrow> \<bar>expires\<bar> \<le> 2 ^ 53 \<longrightarrow>
     (\<exists>tok. sign L secret (claims uid expires) = Some tok \<and>
        (\<forall>now. verify L secret now tok = (if now < expires then Some (claims uid expires) else None))))"

section \<open>Tokens\<close>

lemma bearer_header: "HasPrefix (''Bearer '' @ tok) ''Bearer ''" "TrimPrefix (''Bearer '' @ tok) ''Bearer '' = tok"
  by (rule HasPrefix_append, rule TrimPrefix_append)

lemma expiry_seconds: "(c + 24 * 3600 * 1000000000) div 1000000000 = c div 1000000000 + (86400 :: int)"
  using div_plus_div_distrib_dvd_right [of 1000000000 "86400000000000" c] by simp

lemma token_valid:
  assumes "jwt_ok L" and "secret \<noteq> []" and "0 < uid" "uid \<le> 2 ^ 53" and "\<bar>seconds w + 86400\<bar> \<le> 2 ^ 53"
  shows "\<exists>tok. GenerateJWT L secret uid w = Some tok \<and>
     (\<forall>w'. ParseJWT L secret tok w' = (if seconds w' < seconds w + 86400 then Some uid else None))"
proof -
  let ?x = "seconds w + 86400"
  have "in_int64 uid" using assms(3,4) by (simp add: in_int64_def)
  have "\<bar>uid\<bar> \<le> 2 ^ 53" using assms(3,4) by simp
  with assms(1,2,5) obtain tok where s: "sign L secret (claims uid ?x) = Some tok"
    and v: "\<And>now. verify L secret now tok = (if now < ?x then Some (claims uid ?x) else None)"
    unfolding jwt_ok_def by metis
  have "GenerateJWT L secret uid w = Some tok"
    using assms(2) s by (simp add: GenerateJWT_def expiry_seconds [simplified] seconds_def)
  moreover have "ParseJWT L secret tok w' = (if seconds w' < ?x then Some uid else None)" for w'
    using assms(2,3) \<open>in_int64 uid\<close> by (simp add: ParseJWT_def v claims_def)
  ultimately show ?thesis by blast
qed

lemma validate_ok:
  assumes "validate c = (c1, [])"
  shows "c1 = c\<lparr>cr_Email := normal_email (cr_Email c)\<rparr>" and "8 \<le> length (cr_Password c)" and "CHR ''@'' \<in> set (normal_email (cr_Email c))"
  using assms by (auto simp: validate_def Let_def split: if_splits)

lemma normal_email_idem [simp]: "normal_email (normal_email e) = normal_email e"
  by (simp add: normal_email_def ToLower_TrimSpace [symmetric] TrimSpace_idem) (simp add: ToLower_def o_def)

text \<open>A registration that goes through: the user row it adds.\<close>

definition new_user :: "string \<Rightarrow> string \<Rightarrow> world \<Rightarrow> user_row" where
  "new_user email h w = \<lparr>u_id = users_seq (seqs (db w)), u_email = email, u_password_hash = h, u_created_at = pg_now w\<rparr>"

lemma CreateUser_runs:
  assumes "db_faults w = []" and "users_seq (seqs (db w)) \<le> MaxInt64" and "\<forall>u\<in>set (users (db w)). u_email u \<noteq> email"
  shows "\<exists>w1. run (CreateUser email h) w = (Inr (new_user email h w), w1) \<and> db_faults w1 = [] \<and> clock w1 = clock w \<and>
     users (db w1) = users (db w) @ [new_user email h w]"
  using assms by (simp add: run_healthy CreateUser_def with_serial_def Let_def new_user_def)

text \<open>C36. A registered user can sign in: a valid registration under a new address returns a token, signing in with the same password
  and any spelling of the address (case, surrounding spaces) returns a token too, and for 24 hours each token opens the
  protected routes as the registered user, and no longer. Ids and times are in the range that a token holds exactly (\<open>2 ^ 53\<close>).\<close>

theorem register_then_login:
  assumes "jwt_ok L" and "bcrypt_ok L" and "secret \<noteq> []" and "db_faults w = []"
    and "0 < users_seq (seqs (db w))" and "users_seq (seqs (db w)) \<le> 2 ^ 53"
    and "decode_credentials (rq_body rq) = Some c" and "snd (validate c) = []" and "hash L (cr_Password c) = Some h"
    and "\<forall>u\<in>set (users (db w)). u_email u \<noteq> normal_email (cr_Email c)"
    and "decode_credentials (rq_body rq2) = Some c2" and "normal_email (cr_Email c2) = normal_email (cr_Email c)"
    and "cr_Password c2 = cr_Password c" and "\<bar>seconds w + 86400\<bar> \<le> 2 ^ 53"
  defines "uid \<equiv> users_seq (seqs (db w))"
  shows "\<exists>tok w1. Register L secret rq w = (writeJSON 201 (Some (token_json tok)), w1) \<and>
     (\<forall>w'. ParseJWT L secret tok w' = (if seconds w' < seconds w + 86400 then Some uid else None)) \<and>
     (\<exists>tok2. Login L secret rq2 w1 = (writeJSON 200 (Some (token_json tok2)), w1) \<and>
        (\<forall>w'. ParseJWT L secret tok2 w' = (if seconds w' < seconds w1 + 86400 then Some uid else None)))"
proof -
  let ?e = "normal_email (cr_Email c)"
  let ?u = "new_user ?e h w"
  obtain c1 where v: "validate c = (c1, [])" using assms(8) by (metis prod.collapse)
  have c1: "cr_Email c1 = ?e" "cr_Password c1 = cr_Password c" using validate_ok(1) [OF v] by simp_all
  have "users_seq (seqs (db w)) \<le> MaxInt64" using assms(6) by (simp add: MaxInt64_def)
  from CreateUser_runs [OF assms(4) this assms(10), of h]
  obtain w1 where r: "run (CreateUser ?e h) w = (Inr ?u, w1)" and f1: "db_faults w1 = []" and k1: "clock w1 = clock w"
    and d1: "users (db w1) = users (db w) @ [?u]" by blast
  have uid: "u_id ?u = uid" "u_password_hash ?u = h" "u_email ?u = ?e" by (simp_all add: new_user_def uid_def)
  have pos: "0 < uid" "uid \<le> 2 ^ 53" using assms(5,6) by (simp_all add: uid_def)
  obtain tok where t: "GenerateJWT L secret uid w1 = Some tok"
    "\<forall>w'. ParseJWT L secret tok w' = (if seconds w' < seconds w1 + 86400 then Some uid else None)"
    using token_valid [OF assms(1,3) pos, of w1] assms(14) k1 by (auto simp: seconds_def)
  have reg: "Register L secret rq w = (writeJSON 201 (Some (token_json tok)), w1)"
    using assms(7,9) v c1 r t(1) uid by (simp add: Register_def)
  have "find (\<lambda>u. u_email u = ?e) (users (db w1)) = Some ?u"
    using assms(10) by (intro find_unique) (auto simp: d1 uid)
  then have "run (GetUserByEmail ?e) w1 = (Inr ?u, w1)"
    using f1 by (simp add: run_healthy GetUserByEmail_def read_only_def)
  moreover have "check L h (cr_Password c)" using assms(2,9) by (simp add: bcrypt_ok_def)
  ultimately have "Login L secret rq2 w1 = (writeJSON 200 (Some (token_json tok)), w1)"
    using assms(11-13) t(1) uid by (simp add: Login_def)
  moreover have "seconds w1 = seconds w" by (simp add: seconds_def k1)
  ultimately show ?thesis using reg t(2) by metis
qed

text \<open>Libraries in the small: a hash that keeps the password, a token that spells out its claims.\<close>

fun sample_sign :: "string \<Rightarrow> json \<Rightarrow> string option" where
  "sample_sign secret (JObj [(_, JNum u), (_, JNum x)]) = Some (fmt_int u @ '':'' @ fmt_int x)"
| "sample_sign secret _ = None"

definition dec_any :: "string \<Rightarrow> int" where
  "dec_any s =
     (case s of [] \<Rightarrow> 0
      | c # cs \<Rightarrow> if c = CHR ''-'' then - the (int_parse_uint cs) else the (int_parse_uint s))"

lemma dec_any_fmt [simp]: "dec_any (fmt_int k) = k"
proof (cases "k < 0")
  case True
  then show ?thesis by (simp add: dec_any_def fmt_int_def int_parse_uint_nat)
next
  case False
  have "is_digit (hd (dec_nat (nat k)))" using dec_nat_digits [of "hd (dec_nat (nat k))" "nat k"] by simp
  then have "hd (dec_nat (nat k)) \<noteq> CHR ''-''" by (metis not_is_digit_sign(1))
  moreover obtain c cs where d: "dec_nat (nat k) = c # cs" by (metis dec_nat_not_Nil neq_Nil_conv)
  moreover have "int_parse_uint (c # cs) = Some (int (nat k))"
    using int_parse_uint_nat [of "dec_nat (nat k)"] by (simp only: d [symmetric] parse_uint_dec_nat option.map)
  ultimately show ?thesis using False by (simp add: dec_any_def fmt_int_def)
qed

definition sample_verify :: "string \<Rightarrow> int \<Rightarrow> string \<Rightarrow> json option" where
  "sample_verify secret now tok =
     (case split2 CHR '':'' tok of
        [u, x] \<Rightarrow> if now < dec_any x then Some (claims (dec_any u) (dec_any x)) else None
      | _ \<Rightarrow> None)"

definition sample_libs :: libs where
  "sample_libs = \<lparr>hash = Some, check = (=), sign = sample_sign, verify = sample_verify\<rparr>"

lemma sample_libs_ok: "jwt_ok sample_libs" "bcrypt_ok sample_libs"
proof -
  have sep: "CHR '':'' \<notin> set (fmt_int k)" for k using fmt_int_chars [of "CHR '':''" k] by auto
  have "sample_verify s now (fmt_int u @ '':'' @ fmt_int x) = (if now < x then Some (claims u x) else None)" for s now u x
    using split2_sep [OF sep, of u "fmt_int x"] by (simp add: sample_verify_def)
  then show "jwt_ok sample_libs" by (simp add: jwt_ok_def sample_libs_def claims_def)
  show "bcrypt_ok sample_libs" by (simp add: bcrypt_ok_def sample_libs_def)
qed

definition sample_signup :: "string \<Rightarrow> request" where
  "sample_signup email = sample_request\<lparr>rq_body := Some (JObj [(''email'', JStr email), (''password'', JStr ''hunter2hunter2'')])\<rparr>"

theorem register_then_login_witness:
  "\<exists>tok w1 tok2. Register sample_libs ''key'' (sample_signup ''Ann@x.org'') sample_world = (writeJSON 201 (Some (token_json tok)), w1) \<and>
     Login sample_libs ''key'' (sample_signup '' ann@X.org '') w1 = (writeJSON 200 (Some (token_json tok2)), w1) \<and>
     ParseJWT sample_libs ''key'' tok2 w1 = Some 2"
proof -
  let ?c = "\<lparr>cr_Email = ''Ann@x.org'', cr_Password = ''hunter2hunter2''\<rparr>"
  let ?c2 = "\<lparr>cr_Email = '' ann@X.org '', cr_Password = ''hunter2hunter2''\<rparr>"
  have "decode_credentials (rq_body (sample_signup ''Ann@x.org'')) = Some ?c"
    "decode_credentials (rq_body (sample_signup '' ann@X.org '')) = Some ?c2" by code_simp+
  moreover have "snd (validate ?c) = []" by code_simp
  moreover have "hash sample_libs (cr_Password ?c) = Some ''hunter2hunter2''" by (simp add: sample_libs_def)
  moreover have "\<forall>u\<in>set (users (db sample_world)). u_email u \<noteq> normal_email (cr_Email ?c)" by code_simp
  moreover have "normal_email (cr_Email ?c2) = normal_email (cr_Email ?c)" by code_simp
  moreover have "db_faults sample_world = []" by (simp add: sample_world_def)
  moreover have "users_seq (seqs (db sample_world)) = 2" by code_simp
  moreover have "\<bar>seconds sample_world + 86400\<bar> \<le> 2 ^ 53" by code_simp
  ultimately obtain tok w1 tok2 where
    "Register sample_libs ''key'' (sample_signup ''Ann@x.org'') sample_world = (writeJSON 201 (Some (token_json tok)), w1)"
    "Login sample_libs ''key'' (sample_signup '' ann@X.org '') w1 = (writeJSON 200 (Some (token_json tok2)), w1)"
    "\<forall>w'. ParseJWT sample_libs ''key'' tok2 w' = (if seconds w' < seconds w1 + 86400 then Some 2 else None)"
    using register_then_login [OF sample_libs_ok, of "''key''" sample_world "sample_signup ''Ann@x.org''" ?c "''hunter2hunter2''"
        "sample_signup '' ann@X.org ''" ?c2] by auto
  then show ?thesis by (intro exI conjI) auto
qed

section \<open>The protected routes\<close>

text \<open>No handler under \<open>/v1\<close> runs without a valid token: the user a handler sees is the one of the token, never a claim of the
  request, and without a valid bearer token the reply is 401, no handler runs and no token of a bucket is spent.\<close>

lemma v1_requires_token:
  "v1 L secret rl answer h (rq\<lparr>rq_user := x\<rparr>) s w = v1 L secret rl answer h rq s w \<and>
   (if \<exists>tok uid. rq_header rq ''Authorization'' = ''Bearer '' @ tok \<and> ParseJWT L secret tok w = Some uid
    then \<exists>tok uid. rq_header rq ''Authorization'' = ''Bearer '' @ tok \<and> ParseJWT L secret tok w = Some uid \<and>
       v1 L secret rl answer h rq s w = Middleware rl answer h (rq\<lparr>rq_user := Some uid\<rparr>) s w
    else \<exists>rep. status rep = 401 \<and> v1 L secret rl answer h rq s w = ([], answer rep w, s))"
proof -
  let ?h = "rq_header rq ''Authorization''"
  let ?v = "v1 L secret rl answer h rq s w"
  have a: "v1 L secret rl answer h (rq\<lparr>rq_user := x\<rparr>) s w = ?v"
    by (simp add: v1_def AuthMiddleware_def Let_def split: option.split)
  show ?thesis
  proof (cases "HasPrefix ?h ''Bearer ''")
    case False
    then have "\<not> (\<exists>tok uid. ?h = ''Bearer '' @ tok \<and> ParseJWT L secret tok w = Some uid)" using HasPrefix_iff by blast
    moreover have "?v = ([], answer (http_Error ''missing token'' 401) w, s)"
      using False by (simp add: v1_def AuthMiddleware_def Let_def)
    ultimately show ?thesis using a status_writeJSON(2) by (simp only: if_False) blast
  next
    case True
    then obtain tok where tok: "?h = ''Bearer '' @ tok" unfolding HasPrefix_iff by blast
    have v: "?v = (case ParseJWT L secret tok w of None \<Rightarrow> ([], answer (http_Error ''invalid token'' 401) w, s)
        | Some uid \<Rightarrow> Middleware rl answer h (rq\<lparr>rq_user := Some uid\<rparr>) s w)"
      unfolding v1_def AuthMiddleware_def Let_def tok TrimPrefix_append by (simp add: HasPrefix_append [of "''Bearer ''", simplified])
    have u: "tok' = tok" if "?h = ''Bearer '' @ tok'" for tok' using that tok by simp
    show ?thesis
    proof (cases "ParseJWT L secret tok w")
      case None
      then have "\<not> (\<exists>tok uid. ?h = ''Bearer '' @ tok \<and> ParseJWT L secret tok w = Some uid)" using u by fastforce
      moreover have "?v = ([], answer (http_Error ''invalid token'' 401) w, s)" using v None by simp
      ultimately show ?thesis using a status_writeJSON(2) by (simp only: if_False) blast
    next
      case (Some uid)
      then have "\<exists>tok uid. ?h = ''Bearer '' @ tok \<and> ParseJWT L secret tok w = Some uid \<and>
         ?v = Middleware rl answer h (rq\<lparr>rq_user := Some uid\<rparr>) s w" using tok v by auto
      then show ?thesis using a by (simp only: if_True) metis
    qed
  qed
qed

end
