(* ===== verification/Storage.thy ===== *)
theory Storage
  imports Cursor
begin

text \<open>
  internal/storage: where export files live. The interface is a key-value store; the two implementations are files
  under a directory (\<open>Local\<close>) and objects under a key prefix of a bucket (\<open>S3\<close>).
\<close>

section \<open>The interface\<close>

text \<open>What the callers of \<open>storage.Storage\<close> rely on: a successful save is read back, keys do not interfere, and a save that fails
  does not remove an object.
  \<open>save\<close> returns whether it succeeded.\<close>

locale object_store =
  fixes save :: "string \<Rightarrow> string \<Rightarrow> 's \<Rightarrow> bool \<times> 's"
    and fetch :: "string \<Rightarrow> 's \<Rightarrow> string option"
    and good :: "string \<Rightarrow> bool"
  assumes fetch_saved: "good k \<Longrightarrow> save k v s = (True, s') \<Longrightarrow> fetch k s' = Some v"
    and fetch_other: "good k \<Longrightarrow> good k' \<Longrightarrow> k \<noteq> k' \<Longrightarrow> save k' v s = (ok, s') \<Longrightarrow> fetch k s' = fetch k s"
    and fetch_kept: "good k \<Longrightarrow> fetch k s \<noteq> None \<Longrightarrow> save k v s = (ok, s') \<Longrightarrow> fetch k s' \<noteq> None"
begin

lemma fetch_present:
  "good k \<Longrightarrow> good k' \<Longrightarrow> fetch k s \<noteq> None \<Longrightarrow> save k' v s = (ok, s') \<Longrightarrow> fetch k s' \<noteq> None"
  using fetch_other [of k k' v s ok s'] fetch_kept [of k s v ok s'] by (cases "k = k'") auto

lemma fetch_after: "good k \<Longrightarrow> good k' \<Longrightarrow> save k v s = (True, s1) \<Longrightarrow> save k' v' s1 = (True, s2) \<Longrightarrow>
    fetch k s2 = Some (if k' = k then v' else v)"
  using fetch_saved [of k v s s1] fetch_saved [of k v' s1 s2] fetch_other [of k k' v' s1 True s2] by (cases "k' = k") auto

end

section \<open>Paths\<close>

text \<open>\<open>filepath.Clean\<close> and \<open>filepath.Join\<close> of the Go library, on slash-separated paths.\<close>

fun split_on :: "char \<Rightarrow> string \<Rightarrow> string list" where
  "split_on c [] = [[]]"
| "split_on c (x # xs) =
     (if x = c then [] # split_on c xs else (case split_on c xs of [] \<Rightarrow> [[x]] | w # ws \<Rightarrow> (x # w) # ws))"

fun join_with :: "char \<Rightarrow> string list \<Rightarrow> string" where
  "join_with c [] = []"
| "join_with c [w] = w"
| "join_with c (w # ws) = w @ c # join_with c ws"

definition rooted :: "string \<Rightarrow> bool" where
  "rooted s = (case s of [] \<Rightarrow> False | c # _ \<Rightarrow> c = CHR ''/'')"

text \<open>The elements kept so far, innermost first: \<open>..\<close> removes an element, is dropped at the root and kept at the
  start of a relative path.\<close>

definition clean_step :: "bool \<Rightarrow> string \<Rightarrow> string list \<Rightarrow> string list" where
  "clean_step r c st =
     (if c = [] \<or> c = ''.'' then st
      else if c = ''..'' then
        (case st of [] \<Rightarrow> if r then [] else [c] | x # xs \<Rightarrow> if x = ''..'' then c # st else xs)
      else c # st)"

definition elements :: "string \<Rightarrow> string list" where
  "elements s = rev (fold (clean_step (rooted s)) (split_on CHR ''/'' s) [])"

definition render :: "bool \<Rightarrow> string list \<Rightarrow> string" where
  "render r es = (if r then CHR ''/'' # join_with CHR ''/'' es else if es = [] then ''.'' else join_with CHR ''/'' es)"

definition Clean :: "string \<Rightarrow> string" where
  "Clean s = render (rooted s) (elements s)"

definition Join2 :: "string \<Rightarrow> string \<Rightarrow> string" where
  "Join2 a b =
     (if a \<noteq> [] then Clean (a @ ''/'' @ b) else if b \<noteq> [] then Clean b else [])"

section \<open>Local files\<close>

text \<open>The files by path, and what each next save meets: an error before the file is created, an error after some bytes,
  an error on closing.\<close>

datatype disk_fault = NoFault | BeforeCreate | Copied nat | OnClose

record disk =
  files :: "string \<Rightarrow> string option"
  disk_faults :: "disk_fault list"

definition local_path :: "string \<Rightarrow> string \<Rightarrow> string" where
  "local_path dir key = Join2 dir (Clean (''/'' @ key))"

definition Local_Save :: "string \<Rightarrow> string \<Rightarrow> string \<Rightarrow> disk \<Rightarrow> bool \<times> disk" where
  "Local_Save dir key body s =
     (let p = local_path dir key; s1 = s\<lparr>disk_faults := tl (disk_faults s)\<rparr>
      in case (case disk_faults s of [] \<Rightarrow> NoFault | f # _ \<Rightarrow> f) of
           BeforeCreate \<Rightarrow> (False, s1)
         | Copied n \<Rightarrow> (False, s1\<lparr>files := (files s)(p \<mapsto> take n body)\<rparr>)
         | OnClose \<Rightarrow> (False, s1\<lparr>files := (files s)(p \<mapsto> body)\<rparr>)
         | NoFault \<Rightarrow> (True, s1\<lparr>files := (files s)(p \<mapsto> body)\<rparr>))"

definition Local_Open :: "string \<Rightarrow> string \<Rightarrow> disk \<Rightarrow> string option" where
  "Local_Open dir key s = files s (local_path dir key)"

section \<open>Objects of a bucket\<close>

text \<open>\<open>put\<close> and \<open>get\<close> stand for the S3 client bound to the bucket.\<close>

definition S3_Save :: "(string \<Rightarrow> string \<Rightarrow> 's \<Rightarrow> bool \<times> 's) \<Rightarrow> string \<Rightarrow> string \<Rightarrow> string \<Rightarrow> 's \<Rightarrow> bool \<times> 's" where
  "S3_Save put prefix key body s = put (prefix @ key) body s"

definition S3_Open :: "(string \<Rightarrow> 's \<Rightarrow> string option) \<Rightarrow> string \<Rightarrow> string \<Rightarrow> 's \<Rightarrow> string option" where
  "S3_Open get prefix key s = get (prefix @ key) s"

definition HasSuffix :: "string \<Rightarrow> string \<Rightarrow> bool" where
  "HasSuffix s t = HasPrefix (rev s) (rev t)"

datatype backend = LocalDir string | S3Bucket string string

text \<open>
  \<open>FromEnv\<close> with \<open>NewS3FromEnv\<close> and \<open>NewLocal\<close>: the backend by environment variable. It is an error when S3 has no
  bucket. \<open>awsOk\<close> says whether the SDK loads its configuration, \<open>mkdirOk\<close> whether the directory can be made.
\<close>

definition NewS3FromEnv :: "bool \<Rightarrow> (string \<Rightarrow> string) \<Rightarrow> backend option" where
  "NewS3FromEnv awsOk getenv =
     (let bucket = getenv ''S3_BUCKET''; prefix = getenv ''S3_PREFIX''
      in if bucket = [] then None
         else if \<not> awsOk then None
         else Some (S3Bucket bucket (if prefix \<noteq> [] \<and> \<not> HasSuffix prefix ''/'' then prefix @ ''/'' else prefix)))"

definition NewLocal :: "(string \<Rightarrow> bool) \<Rightarrow> string \<Rightarrow> backend option" where
  "NewLocal mkdirOk dir = (if mkdirOk dir then Some (LocalDir dir) else None)"

definition FromEnv :: "bool \<Rightarrow> (string \<Rightarrow> bool) \<Rightarrow> (string \<Rightarrow> string) \<Rightarrow> backend option" where
  "FromEnv awsOk mkdirOk getenv =
     (if getenv ''EXPORT_STORAGE'' = ''s3'' then NewS3FromEnv awsOk getenv
      else let dir = getenv ''EXPORT_DIR''
           in NewLocal mkdirOk (if dir = [] then ''./tmp/exports'' else dir))"

section \<open>Confinement\<close>

text \<open>An element of a cleaned path.\<close>

definition plain :: "string \<Rightarrow> bool" where
  "plain c \<longleftrightarrow> c \<noteq> [] \<and> c \<noteq> ''.'' \<and> c \<noteq> ''..'' \<and> CHR ''/'' \<notin> set c"

lemma split_on_no_sep: "c \<notin> set w \<Longrightarrow> split_on c w = [w]"
  by (induction w) auto

lemma split_on_append: "c \<notin> set w \<Longrightarrow> split_on c (w @ c # s) = w # split_on c s"
  by (induction w) auto

lemma split_on_ne [simp]: "split_on c s \<noteq> []"
  by (induction s) (auto split: list.splits)

lemma split_on_elems: "w \<in> set (split_on c s) \<Longrightarrow> c \<notin> set w"
  by (induction s arbitrary: w) (auto split: list.splits if_splits)

lemma split_join: "ws \<noteq> [] \<Longrightarrow> \<forall>w\<in>set ws. c \<notin> set w \<Longrightarrow> split_on c (join_with c ws) = ws"
  by (induction c ws rule: join_with.induct) (auto simp: split_on_no_sep split_on_append)

lemma split_sep: "split_on c (s @ c # t) = split_on c s @ split_on c t"
  by (induction s) (auto split: list.splits)

lemma clean_plain: "\<forall>w\<in>set ws. plain w \<Longrightarrow> fold (clean_step r) ws st = rev ws @ st"
  by (induction ws arbitrary: st) (auto simp: clean_step_def plain_def)

lemma clean_rooted:
  "\<forall>w\<in>set ws. CHR ''/'' \<notin> set w \<Longrightarrow> \<forall>x\<in>set st. plain x \<Longrightarrow> \<forall>x\<in>set (fold (clean_step True) ws st). plain x"
proof (induction ws arbitrary: st)
  case (Cons w ws)
  have "\<forall>x\<in>set (clean_step True w st). plain x"
    using Cons.prems by (cases st) (auto simp: clean_step_def plain_def)
  with Cons show ?case by simp
qed simp

lemma clean_no_slash:
  "\<forall>w\<in>set ws. CHR ''/'' \<notin> set w \<Longrightarrow> \<forall>x\<in>set st. CHR ''/'' \<notin> set x \<Longrightarrow> \<forall>x\<in>set (fold (clean_step r) ws st). CHR ''/'' \<notin> set x"
proof (induction ws arbitrary: st)
  case (Cons w ws)
  have "\<forall>x\<in>set (clean_step r w st). CHR ''/'' \<notin> set x"
    using Cons.prems by (cases st) (auto simp: clean_step_def)
  with Cons show ?case by simp
qed simp

lemma elements_no_slash: "e \<in> set (elements s) \<Longrightarrow> CHR ''/'' \<notin> set e"
  using clean_no_slash [of "split_on CHR ''/'' s" "[]" "rooted s"] split_on_elems by (auto simp: elements_def)

lemma elements_rooted: "e \<in> set (elements (CHR ''/'' # s)) \<Longrightarrow> plain e"
  using clean_rooted [of "split_on CHR ''/'' (CHR ''/'' # s)" "[]"] split_on_elems
  by (auto simp: elements_def rooted_def)

text \<open>Joining a directory and a cleaned absolute key appends the elements of the key.\<close>

lemma elements_join:
  assumes "dir \<noteq> []" and "\<forall>e\<in>set es. plain e"
  shows "elements (dir @ ''/'' @ CHR ''/'' # join_with CHR ''/'' es) = elements dir @ es"
    and "rooted (dir @ ''/'' @ CHR ''/'' # join_with CHR ''/'' es) = rooted dir"
proof -
  show r: "rooted (dir @ ''/'' @ CHR ''/'' # join_with CHR ''/'' es) = rooted dir"
    using assms(1) by (cases dir) (simp_all add: rooted_def)
  have "fold (clean_step b) (split_on CHR ''/'' (join_with CHR ''/'' es)) st = rev es @ st" for b st
  proof (cases "es = []")
    case False
    have "\<forall>w\<in>set es. CHR ''/'' \<notin> set w" using assms(2) by (auto simp: plain_def)
    from split_join [OF False this] show ?thesis using clean_plain [OF assms(2)] by simp
  qed (simp add: clean_step_def)
  then show "elements (dir @ ''/'' @ CHR ''/'' # join_with CHR ''/'' es) = elements dir @ es"
    unfolding elements_def r by (simp add: split_sep clean_step_def)
qed

lemma Clean_key: "Clean (CHR ''/'' # key) = CHR ''/'' # join_with CHR ''/'' (elements (CHR ''/'' # key))"
  by (simp add: Clean_def render_def rooted_def)

lemma local_path_elements:
  "dir \<noteq> [] \<Longrightarrow> local_path dir key = render (rooted dir) (elements dir @ elements (CHR ''/'' # key))"
  using elements_join [of dir "elements (CHR ''/'' # key)"] elements_rooted
  by (simp add: local_path_def Join2_def Clean_key Clean_def [of "dir @ _"])

text \<open>C34. Files stay in their directory: whatever the key, also one with \<open>..\<close> elements or slashes, its path is the elements of the
  directory followed by plain names only.\<close>

theorem local_path_confined:
  assumes "dir \<noteq> []"
  shows "\<exists>es. local_path dir key = render (rooted dir) (elements dir @ es) \<and> (\<forall>e\<in>set es. plain e)"
  using local_path_elements [OF assms, of key] elements_rooted [of _ key] by auto

theorem local_path_confined_witness:
  "local_path ''./tmp/exports'' ''../../etc/passwd'' = ''tmp/exports/etc/passwd'' \<and>
   (\<exists>es. local_path ''./tmp/exports'' ''../../etc/passwd'' = render (rooted ''./tmp/exports'') (elements ''./tmp/exports'' @ es) \<and>
     (\<forall>e\<in>set es. plain e))"
proof -
  have "local_path ''./tmp/exports'' ''../../etc/passwd'' = ''tmp/exports/etc/passwd''" by code_simp
  then show ?thesis using local_path_confined [of "''./tmp/exports''" "''../../etc/passwd''"] by simp
qed

section \<open>The implementations meet the interface\<close>

lemma plain_elements: "plain k \<Longrightarrow> elements (CHR ''/'' # k) = [k]"
  by (simp add: elements_def plain_def split_on_no_sep clean_step_def)

lemma join_with_inj:
  assumes "join_with c us = join_with c vs" and "us \<noteq> []" and "vs \<noteq> []"
    and "\<forall>w\<in>set us. c \<notin> set w" and "\<forall>w\<in>set vs. c \<notin> set w"
  shows "us = vs"
  using split_join [OF assms(2,4)] split_join [OF assms(3,5)] unfolding assms(1) by (rule subst)

lemma local_path_inj:
  assumes "plain j" and "plain k" and "local_path dir j = local_path dir k"
  shows "j = k"
proof (cases "dir = []")
  case True
  have "local_path [] i = ''/'' @ i" if "plain i" for i
    using plain_elements [OF that]
    by (simp add: local_path_def Join2_def Clean_key)
  with True assms show ?thesis by simp
next
  case False
  have ns: "\<forall>w\<in>set (elements dir @ [i]). CHR ''/'' \<notin> set w" if "plain i" for i
    using elements_no_slash that by (auto simp: plain_def)
  have "join_with CHR ''/'' (elements dir @ [j]) = join_with CHR ''/'' (elements dir @ [k])"
    using assms False by (simp add: local_path_elements plain_elements render_def split: if_splits)
  from join_with_inj [OF this _ _ ns ns] assms show ?thesis by simp
qed

interpretation local_store: object_store "Local_Save dir" "Local_Open dir" plain for dir
proof
  fix k k' v s ok s'
  show "Local_Open dir k s' = Some v" if "plain k" "Local_Save dir k v s = (True, s')"
    using that by (auto simp: Local_Save_def Local_Open_def Let_def split: disk_fault.splits list.splits)
  show "Local_Open dir k s' = Local_Open dir k s"
    if "plain k" "plain k'" "k \<noteq> k'" "Local_Save dir k' v s = (ok, s')"
  proof -
    have "local_path dir k \<noteq> local_path dir k'" using that(1-3) local_path_inj by blast
    then show ?thesis using that(4) by (auto simp: Local_Save_def Local_Open_def Let_def split: disk_fault.splits list.splits)
  qed
  show "Local_Open dir k s' \<noteq> None" if "plain k" "Local_Open dir k s \<noteq> None" "Local_Save dir k v s = (ok, s')"
    using that by (auto simp: Local_Save_def Local_Open_def Let_def split: disk_fault.splits list.splits)
qed

text \<open>A bucket behind a prefix is an object store whenever the S3 client is one: what was saved under a key is read back
  under it, and different keys do not interfere.\<close>

lemma S3_is_object_store:
  assumes "object_store put get any"
  shows "object_store (S3_Save put prefix) (S3_Open get prefix) (\<lambda>k. any (prefix @ k))"
proof
  show "S3_Open get prefix k s' = Some v" if "any (prefix @ k)" "S3_Save put prefix k v s = (True, s')" for k v s s'
    using object_store.fetch_saved [OF assms] that by (auto simp: S3_Save_def S3_Open_def)
  show "S3_Open get prefix k s' = S3_Open get prefix k s"
    if "any (prefix @ k)" "any (prefix @ k')" "k \<noteq> k'" "S3_Save put prefix k' v s = (ok, s')" for k k' v s ok s'
    using object_store.fetch_other [OF assms that(1,2)] that(3,4) by (auto simp: S3_Save_def S3_Open_def)
  show "S3_Open get prefix k s' \<noteq> None"
    if "any (prefix @ k)" "S3_Open get prefix k s \<noteq> None" "S3_Save put prefix k v s = (ok, s')" for k v s ok s'
    using object_store.fetch_kept [OF assms that(1)] that(2,3) by (auto simp: S3_Save_def S3_Open_def)
qed

text \<open>An in-memory bucket as the client.\<close>

definition bucket_put :: "string \<Rightarrow> string \<Rightarrow> (string \<Rightarrow> string option) \<Rightarrow> bool \<times> (string \<Rightarrow> string option)" where
  "bucket_put k v s = (True, s(k \<mapsto> v))"

definition bucket_get :: "string \<Rightarrow> (string \<Rightarrow> string option) \<Rightarrow> string option" where
  "bucket_get k s = s k"

lemma S3_is_object_store_sample:
  "object_store (S3_Save bucket_put ''exports/'') (S3_Open bucket_get ''exports/'') (\<lambda>k. True)"
proof -
  have "object_store bucket_put bucket_get (\<lambda>_. True)"
    by unfold_locales (auto simp: bucket_put_def bucket_get_def)
  from S3_is_object_store [OF this, of "''exports/''"] show ?thesis .
qed

end
