(* ===== verification/Exports.thy ===== *)
theory Exports
  imports Handlers Storage
begin

text \<open>
  CSV exports of a user's month: the handlers of internal/transport/http/exports.go, the task of
  internal/worker/csv-export.go and the format that \<open>encoding/csv\<close> writes.
\<close>

section \<open>The CSV format\<close>

definition needs_quotes :: "string \<Rightarrow> bool" where
  "needs_quotes f =
     (if f = [] then False
      else if f = [CHR 0x5C, CHR ''.''] then True
      else (\<exists>c\<in>set f. c = CHR 0x0A \<or> c = CHR 0x0D \<or> c = CHR 0x22 \<or> c = CHR '','') \<or> is_space (hd f))"

fun double_quotes :: "string \<Rightarrow> string" where
  "double_quotes [] = []"
| "double_quotes (c # cs) = (if c = CHR 0x22 then [c, c] else [c]) @ double_quotes cs"

definition write_field :: "string \<Rightarrow> string" where
  "write_field f = (if needs_quotes f then CHR 0x22 # double_quotes f @ [CHR 0x22] else f)"

definition write_record :: "string list \<Rightarrow> string" where
  "write_record fs = join_with CHR '','' (map write_field fs) @ [CHR 0x0A]"

definition write_csv :: "string list list \<Rightarrow> string" where
  "write_csv rs = concat (map write_record rs)"

section \<open>The export task\<close>

record export_payload =
  xp_ExportID :: int
  xp_UserID :: int
  xp_Month :: string

definition export_key :: "int \<Rightarrow> string" where
  "export_key i = ''export_'' @ fmt_int i @ ''.csv''"

definition csv_header :: "string list" where
  "csv_header = [''transaction_id'', ''account_id'', ''account_name'', ''category_id'', ''amount_minor'', ''currency'',
     ''occurred_at'', ''note'']"

definition csv_row :: "env \<Rightarrow> month_posting \<Rightarrow> string list" where
  "csv_row E r =
     [fmt_int (mp_transaction_id r), fmt_int (mp_account_id r), mp_account_name r,
      (case mp_category_id r of None \<Rightarrow> [] | Some c \<Rightarrow> fmt_int c), fmt_int (sint (mp_amount_minor r)), mp_currency r,
      fmt_RFC3339 (go_time E (mp_occurred_at r)), (case mp_note r of None \<Rightarrow> [] | Some n \<Rightarrow> n)]"

definition failExport :: "int \<Rightarrow> world \<Rightarrow> world" where
  "failExport i w = snd (run (UpdateExportStatus i ''error'' None) w)"

datatype export_error = BadMonth | ExportDb db_error | SaveFailed

definition handleExportCSV ::
  "env \<Rightarrow> (string \<Rightarrow> string \<Rightarrow> 's \<Rightarrow> bool \<times> 's) \<Rightarrow> export_payload \<Rightarrow> world \<Rightarrow> 's \<Rightarrow> export_error option \<times> world \<times> 's" where
  "handleExportCSV E save p w s =
     (case parse_date (xp_Month p) of
        None \<Rightarrow> (Some BadMonth, failExport (xp_ExportID p) w, s)
      | Some month \<Rightarrow>
     (case run (ListPostingsForMonth E (xp_UserID p) (pg_time month)) w of
        (Inl e, w1) \<Rightarrow> (Some (ExportDb e), failExport (xp_ExportID p) w1, s)
      | (Inr rows, w1) \<Rightarrow>
          let buf = write_csv (csv_header # map (csv_row E) rows); key = export_key (xp_ExportID p)
          in case save key buf s of
               (False, s1) \<Rightarrow> (Some SaveFailed, failExport (xp_ExportID p) w1, s1)
             | (True, s1) \<Rightarrow>
                 (case run (UpdateExportStatus (xp_ExportID p) ''done'' (Some key)) w1 of
                    (Inl e, w2) \<Rightarrow> (Some (ExportDb e), w2, s1)
                  | (Inr _, w2) \<Rightarrow> (None, w2, s1))))"

section \<open>The handlers\<close>

definition export_json :: "env \<Rightarrow> export_row \<Rightarrow> json option" where
  "export_json E e =
     (case (time_json (case e_created_at e of None \<Rightarrow> zero_time | Some t \<Rightarrow> go_time E t),
            time_json (case e_updated_at e of None \<Rightarrow> zero_time | Some t \<Rightarrow> go_time E t)) of
        (Some cre, Some upd) \<Rightarrow> Some (JObj (
          [(''id'', JNum (e_id e)), (''user_id'', JNum (e_user_id e)), (''month'', JStr (fmt_month (date_time (e_month e)))),
           (''status'', JStr (e_status e))]
          @ (case e_file_path e of None \<Rightarrow> [] | Some f \<Rightarrow> if f = [] then [] else [(''file_path'', JStr f)])
          @ [(''created_at'', cre), (''updated_at'', upd)]))
      | _ \<Rightarrow> None)"

text \<open>\<open>accepts\<close> says whether the task queue takes the task; the result has the tasks that were enqueued.\<close>

definition CreateExport_handler :: "env \<Rightarrow> bool \<Rightarrow> request \<Rightarrow> world \<Rightarrow> reply \<times> export_payload list \<times> world" where
  "CreateExport_handler E accepts rq w =
     (case user_of rq of None \<Rightarrow> (unauthorized, [], w) | Some uid \<Rightarrow>
      case parse_month (rq_query rq ''month'') of None \<Rightarrow> (http_Error ''month must be YYYY-MM'' 400, [], w) | Some month \<Rightarrow>
      case run (CreateExport uid (date_day month)) w of
        (Inl _, w1) \<Rightarrow> (http_Error ''db error'' 500, [], w1)
      | (Inr e, w1) \<Rightarrow>
          if \<not> accepts then (http_Error ''enqueue failed'' 500, [], w1)
          else (writeJSON 202 (export_json E e),
                [\<lparr>xp_ExportID = e_id e, xp_UserID = e_user_id e, xp_Month = fmt_date month\<rparr>], w1))"

definition ownedExport :: "request \<Rightarrow> world \<Rightarrow> (reply + export_row) \<times> world" where
  "ownedExport rq w =
     (case user_of rq of None \<Rightarrow> (Inl unauthorized, w) | Some uid \<Rightarrow>
      case path_id rq of None \<Rightarrow> (Inl (http_Error ''invalid export id'' 400), w) | Some i \<Rightarrow>
      case run (GetExportByID i) w of
        (Inl _, w1) \<Rightarrow> (Inl (http_Error ''not found'' 404), w1)
      | (Inr e, w1) \<Rightarrow> if e_user_id e \<noteq> uid then (Inl (http_Error ''not found'' 404), w1) else (Inr e, w1))"

definition GetStatus :: "env \<Rightarrow> handler" where
  "GetStatus E rq w =
     (case ownedExport rq w of
        (Inl rep, w1) \<Rightarrow> (rep, w1)
      | (Inr e, w1) \<Rightarrow> (writeJSON 200 (export_json E e), w1))"

definition Download :: "(string \<Rightarrow> 's \<Rightarrow> string option) \<Rightarrow> request \<Rightarrow> world \<Rightarrow> 's \<Rightarrow> reply \<times> world" where
  "Download fetch rq w s =
     (case ownedExport rq w of
        (Inl rep, w1) \<Rightarrow> (rep, w1)
      | (Inr e, w1) \<Rightarrow>
          (case (if e_status e = ''done'' then e_file_path e else None) of
             None \<Rightarrow> (http_Error ''not ready'' 409, w1)
           | Some path \<Rightarrow>
               (case fetch path s of
                  None \<Rightarrow> (http_Error ''export file unavailable'' 500, w1)
                | Some body \<Rightarrow> (Reply 200 (File body), w1))))"

section \<open>Reading the format back\<close>

text \<open>A reader after RFC 4180, as a specification of what the file says.\<close>

fun read_quoted :: "string \<Rightarrow> (string \<times> string) option" where
  "read_quoted [] = None"
| "read_quoted (c # cs) =
     (if c \<noteq> CHR 0x22 then map_option (\<lambda>(f, r). (c # f, r)) (read_quoted cs)
      else case cs of
             [] \<Rightarrow> Some ([], [])
           | d # ds \<Rightarrow> if d = CHR 0x22 then map_option (\<lambda>(f, r). (CHR 0x22 # f, r)) (read_quoted ds) else Some ([], cs))"

definition in_field :: "char \<Rightarrow> bool" where
  "in_field c \<longleftrightarrow> c \<noteq> CHR '','' \<and> c \<noteq> CHR 0x0A"

definition read_field :: "string \<Rightarrow> (string \<times> string) option" where
  "read_field s =
     (case s of
        [] \<Rightarrow> Some ([], [])
      | c # cs \<Rightarrow> if c = CHR 0x22 then read_quoted cs else Some (takeWhile in_field s, dropWhile in_field s))"

lemma read_quoted_shorter: "read_quoted s = Some (f, r) \<Longrightarrow> length r < length s"
  by (induction s arbitrary: f r rule: read_quoted.induct) (fastforce split: if_splits list.splits)+

lemma read_field_shorter: "read_field s = Some (f, r) \<Longrightarrow> length r \<le> length s"
  using read_quoted_shorter [of "tl s" f r] length_dropWhile_le [of in_field s]
  by (auto simp: read_field_def split: list.splits if_splits)

function read_record :: "string \<Rightarrow> (string list \<times> string) option" where
  "read_record s =
     (case read_field s of
        None \<Rightarrow> None
      | Some (f, r) \<Rightarrow>
          (case r of
             [] \<Rightarrow> None
           | c # r' \<Rightarrow>
               if c = CHR '','' then map_option (\<lambda>(fs, t). (f # fs, t)) (read_record r')
               else if c = CHR 0x0A then Some ([f], r') else None))"
  by auto
termination by (relation "measure length") (auto dest: read_field_shorter)

declare read_record.simps [simp del]

lemma read_record_shorter: "read_record s = Some (fs, t) \<Longrightarrow> length t < length s"
proof (induction s arbitrary: fs t rule: read_record.induct)
  case (1 s)
  note e = "1.prems" [unfolded read_record.simps [of s]]
  obtain f c r where f: "read_field s = Some (f, c # r)"
    using e by (auto split: option.splits list.splits)
  have "length t \<le> length r"
  proof (cases "c = CHR '',''")
    case True
    then obtain gs where "read_record r = Some (gs, t)" using e f by auto
    then show ?thesis using "1.IH" [OF f refl refl True] by simp
  next
    case False
    then show ?thesis using e f by (auto split: if_splits)
  qed
  then show ?case using read_field_shorter [OF f] by simp
qed

function read_csv :: "string \<Rightarrow> string list list option" where
  "read_csv s =
     (if s = [] then Some []
      else case read_record s of None \<Rightarrow> None | Some (fs, t) \<Rightarrow> map_option ((#) fs) (read_csv t))"
  by auto
termination by (relation "measure length") (auto dest: read_record_shorter)

declare read_csv.simps [simp del]

lemma read_double_quotes:
  "r = [] \<or> hd r \<noteq> CHR 0x22 \<Longrightarrow> read_quoted (double_quotes f @ CHR 0x22 # r) = Some (f, r)"
  by (induction f) (auto split: list.splits)

lemma read_write_field:
  assumes "c = CHR '','' \<or> c = CHR 0x0A"
  shows "read_field (write_field f @ c # r) = Some (f, c # r)"
proof (cases "needs_quotes f")
  case True
  then show ?thesis using assms read_double_quotes [of "c # r" f] by (auto simp: write_field_def read_field_def)
next
  case False
  have in_f: "\<forall>x\<in>set f. in_field x" and nq: "CHR 0x22 \<notin> set f"
    using False by (auto simp: needs_quotes_def in_field_def split: if_splits)
  have "\<not> in_field c" using assms by (auto simp: in_field_def)
  then have "takeWhile in_field (f @ c # r) = f" "dropWhile in_field (f @ c # r) = c # r"
    using in_f by (simp_all add: takeWhile_append2 dropWhile_append2)
  then show ?thesis using False nq assms by (cases f) (auto simp: write_field_def read_field_def)
qed

lemma read_write_record: "fs \<noteq> [] \<Longrightarrow> read_record (write_record fs @ t) = Some (fs, t)"
proof (induction fs rule: induct_list012)
  case (2 f)
  show ?case by (subst read_record.simps) (simp add: write_record_def read_write_field)
next
  case (3 f g fs)
  have "read_record (write_record (f # g # fs) @ t)
      = map_option (\<lambda>(fs, t). (f # fs, t)) (read_record (write_record (g # fs) @ t))"
    by (subst read_record.simps) (simp add: write_record_def read_write_field)
  with 3 show ?case by simp
qed simp

lemma read_write_csv: "\<forall>fs\<in>set rs. fs \<noteq> [] \<Longrightarrow> read_csv (write_csv rs) = Some rs"
proof (induction rs)
  case Nil
  show ?case by (simp add: write_csv_def read_csv.simps)
next
  case (Cons fs rs)
  have "write_record fs @ write_csv rs \<noteq> []" by (simp add: write_record_def)
  with Cons show ?case by (subst read_csv.simps) (simp add: write_csv_def read_write_record)
qed

interpretation csv: codec write_csv read_csv "\<lambda>rs. \<forall>fs\<in>set rs. fs \<noteq> []"
  by unfold_locales (rule read_write_csv)

section \<open>The states of an export\<close>

definition export_ok :: "export_row \<Rightarrow> bool" where
  "export_ok e \<longleftrightarrow> (if e_status e = ''done'' then e_file_path e = Some (export_key (e_id e))
     else e_status e \<in> {''pending'', ''error''} \<and> e_file_path e = None)"

definition exports_ok :: "database \<Rightarrow> bool" where
  "exports_ok d \<longleftrightarrow> distinct (map e_id (exports d)) \<and>
     (\<forall>e\<in>set (exports d). e_id e < exports_seq (seqs d) \<and> export_ok e)"

definition files_ok :: "(string \<Rightarrow> 's \<Rightarrow> string option) \<Rightarrow> database \<Rightarrow> 's \<Rightarrow> bool" where
  "files_ok fetch d s \<longleftrightarrow> (\<forall>e\<in>set (exports d). e_status e = ''done'' \<longrightarrow> fetch (export_key (e_id e)) s \<noteq> None)"

lemma plain_export_key: "plain (export_key i)"
  using fmt_int_chars [of "CHR ''/''" i] by (auto simp: plain_def export_key_def is_digit_def)

lemma export_key_inj: "export_key i = export_key j \<longleftrightarrow> i = j"
  by (simp add: export_key_def fmt_int_inj)

definition with_status :: "int \<Rightarrow> string \<Rightarrow> string option \<Rightarrow> int \<Rightarrow> database \<Rightarrow> database" where
  "with_status i st fp now d = d\<lparr>exports := map (\<lambda>e. if e_id e = i
     then e\<lparr>e_status := st, e_file_path := fp, e_updated_at := Some now\<rparr> else e) (exports d)\<rparr>"

lemma UpdateExportStatus_eq: "UpdateExportStatus i st fp now d = (Inr (), with_status i st fp now d)"
  by (simp add: UpdateExportStatus_def with_status_def)

lemma with_status_ids: "map e_id (exports (with_status i st fp now d)) = map e_id (exports d)"
  by (simp add: with_status_def)

lemma with_status_ok:
  assumes "exports_ok d" and "st = ''done'' \<and> fp = Some (export_key i) \<or> st = ''error'' \<and> fp = None"
  shows "exports_ok (with_status i st fp now d)"
  using assms unfolding exports_ok_def with_status_ids
  by (auto simp: with_status_def export_ok_def)

lemma failExport_frame:
  "clock (failExport i w) = clock w" "cache (failExport i w) = cache w"
  "db (failExport i w) = db w \<or> db (failExport i w) = with_status i ''error'' None (pg_now w) (db w)"
  using run_frame [of "UpdateExportStatus i ''error'' None" w] unfolding failExport_def
  by (metis UpdateExportStatus_eq prod.sel(2) surjective_pairing)+

text \<open>Every way the task ends: the export is as it was, failed, or done with its file saved.\<close>

lemma handleExportCSV_cases:
  assumes "handleExportCSV E save p w s = (r, w', s')"
  shows "clock w' = clock w \<and> cache w' = cache w \<and>
    ((db w' = db w \<or> db w' = with_status (xp_ExportID p) ''error'' None (pg_now w) (db w)) \<and> r \<noteq> None \<and>
       (s' = s \<or> (\<exists>body ok. save (export_key (xp_ExportID p)) body s = (ok, s')))
     \<or> (\<exists>body. save (export_key (xp_ExportID p)) body s = (True, s')) \<and>
       db w' = with_status (xp_ExportID p) ''done'' (Some (export_key (xp_ExportID p))) (pg_now w) (db w))"
proof (cases "parse_date (xp_Month p)")
  case None
  then show ?thesis using assms failExport_frame [of "xp_ExportID p" w] by (auto simp: handleExportCSV_def)
next
  case (Some month)
  obtain r1 w1 where l: "run (ListPostingsForMonth E (xp_UserID p) (pg_time month)) w = (r1, w1)" by fastforce
  have w1: "db w1 = db w" "clock w1 = clock w" "cache w1 = cache w" "pg_now w1 = pg_now w"
    using run_frame [OF l] by (auto simp: ListPostingsForMonth_def read_only_def)
  note fe = failExport_frame [of "xp_ExportID p" w1, unfolded w1]
  show ?thesis
  proof (cases r1)
    case (Inl e)
    then show ?thesis using assms Some l fe by (auto simp: handleExportCSV_def)
  next
    case (Inr rows)
    let ?buf = "write_csv (csv_header # map (csv_row E) rows)" and ?key = "export_key (xp_ExportID p)"
    obtain ok s1 where sv: "save ?key ?buf s = (ok, s1)" by force
    obtain r2 w2 where u: "run (UpdateExportStatus (xp_ExportID p) ''done'' (Some ?key)) w1 = (r2, w2)" by fastforce
    have w2: "clock w2 = clock w" "cache w2 = cache w"
      "db w2 = db w \<or> db w2 = with_status (xp_ExportID p) ''done'' (Some ?key) (pg_now w) (db w)"
      using run_frame [OF u] w1 by (auto simp: UpdateExportStatus_eq)
    have fin: "r2 = Inr () \<Longrightarrow> db w2 = with_status (xp_ExportID p) ''done'' (Some ?key) (pg_now w) (db w)"
      using u w1 by (auto simp: run_Some UpdateExportStatus_eq)
    show ?thesis
    proof (cases ok)
      case False
      then have "r = Some SaveFailed \<and> w' = failExport (xp_ExportID p) w1 \<and> s' = s1"
        using assms Some l Inr sv by (simp add: handleExportCSV_def Let_def)
      then have "r \<noteq> None" "save ?key (write_csv (csv_header # map (csv_row E) rows)) s = (ok, s')"
        "db w' = db w \<or> db w' = with_status (xp_ExportID p) ''error'' None (pg_now w) (db w)" "clock w' = clock w" "cache w' = cache w"
        using sv fe by auto
      then show ?thesis by blast
    next
      case True
      then have "s' = s1 \<and> w' = w2 \<and> (r = None \<longleftrightarrow> r2 = Inr ())"
        using assms Some l Inr sv u by (cases r2) (auto simp: handleExportCSV_def Let_def)
      then have o: "save ?key (write_csv (csv_header # map (csv_row E) rows)) s = (True, s')" "clock w' = clock w" "cache w' = cache w"
        "db w' = db w \<or> db w' = with_status (xp_ExportID p) ''done'' (Some ?key) (pg_now w) (db w)"
        "r = None \<Longrightarrow> db w' = with_status (xp_ExportID p) ''done'' (Some ?key) (pg_now w) (db w)"
        using sv True w2 fin by auto
      then show ?thesis by (cases "r = None") blast+
    qed
  qed
qed

context object_store
begin

lemma handleExportCSV_ok:
  assumes "handleExportCSV E save p w s = (r, w', s')" and "exports_ok (db w)" and "files_ok fetch (db w) s"
    and "\<And>i. good (export_key i)"
  shows "exports_ok (db w') \<and> files_ok fetch (db w') s'"
proof -
  let ?i = "xp_ExportID p"
  have kept: "fetch (export_key (e_id e)) s' \<noteq> None" if "e \<in> set (exports (db w))" "e_status e = ''done''"
    "s' = s \<or> (\<exists>body ok. save (export_key ?i) body s = (ok, s'))" for e
    using that assms(3) fetch_present [OF assms(4) assms(4)] unfolding files_ok_def by blast
  from handleExportCSV_cases [OF assms(1)] consider
      "db w' = db w" "s' = s \<or> (\<exists>body ok. save (export_key ?i) body s = (ok, s'))"
    | "db w' = with_status ?i ''error'' None (pg_now w) (db w)" "s' = s \<or> (\<exists>body ok. save (export_key ?i) body s = (ok, s'))"
    | body where "save (export_key ?i) body s = (True, s')"
      "db w' = with_status ?i ''done'' (Some (export_key ?i)) (pg_now w) (db w)"
    by blast
  then show ?thesis
  proof cases
    case 1
    with assms(2) kept show ?thesis by (simp add: files_ok_def)
  next
    case 2
    then show ?thesis using with_status_ok [OF assms(2)] kept by (auto simp: files_ok_def with_status_def split: if_splits)
  next
    case 3
    have "fetch (export_key ?i) s' \<noteq> None" using fetch_saved [OF assms(4) 3(1)] by simp
    moreover have "s' = s \<or> (\<exists>body ok. save (export_key ?i) body s = (ok, s'))" using 3(1) by blast
    ultimately have "files_ok fetch (db w') s'"
      unfolding 3(2) files_ok_def using kept by (auto simp: with_status_def)
    then show ?thesis using with_status_ok [OF assms(2)] 3(2) by simp
  qed
qed

text \<open>The owner of a finished export gets its file.\<close>

lemma Download_served:
  assumes "db_faults w = []" and "exports_ok (db w)" and "files_ok fetch (db w) s"
    and "e \<in> set (exports (db w))" and "e_status e = ''done''"
    and "user_of rq = Some (e_user_id e)" and "path_id rq = Some (e_id e)"
  shows "\<exists>body. fetch (export_key (e_id e)) s = Some body \<and> Download fetch rq w s = (Reply 200 (File body), w)"
proof -
  have "find (\<lambda>x. e_id x = e_id e) (exports (db w)) = Some e"
    using assms(2,4) by (intro find_unique) (auto simp: exports_ok_def dest: distinct_map_eqD)
  then have "ownedExport rq w = (Inr e, w)"
    using assms(1,6,7) by (simp add: ownedExport_def run_healthy GetExportByID_def read_only_def)
  moreover have "e_file_path e = Some (export_key (e_id e))" using assms(2,4,5) by (auto simp: exports_ok_def export_ok_def)
  moreover obtain body where "fetch (export_key (e_id e)) s = Some body" using assms(3,4,5) by (auto simp: files_ok_def)
  ultimately show ?thesis using assms(5) by (simp add: Download_def)
qed

end

section \<open>The postings of a month\<close>

text \<open>In a database session in UTC the month of an instant is the calendar month: the days from its first to its last.\<close>

lemma civil_days_first: "civil_days y m d = civil_days y m 1 + (d - 1)"
  by (simp add: civil_days_def)

lemma civil_of_month:
  assumes "1 \<le> m" and "m \<le> 12"
  shows "(\<exists>d. civil_of n = (y, m, d)) \<longleftrightarrow> civil_days y m 1 \<le> n \<and> n < civil_days y m 1 + days_in y m"
proof
  assume "\<exists>d. civil_of n = (y, m, d)"
  then obtain d where "civil_of n = (y, m, d)" ..
  then show "civil_days y m 1 \<le> n \<and> n < civil_days y m 1 + days_in y m"
    using civil_of_valid [of n y m d] civil_days_first [of y m d] by (auto simp: valid_date_def)
next
  assume n: "civil_days y m 1 \<le> n \<and> n < civil_days y m 1 + days_in y m"
  let ?d = "n - civil_days y m 1 + 1"
  have "valid_date y m ?d" using n assms by (simp add: valid_date_def)
  from civil_of_civil_days [OF this] show "\<exists>d. civil_of n = (y, m, d)"
    unfolding civil_days_first [of y m ?d] by simp
qed

lemma day_of_instant: "n \<le> us div 86400000000 \<longleftrightarrow> n * 86400000000 \<le> (us :: int)"
proof -
  define q where "q = us div 86400000000"
  have "86400000000 * q \<le> us" "us < 86400000000 * q + 86400000000" unfolding q_def by (rule div_bounds)+
  then have "n \<le> q \<longleftrightarrow> n * 86400000000 \<le> us" by linarith
  then show ?thesis by (simp add: q_def)
qed

lemma pg_month_UTC:
  assumes z: "pg_off E = (\<lambda>_. 0)" and m: "1 \<le> m" "m \<le> 12" and t_def: "t = pg_time (time_Date y m 1 0 0 0 0 0)"
  shows "pg_month E us = pg_month E t \<longleftrightarrow> t \<le> us \<and> us < t + days_in y m * 86400000000"
proof -
  let ?D = "civil_days y m 1"
  have t: "t = ?D * 86400000000" by (simp add: t_def pg_time_def time_Date_def)
  have "civil_of ?D = (y, m, 1)"
    using m by (intro civil_of_civil_days) (auto simp: valid_date_def days_in_def)
  moreover have "us div 1000000 div 86400 = us div 86400000000" for us :: int
    by (simp add: zdiv_zmult2_eq [symmetric])
  ultimately have e: "pg_month E us = pg_month E t \<longleftrightarrow> (\<exists>d. civil_of (us div 86400000000) = (y, m, d))"
    by (auto simp: pg_month_def z t split: prod.splits)
  show ?thesis
    using day_of_instant [of ?D us] day_of_instant [of "?D + days_in y m" us]
    unfolding e civil_of_month [OF m] by (auto simp: t algebra_simps)
qed

text \<open>What the query joins and keeps, before it is ordered.\<close>

definition month_join :: "env \<Rightarrow> int \<Rightarrow> int \<Rightarrow> database \<Rightarrow> (posting_row \<times> transaction_row \<times> account_row) list" where
  "month_join E uid month d =
     concat (map (\<lambda>(p, t). map (\<lambda>a. (p, t, a)) (filter (\<lambda>a. a_id a = p_account_id p \<and> a_kind a = ''normal'') (accounts d)))
       (filter (\<lambda>(p, t). t_user_id t = uid \<and> pg_month E (t_occurred_at t) = pg_month E month) (joined d)))"

lemma distinct_month_join:
  assumes "ids_ok d"
  shows "distinct (map (\<lambda>(p, t, a). p_id p) (month_join E uid month d))"
proof -
  let ?f = "\<lambda>x. filter (\<lambda>a. a_id a = p_account_id (fst x) \<and> a_kind a = ''normal'') (accounts d)"
  let ?ps = "filter (\<lambda>(p, t). t_user_id t = uid \<and> pg_month E (t_occurred_at t) = pg_month E month) (joined d)"
  have "length (?f x) \<le> 1" for x :: "posting_row \<times> transaction_row"
  proof -
    have "length (filter (\<lambda>a. a_id a = p_account_id (fst x)) (filter (\<lambda>a. a_kind a = ''normal'') (accounts d))) \<le> 1"
      using assms by (intro filter_key_once distinct_map_filter) (simp add: ids_ok_def)
    then show ?thesis by (simp add: conj_commute)
  qed
  from distinct_pairs [OF distinct_map_filter [OF distinct_joined [OF assms]] this]
  show ?thesis by (simp add: month_join_def map_concat o_def case_prod_unfold)
qed

lemma month_join_set:
  "(p, t, a) \<in> set (month_join E uid month d) \<longleftrightarrow>
     p \<in> set (postings d) \<and> t \<in> set (transactions d) \<and> t_id t = p_transaction_id p \<and> t_user_id t = uid \<and>
     a \<in> set (accounts d) \<and> a_id a = p_account_id p \<and> a_kind a = ''normal'' \<and> pg_month E (t_occurred_at t) = pg_month E month"
  by (auto simp: month_join_def joined_def image_iff)

text \<open>The postings on the normal accounts of a user's transactions that occurred in a calendar month, in UTC, each with its
  transaction and its account; and the order of a file.\<close>

definition posted_in :: "int \<Rightarrow> int \<Rightarrow> int \<Rightarrow> database \<Rightarrow> (posting_row \<times> transaction_row \<times> account_row) set" where
  "posted_in uid y m d = {(p, t, a). p \<in> set (postings d) \<and> t \<in> set (transactions d) \<and> t_id t = p_transaction_id p \<and> t_user_id t = uid \<and>
     a \<in> set (accounts d) \<and> a_id a = p_account_id p \<and> a_kind a = ''normal'' \<and>
     civil_days y m 1 * 86400000000 \<le> t_occurred_at t \<and> t_occurred_at t < (civil_days y m 1 + days_in y m) * 86400000000}"

definition file_order :: "posting_row \<times> transaction_row \<times> account_row \<Rightarrow> posting_row \<times> transaction_row \<times> account_row \<Rightarrow> bool" where
  "file_order x y = (case (x, y) of ((p, t, a), (p', t', a')) \<Rightarrow>
     t_occurred_at t < t_occurred_at t' \<or> t_occurred_at t = t_occurred_at t' \<and> p_id p < p_id p')"

definition month_line :: "posting_row \<times> transaction_row \<times> account_row \<Rightarrow> month_posting" where
  "month_line x = (case x of (p, t, a) \<Rightarrow>
     \<lparr>mp_transaction_id = t_id t, mp_account_id = p_account_id p, mp_account_name = a_name a, mp_category_id = t_category_id t,
      mp_amount_minor = p_amount_minor p, mp_currency = t_currency t, mp_occurred_at = t_occurred_at t, mp_note = t_note t\<rparr>)"

lemma ListPostingsForMonth_UTC:
  assumes z: "pg_off E = (\<lambda>_. 0)" and m: "1 \<le> m" "m \<le> 12" and ids: "ids_ok d"
  shows "\<exists>xs. fst (ListPostingsForMonth E uid (pg_time (time_Date y m 1 0 0 0 0 0)) now d) = Inr (map month_line xs) \<and>
    set xs = posted_in uid y m d \<and> sorted_wrt file_order xs"
proof -
  let ?t = "pg_time (time_Date y m 1 0 0 0 0 0)"
  let ?ys = "sort_key (\<lambda>(p, t, a). p_id p) (month_join E uid ?t d)"
  let ?xs = "sort_key (\<lambda>(p, t, a). t_occurred_at t) ?ys"
  have "fst (ListPostingsForMonth E uid ?t now d) = Inr (map month_line ?xs)"
    by (simp add: ListPostingsForMonth_def read_only_def month_join_def month_line_def [abs_def])
  moreover
  have "?t = civil_days y m 1 * 86400000000" by (simp add: pg_time_def time_Date_def)
  then have pm: "pg_month E us = pg_month E ?t \<longleftrightarrow>
      civil_days y m 1 * 86400000000 \<le> us \<and> us < (civil_days y m 1 + days_in y m) * 86400000000" for us
    unfolding pg_month_UTC [OF z m refl] by (simp add: distrib_right)
  have "x \<in> set ?xs \<longleftrightarrow> x \<in> posted_in uid y m d" for x
    by (cases x) (simp only: set_sort month_join_set posted_in_def pm mem_Collect_eq prod.case)
  then have "set ?xs = posted_in uid y m d" by blast
  moreover have "sorted_wrt (<) (map (\<lambda>(p, t, a). p_id p) ?ys)"
    unfolding strict_sorted_iff using distinct_month_join [OF ids, of E uid ?t] by (simp add: distinct_map)
  then have "sorted_wrt file_order ?xs"
    using sort_key_stable_wrt [of "\<lambda>x y. p_id (fst x) < p_id (fst y)" ?ys "\<lambda>(p, t, a). t_occurred_at t"]
    by (simp add: sorted_wrt_map file_order_def [abs_def] case_prod_unfold)
  ultimately show ?thesis by blast
qed
section \<open>From the request to the file\<close>

lemma digits_from_bound: "digits_from a cs = Some n \<Longrightarrow> n < (a + 1) * 10 ^ length cs"
proof (induction cs arbitrary: a)
  case (Cons c cs)
  then have d: "is_digit c" and n: "digits_from (10 * a + digit_val c) cs = Some n" by (auto split: if_splits)
  have "digit_val c \<le> 9" using d by (auto simp: is_digit_def digit_val_def)
  then have "(10 * a + digit_val c + 1) * 10 ^ length cs \<le> ((a + 1) * 10) * 10 ^ length cs" by (intro mult_right_mono) auto
  also have "((a + 1) * 10) * 10 ^ length cs = (a + 1) * 10 ^ length (c # cs)" by (simp add: algebra_simps)
  finally show ?case using Cons.IH [OF n] by linarith
qed simp

text \<open>A month of a request is the first instant of a month of the years 0 to 9999.\<close>

lemma parse_month_first:
  assumes "parse_month s = Some t"
  shows "0 \<le> Year t \<and> Year t \<le> 9999 \<and> 1 \<le> Month t \<and> Month t \<le> 12 \<and> Day t = 1 \<and> t = time_Date (Year t) (Month t) (Day t) 0 0 0 0 0"
proof -
  obtain y m where y: "y < 10 ^ 4" and m: "1 \<le> m" "m \<le> 12" and t: "t = time_Date (int y) (int m) 1 0 0 0 0 0"
  proof -
    obtain y s1 m s2 where y: "parse_year s = Some (y, s1)" and m: "1 \<le> m" "m \<le> 12" and t: "t = time_Date (int y) (int m) 1 0 0 0 0 0"
      using assms by (auto simp: parse_month_def bind_eq_Some_conv split: if_splits)
    have "parse_uint (take 4 s) = Some y" using y by (auto simp: parse_year_def split: if_splits option.splits)
    then have d: "digits_from 0 (take 4 s) = Some y" by (auto simp: parse_uint_def split: if_splits)
    have "length (take 4 s) = 4" using y by (auto simp: parse_year_def split: if_splits)
    then have "y < 10 ^ 4" using digits_from_bound [OF d] by simp
    then show ?thesis using m t that by blast
  qed
  have "valid_date (int y) (int m) 1" using m by (auto simp: valid_date_def days_in_def)
  from date_of_time_Date [OF this, of 0 0 0 0 0] show ?thesis using y m unfolding t by simp
qed

lemma parse_month_date: "parse_month s = Some t \<Longrightarrow> parse_date (fmt_date t) = Some t"
  using parse_month_first [of s t] fmt_date_parse [of t] by auto

lemma exports_grow:
  assumes "exports_ok d" and "exports d' = exports d @ [e]" and "export_ok e" and "e_id e = exports_seq (seqs d)"
    and "exports_seq (seqs d') = exports_seq (seqs d) + 1"
  shows "exports_ok d'"
  using assms by (auto simp: exports_ok_def)

text \<open>The row that a request for an export adds.\<close>

definition new_export :: "int \<Rightarrow> gtime \<Rightarrow> int \<Rightarrow> int \<Rightarrow> export_row" where
  "new_export uid month now i = \<lparr>e_id = i, e_user_id = uid, e_month = date_day month, e_status = ''pending'',
     e_file_path = None, e_created_at = Some now, e_updated_at = Some now\<rparr>"

lemma CreateExport_runs:
  assumes "db_faults w = []" and "user_of rq = Some uid" and "parse_month (rq_query rq ''month'') = Some month"
    and "has_user uid (db w)" and "exports_seq (seqs (db w)) \<le> MaxInt64"
  defines "i \<equiv> exports_seq (seqs (db w))"
  shows "\<exists>w1. CreateExport_handler E True rq w =
      (writeJSON 202 (export_json E (new_export uid month (pg_now w) i)),
       [\<lparr>xp_ExportID = i, xp_UserID = uid, xp_Month = fmt_date month\<rparr>], w1) \<and> db_faults w1 = [] \<and>
      db w1 = (db w)\<lparr>exports := exports (db w) @ [new_export uid month (pg_now w) i], seqs := (seqs (db w))\<lparr>exports_seq := i + 1\<rparr>\<rparr>"
  using assms
  by (simp add: CreateExport_handler_def run_healthy CreateExport_def with_serial_def Let_def has_user_def new_export_def)

lemma handleExportCSV_runs:
  assumes "db_faults w = []" and "parse_date (xp_Month p) = Some month" and "save (export_key (xp_ExportID p)) body s = (True, s1)"
    and "fst (ListPostingsForMonth E (xp_UserID p) (pg_time month) (pg_now w) (db w)) = Inr rows"
    and "body = write_csv (csv_header # map (csv_row E) rows)"
  shows "\<exists>w1. handleExportCSV E save p w s = (None, w1, s1) \<and> db_faults w1 = [] \<and>
     db w1 = with_status (xp_ExportID p) ''done'' (Some (export_key (xp_ExportID p))) (pg_now w) (db w)"
  using assms by (simp add: handleExportCSV_def run_healthy ListPostingsForMonth_def read_only_def UpdateExportStatus_eq Let_def)

lemma ListPostingsForMonth_frame:
  "postings d' = postings d \<Longrightarrow> transactions d' = transactions d \<Longrightarrow> accounts d' = accounts d \<Longrightarrow>
   fst (ListPostingsForMonth E uid us now' d') = fst (ListPostingsForMonth E uid us now d)"
  by (simp add: ListPostingsForMonth_def read_only_def joined_def)

text \<open>C35. An export works end to end: without faults and with the database session in UTC, a user's request for a month is
  accepted; its task, run with the local store on the state the request left, finishes; and the download then returns the user a CSV
  file that reads back as the header and one line per posting on a normal account of the user's transactions that occurred in that
  calendar month of UTC, all of them and no others, in the order of their time and posting id.\<close>

theorem export_end_to_end:
  assumes "db_faults w = []" and "exports_ok (db w)" and "has_user uid (db w)" and "exports_seq (seqs (db w)) \<le> MaxInt64"
    and "user_of rq = Some uid" and "parse_month (rq_query rq ''month'') = Some month" and "disk_faults s = []"
    and "pg_off E = (\<lambda>_. 0)" and "ids_ok (db w)"
  shows "\<exists>p w1 w2 s1 body xs. CreateExport_handler E True rq w = (writeJSON 202 (export_json E (new_export uid month (pg_now w) (xp_ExportID p))), [p], w1) \<and>
     xp_ExportID p = exports_seq (seqs (db w)) \<and> handleExportCSV E (Local_Save dir) p w1 s = (None, w2, s1) \<and>
     read_csv body = Some (csv_header # map (\<lambda>x. csv_row E (month_line x)) xs) \<and>
     set xs = posted_in uid (Year month) (Month month) (db w) \<and> sorted_wrt file_order xs \<and>
     (user_of rq' = Some uid \<longrightarrow> path_id rq' = Some (xp_ExportID p) \<longrightarrow>
        Download (Local_Open dir) rq' w2 s1 = (Reply 200 (File body), w2))"
proof -
  note first = parse_month_first [OF assms(6)]
  have month: "time_Date (Year month) (Month month) 1 0 0 0 0 0 = month" using first by metis
  obtain xs where xs: "fst (ListPostingsForMonth E uid (pg_time month) (pg_now w) (db w)) = Inr (map month_line xs)"
    and posted: "set xs = posted_in uid (Year month) (Month month) (db w)" "sorted_wrt file_order xs"
    using ListPostingsForMonth_UTC [OF assms(8) _ _ assms(9), of "Month month" uid "Year month" "pg_now w"] first unfolding month by blast
  define rows where "rows = map month_line xs"
  let ?i = "exports_seq (seqs (db w))" and ?body = "write_csv (csv_header # map (csv_row E) rows)"
  let ?p = "\<lparr>xp_ExportID = ?i, xp_UserID = uid, xp_Month = fmt_date month\<rparr>" and ?e = "new_export uid month (pg_now w) ?i"
  obtain w1 where c: "CreateExport_handler E True rq w = (writeJSON 202 (export_json E ?e), [?p], w1)" and f1: "db_faults w1 = []"
    and d1: "db w1 = (db w)\<lparr>exports := exports (db w) @ [?e], seqs := (seqs (db w))\<lparr>exports_seq := ?i + 1\<rparr>\<rparr>"
    using CreateExport_runs [OF assms(1,5,6,3,4)] by blast
  obtain s1 where sv: "Local_Save dir (export_key ?i) ?body s = (True, s1)"
    using assms(7) by (simp add: Local_Save_def Let_def)
  have "fst (ListPostingsForMonth E uid (pg_time month) (pg_now w1) (db w1)) = Inr rows"
    unfolding rows_def xs [symmetric] by (rule ListPostingsForMonth_frame) (simp_all add: d1)
  then obtain w2 where h: "handleExportCSV E (Local_Save dir) ?p w1 s = (None, w2, s1)" and f2: "db_faults w2 = []"
    and d2: "db w2 = with_status ?i ''done'' (Some (export_key ?i)) (pg_now w1) (db w1)"
    using handleExportCSV_runs [OF f1, of ?p month "Local_Save dir" ?body s s1 E rows] parse_month_date [OF assms(6)] sv by auto
  have "export_ok ?e" "e_id ?e = ?i" by (simp_all add: new_export_def export_ok_def)
  then have "exports_ok (db w1)" by (intro exports_grow [OF assms(2), where e = ?e]) (simp_all add: d1)
  then have ok2: "exports_ok (db w2)" unfolding d2 by (rule with_status_ok) simp
  let ?done = "?e\<lparr>e_status := ''done'', e_file_path := Some (export_key ?i), e_updated_at := Some (pg_now w1)\<rparr>"
  have e: "?done \<in> set (exports (db w2))" by (simp add: d2 d1 with_status_def new_export_def)
  have fetched: "Local_Open dir (export_key ?i) s1 = Some ?body" by (rule local_store.fetch_saved [OF plain_export_key sv])
  have "Download (Local_Open dir) rq' w2 s1 = (Reply 200 (File ?body), w2)"
    if "user_of rq' = Some uid" "path_id rq' = Some ?i"
  proof -
    have "find (\<lambda>x. e_id x = ?i) (exports (db w2)) = Some ?done"
      using ok2 e by (intro find_unique) (auto simp: exports_ok_def new_export_def dest: distinct_map_eqD)
    then have "ownedExport rq' w2 = (Inr ?done, w2)"
      using f2 that by (simp add: ownedExport_def run_healthy GetExportByID_def read_only_def new_export_def)
    then show ?thesis using fetched by (simp add: Download_def)
  qed
  moreover have "read_csv ?body = Some (csv_header # map (csv_row E) rows)"
    by (rule csv.dec_enc) (auto simp: csv_header_def csv_row_def)
  ultimately show ?thesis using c h posted unfolding rows_def list.map_comp o_def
    by (intro exI [of _ ?p] exI [of _ w1] exI [of _ w2] exI [of _ s1] exI [of _ "write_csv (csv_header # map (\<lambda>x. csv_row E (month_line x)) xs)"]
      exI [of _ xs]) auto
qed

definition sample_disk :: disk where
  "sample_disk = \<lparr>files = (\<lambda>_. None), disk_faults = []\<rparr>"

definition sample_month :: request where
  "sample_month = sample_request\<lparr>rq_query := (\<lambda>_. ''1970-01'')\<rparr>"

text \<open>The one posting of January 1970 in the sample.\<close>

lemma sample_posted:
  "\<exists>x. posted_in 1 1970 1 sample_db1 = {x} \<and>
     csv_row sample_env (month_line x) = [''1'', ''1'', ''Cash'', [], ''500'', ''USD'', ''1970-01-01T00:00:00Z'', ''pay'']"
proof -
  let ?q = "fst (ListPostingsForMonth sample_env 1 (pg_time (time_Date 1970 1 1 0 0 0 0 0)) 0 sample_db1)"
  have z: "pg_off sample_env = (\<lambda>_. 0)" by (simp add: sample_env_def)
  have i: "ids_ok sample_db1" by code_simp
  obtain xs where "?q = Inr (map month_line xs)" and s: "set xs = posted_in 1 1970 1 sample_db1"
    using ListPostingsForMonth_UTC [OF z _ _ i, of 1 1 1970 0] by auto
  moreover have "map_sum id (map (csv_row sample_env)) ?q = Inr [[''1'', ''1'', ''Cash'', [], ''500'', ''USD'', ''1970-01-01T00:00:00Z'', ''pay'']]"
    by code_simp
  ultimately have l: "map (\<lambda>x. csv_row sample_env (month_line x)) xs = [[''1'', ''1'', ''Cash'', [], ''500'', ''USD'', ''1970-01-01T00:00:00Z'', ''pay'']]"
    by (simp add: o_def)
  then obtain x where "xs = [x]" by (cases xs) auto
  then show ?thesis using l s by (intro exI [of _ x]) simp
qed

lemma file_of_one: "set xs = {x} \<Longrightarrow> sorted_wrt file_order xs \<Longrightarrow> xs = [x]"
  by (cases xs; cases "tl xs") (auto simp: file_order_def subset_singleton_iff)

theorem export_end_to_end_witness:
  "\<exists>p w1 w2 s1 body. status (fst (CreateExport_handler sample_env True sample_month sample_world2)) = 202 \<and>
     handleExportCSV sample_env (Local_Save ''exports'') p w1 sample_disk = (None, w2, s1) \<and>
     read_csv body = Some [csv_header, [''1'', ''1'', ''Cash'', [], ''500'', ''USD'', ''1970-01-01T00:00:00Z'', ''pay'']] \<and>
     Download (Local_Open ''exports'') sample_request w2 s1 = (Reply 200 (File body), w2)"
proof -
  let ?m = "time_Date 1970 1 1 0 0 0 0 0" and ?d = "db sample_world2"
  have a: "db_faults sample_world2 = []" by (simp add: sample_world2_def sample_world_def)
  have b: "exports_ok ?d" "has_user 1 ?d" "exports_seq (seqs ?d) \<le> MaxInt64" by code_simp+
  have c: "user_of sample_month = Some 1" "parse_month (rq_query sample_month ''month'') = Some ?m" by code_simp+
  have f: "disk_faults sample_disk = []" "pg_off sample_env = (\<lambda>_. 0)" by (simp_all add: sample_disk_def sample_env_def)
  have i: "ids_ok ?d" by code_simp
  have e: "exports_seq (seqs sample_db1) = 1" "Year ?m = 1970" "Month ?m = 1" by code_simp+
  have q: "user_of sample_request = Some 1" "path_id sample_request = Some 1" by code_simp+
  have d: "?d = sample_db1" by (simp add: sample_world2_def)
  obtain x where x: "posted_in 1 1970 1 sample_db1 = {x}"
    "csv_row sample_env (month_line x) = [''1'', ''1'', ''Cash'', [], ''500'', ''USD'', ''1970-01-01T00:00:00Z'', ''pay'']"
    using sample_posted by blast
  obtain p w1 w2 s1 body xs where "CreateExport_handler sample_env True sample_month sample_world2 =
        (writeJSON 202 (export_json sample_env (new_export 1 ?m (pg_now sample_world2) (xp_ExportID p))), [p], w1)"
    and "xp_ExportID p = 1" "handleExportCSV sample_env (Local_Save ''exports'') p w1 sample_disk = (None, w2, s1)"
    and "read_csv body = Some (csv_header # map (\<lambda>x. csv_row sample_env (month_line x)) xs)"
    and "set xs = {x}" "sorted_wrt file_order xs"
    and "user_of sample_request = Some 1 \<longrightarrow> path_id sample_request = Some (xp_ExportID p) \<longrightarrow>
      Download (Local_Open ''exports'') sample_request w2 s1 = (Reply 200 (File body), w2)"
    using export_end_to_end [OF a b c f i, of "''exports''" sample_request] unfolding d e x(1) by blast
  then show ?thesis using q x(2) file_of_one [of xs x] by fastforce
qed

text \<open>C40. Exports are private: without database faults, the status and download endpoints answer 404 alike for another user's export and for a missing one.\<close>

theorem foreign_export_hidden:
  assumes "db_faults w = []" and "path_id rq = Some i" and "user_of rq = Some uid"
    and "\<not> (\<exists>e\<in>set (exports (db w)). e_id e = i \<and> e_user_id e = uid)"
  shows "GetStatus E rq w = (Reply 404 (Text ''not found''), w) \<and> Download fetch rq w s = (Reply 404 (Text ''not found''), w)"
proof -
  have "ownedExport rq w = (Inl (http_Error ''not found'' 404), w)"
  proof (cases "find (\<lambda>e. e_id e = i) (exports (db w))")
    case None
    then show ?thesis using assms(1-3) by (simp add: ownedExport_def run_healthy GetExportByID_def read_only_def)
  next
    case (Some e)
    then have "e_user_id e \<noteq> uid" using assms(4) find_Some_in [OF Some] by auto
    with Some show ?thesis using assms(1-3) by (simp add: ownedExport_def run_healthy GetExportByID_def read_only_def)
  qed
  then show ?thesis by (simp add: GetStatus_def Download_def http_Error_def)
qed

theorem foreign_export_hidden_witness:
  "Download (Local_Open ''exports'') sample_request (sample_world2\<lparr>db := sample_db1\<lparr>exports := [new_export 2 sample_time 3 1]\<rparr>\<rparr>) sample_disk
     = (Reply 404 (Text ''not found''), sample_world2\<lparr>db := sample_db1\<lparr>exports := [new_export 2 sample_time 3 1]\<rparr>\<rparr>)"
proof -
  let ?w = "sample_world2\<lparr>db := sample_db1\<lparr>exports := [new_export 2 sample_time 3 1]\<rparr>\<rparr>"
  have "db_faults ?w = []" by (simp add: sample_world2_def sample_world_def)
  moreover have "path_id sample_request = Some 1" "user_of sample_request = Some 1" by code_simp+
  moreover have "\<not> (\<exists>e\<in>set (exports (db ?w)). e_id e = 1 \<and> e_user_id e = 1)" by (simp add: new_export_def)
  ultimately show ?thesis
    using foreign_export_hidden [where w = ?w and rq = sample_request and i = 1 and uid = 1
        and E = sample_env and fetch = "Local_Open ''exports''" and s = sample_disk] by blast
qed

end
