(* ===== verification/Server.thy ===== *)
theory Server
  imports Auth Exports
begin

text \<open>
  The outer layer of the server: cross-origin headers (internal/transport/http/cors.go), health endpoints (router.go) and the
  configuration helpers of cmd/ledgerx/main.go.
\<close>

section \<open>Configuration\<close>

definition getenv :: "(string \<Rightarrow> string) \<Rightarrow> string \<Rightarrow> string \<Rightarrow> string" where
  "getenv environ k dflt = (let v = environ k in if v \<noteq> [] then v else dflt)"

definition envInt :: "(string \<Rightarrow> string) \<Rightarrow> string \<Rightarrow> int \<Rightarrow> int" where
  "envInt environ k dflt =
     (let v = environ k
      in if v \<noteq> [] then (case ParseInt v of Some n \<Rightarrow> if 0 < n then n else dflt | None \<Rightarrow> dflt) else dflt)"

text \<open>The two limiters that \<open>main\<close> sets up: for the authentication routes and for \<open>/v1\<close>; \<open>rps * 10\<close> wraps as an \<open>int\<close>.\<close>

definition auth_limiter :: "(string \<Rightarrow> string) \<Rightarrow> rate_limiter" where
  "auth_limiter environ =
     NewRateLimiter (envInt environ ''AUTH_RATE_LIMIT_BURST'' 10) (envInt environ ''AUTH_RATE_LIMIT_RPS'' 1)"

definition api_limiter :: "(string \<Rightarrow> string) \<Rightarrow> rate_limiter" where
  "api_limiter environ =
     (let rps = envInt environ ''API_RATE_LIMIT_RPS'' 1;
          burst = envInt environ ''API_RATE_LIMIT_BURST'' (sint (word_of_int rps * 10 :: int64))
      in NewRateLimiter burst rps)"

section \<open>Cross-origin requests\<close>

definition allow_origin :: "string \<Rightarrow> string \<Rightarrow> string" where
  "allow_origin permitted origin =
     (if permitted = ''*'' then ''*''
      else if permitted \<noteq> [] then
        (if \<exists>entry\<in>set (split_on CHR '','' permitted). EqualFold (TrimSpace entry) origin then origin else [])
      else origin)"

definition cors_headers :: "string \<Rightarrow> headers" where
  "cors_headers grant =
     (if grant \<noteq> [] then
        [(''Access-Control-Allow-Origin'', grant), (''Vary'', ''Origin''),
         (''Access-Control-Allow-Methods'', ''GET, POST, PUT, DELETE, OPTIONS''),
         (''Access-Control-Allow-Headers'', ''Authorization, Content-Type, Idempotency-Key''),
         (''Access-Control-Expose-Headers'', ''Content-Disposition'')]
      else [])"

text \<open>\<open>setting\<close> is \<open>CORS_ALLOWED_ORIGINS\<close>; \<open>next\<close> is the rest of the chain with the headers set so far.\<close>

definition CORSMiddleware :: "string \<Rightarrow> (headers \<Rightarrow> reply \<Rightarrow> 'r) \<Rightarrow> (headers \<Rightarrow> 'r) \<Rightarrow> string \<Rightarrow> request \<Rightarrow> 'r" where
  "CORSMiddleware setting answer next meth rq =
     (let permitted = TrimSpace setting; origin = rq_header rq ''Origin''
      in if origin = [] then next []
         else let hs = cors_headers (allow_origin permitted origin)
              in if meth = ''OPTIONS'' then answer hs (Reply 204 NoBody) else next hs)"

text \<open>\<open>/healthz\<close> and \<open>/readyz\<close>, by whether the two pings succeed.\<close>

definition healthz :: reply where
  "healthz = Reply 200 (Text ''ok'')"

definition readyz :: "bool \<Rightarrow> bool \<Rightarrow> reply" where
  "readyz dbOk redisOk = (if dbOk \<and> redisOk then Reply 200 (Text ''ready'') else Reply 503 (Text ''not ready''))"

section \<open>Properties\<close>

lemma envInt_pos: "0 < dflt \<Longrightarrow> 0 < envInt environ k dflt"
  by (simp add: envInt_def Let_def split: option.split)

text \<open>With a list of origins configured, an origin is granted access only when it is, up to case, an entry of the list; the grant
  names that origin and never the wildcard. Every other origin gets no cross-origin header, and a preflight request never
  reaches a handler.\<close>

theorem cors_allow_list:
  assumes "TrimSpace setting \<noteq> []" and "TrimSpace setting \<noteq> ''*''" and "rq_header rq ''Origin'' \<noteq> []"
  shows "\<exists>hs. CORSMiddleware setting answer next meth rq = (if meth = ''OPTIONS'' then answer hs (Reply 204 NoBody) else next hs) \<and>
     (if \<exists>entry\<in>set (split_on CHR '','' (TrimSpace setting)). EqualFold (TrimSpace entry) (rq_header rq ''Origin'')
      then map_of hs ''Access-Control-Allow-Origin'' = Some (rq_header rq ''Origin'') else hs = [])"
  using assms by (auto simp: CORSMiddleware_def allow_origin_def cors_headers_def Let_def)

theorem cors_allow_list_witness:
  "CORSMiddleware ''https://a.org, https://b.org'' Pair (\<lambda>hs. (hs, Panic)) ''GET'' (sample_request\<lparr>rq_header := (\<lambda>_. ''https://evil.org'')\<rparr>)
     = ([], Panic) \<and>
   map_of (fst (CORSMiddleware ''https://a.org, https://b.org'' Pair (\<lambda>hs. (hs, Panic)) ''GET''
     (sample_request\<lparr>rq_header := (\<lambda>_. ''https://B.org'')\<rparr>))) ''Access-Control-Allow-Origin'' = Some ''https://B.org''"
proof -
  let ?set = "''https://a.org, https://b.org''"
  let ?evil = "sample_request\<lparr>rq_header := (\<lambda>_. ''https://evil.org'')\<rparr>" and ?b = "sample_request\<lparr>rq_header := (\<lambda>_. ''https://B.org'')\<rparr>"
  have s: "TrimSpace ?set \<noteq> []" "TrimSpace ?set \<noteq> ''*''" by code_simp+
  have "\<not> (\<exists>entry\<in>set (split_on CHR '','' (TrimSpace ?set)). EqualFold (TrimSpace entry) (rq_header ?evil ''Origin''))" by code_simp
  moreover have "\<exists>entry\<in>set (split_on CHR '','' (TrimSpace ?set)). EqualFold (TrimSpace entry) (rq_header ?b ''Origin'')" by code_simp
  ultimately show ?thesis
    using cors_allow_list [OF s, of ?evil Pair "\<lambda>hs. (hs, Panic)" "''GET''"] cors_allow_list [OF s, of ?b Pair "\<lambda>hs. (hs, Panic)" "''GET''"] by auto
qed

end
