(* ===== verification/Routes.thy ===== *)
theory Routes
  imports Server
begin

text \<open>
  The routing table of cmd/ledgerx/main.go and of the Routes methods of internal/transport/http, with the chain of middleware in
  front of each route. Path matching is chi's: a request comes with the route it matched.
\<close>

section \<open>Start\<close>

text \<open>\<open>MustOpenPool\<close> (internal/repo/db.go): the URL with its fallbacks, the settings of the pool, and the three calls of pgx that make it
  panic when they fail. Durations are in seconds.\<close>

record pool_config =
  pc_url :: string
  pc_tracer :: bool
  pc_MaxConns :: int
  pc_MinConns :: int
  pc_MaxConnLifetime :: int
  pc_MaxConnIdleTime :: int

text \<open>The outcome of the calls out of the program: pgx, loading the AWS configuration, making a directory.\<close>

record outside =
  ou_ParseConfig :: "string \<Rightarrow> pool_config option"
  ou_NewWithConfig :: "pool_config \<Rightarrow> bool"
  ou_Ping :: "pool_config \<Rightarrow> bool"
  ou_aws :: bool
  ou_mkdir :: "string \<Rightarrow> bool"

definition database_url :: "(string \<Rightarrow> string) \<Rightarrow> string" where
  "database_url environ =
     (let url = environ ''DATABASE_URL''
      in if url = [] then (if environ ''APP_ENV'' = ''docker'' then environ ''DATABASE_URL_DOCKER'' else environ ''DATABASE_URL_LOCAL'')
         else url)"

definition MustOpenPool :: "outside \<Rightarrow> (string \<Rightarrow> string) \<Rightarrow> pool_config option" where
  "MustOpenPool calls environ =
     (case ou_ParseConfig calls (database_url environ) of
        None \<Rightarrow> None
      | Some cfg0 \<Rightarrow>
          let cfg = cfg0\<lparr>pc_tracer := True, pc_MaxConns := 10, pc_MinConns := 2, pc_MaxConnLifetime := 3600, pc_MaxConnIdleTime := 600\<rparr>
          in if \<not> ou_NewWithConfig calls cfg then None
             else if \<not> ou_Ping calls cfg then None
             else Some cfg)"

text \<open>What \<open>main\<close> has when it starts to listen: the libraries, the environment variables, the addresses, the signing key, the pool
  and the export storage. A missing key outside \<open>dev\<close> or a storage that cannot be set up ends the process at once (\<open>log.Fatal\<close>); a
  database that does not answer panics.\<close>

record config =
  cf_env :: env
  cf_libs :: libs
  cf_environ :: "string \<Rightarrow> string"
  cf_splitHostPort :: "string \<Rightarrow> string option"
  cf_addr :: string
  cf_redisAddr :: string
  cf_secret :: string
  cf_pool :: pool_config
  cf_store :: backend

datatype start_failure = Fatal | Panicked

definition start ::
  "outside \<Rightarrow> env \<Rightarrow> libs \<Rightarrow> (string \<Rightarrow> string option) \<Rightarrow> (string \<Rightarrow> string) \<Rightarrow> start_failure + config" where
  "start calls E L split environ =
     (let env = getenv environ ''APP_ENV'' ''dev'';
          addr = getenv environ ''HTTP_ADDR'' '':8080'';
          redisAddr = getenv environ ''REDIS_ADDR'' ''localhost:6379''
      in case signing_key env (environ ''JWT_SIGNING_KEY'') of
           None \<Rightarrow> Inl Fatal
         | Some secret \<Rightarrow>
        (case MustOpenPool calls environ of
           None \<Rightarrow> Inl Panicked
         | Some pool \<Rightarrow>
        (case FromEnv (ou_aws calls) (ou_mkdir calls) environ of
           None \<Rightarrow> Inl Fatal
         | Some store \<Rightarrow> Inr \<lparr>cf_env = E, cf_libs = L, cf_environ = environ, cf_splitHostPort = split, cf_addr = addr,
             cf_redisAddr = redisAddr, cf_secret = secret, cf_pool = pool, cf_store = store\<rparr>)))"

section \<open>Endpoints\<close>

text \<open>The tasks of jobs.go.\<close>

datatype task = SnapshotAll string | SnapshotAccount snapshot_payload | ExportCSV export_payload

text \<open>What a request meets beside the world: whether the queue takes a task, the export files, the address of the peer, and
  whether the two pings of \<open>/readyz\<close> succeed. What it does: a reply, tasks, a new world.\<close>

record scene =
  sc_accepts :: bool
  sc_fetch :: "string \<Rightarrow> string option"
  sc_addr :: string
  sc_db_ping :: bool
  sc_redis_ping :: bool

type_synonym effect = "reply \<times> task list \<times> world"

type_synonym endpoint = "scene \<Rightarrow> request \<Rightarrow> world \<Rightarrow> effect"

definition answered :: "reply \<Rightarrow> world \<Rightarrow> effect" where
  "answered rep w = (rep, [], w)"

definition of_handler :: "handler \<Rightarrow> endpoint" where
  "of_handler h sc rq w = (case h rq w of (rep, w1) \<Rightarrow> (rep, [], w1))"

definition export_endpoint :: "env \<Rightarrow> endpoint" where
  "export_endpoint E sc rq w =
     (case CreateExport_handler E (sc_accepts sc) rq w of (rep, ps, w1) \<Rightarrow> (rep, map ExportCSV ps, w1))"

definition download_endpoint :: endpoint where
  "download_endpoint sc rq w = (case Download (\<lambda>k _. sc_fetch sc k) rq w () of (rep, w1) \<Rightarrow> (rep, [], w1))"

definition admin_endpoint :: "string \<Rightarrow> endpoint" where
  "admin_endpoint want sc rq w = (case RunSnapshotAll want (sc_accepts sc) rq of (rep, ds) \<Rightarrow> (rep, map SnapshotAll ds, w))"

section \<open>Routes\<close>

type_synonym route = "string \<times> string \<times> endpoint"

definition HealthRoutes :: "route list" where
  "HealthRoutes =
     [(''GET'', ''/healthz'', \<lambda>sc rq. answered healthz),
      (''GET'', ''/readyz'', \<lambda>sc rq. answered (readyz (sc_db_ping sc) (sc_redis_ping sc)))]"

definition Admin_Routes :: "config \<Rightarrow> route list" where
  "Admin_Routes C = [(''POST'', ''/admin/snapshot/run'', admin_endpoint (cf_environ C ''ADMIN_TOKEN''))]"

definition Auth_Routes :: "config \<Rightarrow> route list" where
  "Auth_Routes C =
     [(''POST'', ''/auth/register'', of_handler (Register (cf_libs C) (cf_secret C))),
      (''POST'', ''/auth/login'', of_handler (Login (cf_libs C) (cf_secret C)))]"

definition Users_Routes :: "route list" where
  "Users_Routes = [(''GET'', ''/users/me'', of_handler Me)]"

definition Accounts_Routes :: "route list" where
  "Accounts_Routes = [(''POST'', ''/accounts'', of_handler Accounts_Create), (''GET'', ''/accounts'', of_handler Accounts_List)]"

definition Transactions_Routes :: "env \<Rightarrow> route list" where
  "Transactions_Routes E =
     [(''POST'', ''/transactions'', of_handler (CreateTransaction E)),
      (''POST'', ''/transactions/{id}/reverse'', of_handler (ReverseTransaction E)),
      (''POST'', ''/transfers'', of_handler (CreateTransfer E)),
      (''GET'', ''/accounts/{id}/transactions'', of_handler (ListAccountEntries_handler E))]"

definition Summary_Routes :: "env \<Rightarrow> route list" where
  "Summary_Routes E = [(''GET'', ''/accounts/{id}/summary'', of_handler (GetSummary E))]"

definition Exports_Routes :: "env \<Rightarrow> route list" where
  "Exports_Routes E =
     [(''POST'', ''/exports'', export_endpoint E),
      (''GET'', ''/exports/{id}/status'', of_handler (GetStatus E)),
      (''GET'', ''/exports/{id}/download'', download_endpoint)]"

definition Balance_Routes :: "env \<Rightarrow> route list" where
  "Balance_Routes E = [(''GET'', ''/accounts/{id}/balance'', of_handler (GetCurrent E))]"

text \<open>The three groups of \<open>main\<close>: open routes, those behind the limiter by address, and \<open>/v1\<close>.\<close>

datatype layer = Unprotected | PerAddress | V1

definition main_routes :: "config \<Rightarrow> (layer \<times> route) list" where
  "main_routes C =
     map (Pair Unprotected) (HealthRoutes @ Admin_Routes C) @
     map (Pair PerAddress) (Auth_Routes C) @
     map (\<lambda>(m, p, e). (V1, m, ''/v1'' @ p, e))
       (Users_Routes @ Accounts_Routes @ Transactions_Routes (cf_env C) @ Summary_Routes (cf_env C) @
        Exports_Routes (cf_env C) @ Balance_Routes (cf_env C))"

definition chain :: "config \<Rightarrow> layer \<Rightarrow> endpoint \<Rightarrow> scene \<Rightarrow> request \<Rightarrow> counters \<Rightarrow> world \<Rightarrow> headers \<times> effect \<times> counters" where
  "chain C l e sc rq s w =
     (case l of
        Unprotected \<Rightarrow> ([], e sc rq w, s)
      | PerAddress \<Rightarrow> IPMiddleware (cf_splitHostPort C) (sc_addr sc) (auth_limiter (cf_environ C)) answered (e sc) rq s w
      | V1 \<Rightarrow> v1 (cf_libs C) (cf_secret C) (api_limiter (cf_environ C)) answered (e sc) rq s w)"

text \<open>A request to a route: the cross-origin layer of \<open>NewRouter\<close>, then the chain of its group. The context of a
  fresh request has no user.\<close>

definition respond :: "config \<Rightarrow> layer \<times> route \<Rightarrow> scene \<Rightarrow> request \<Rightarrow> counters \<Rightarrow> world \<Rightarrow> headers \<times> effect \<times> counters" where
  "respond C r sc rq s w =
     (case r of (l, meth, path, e) \<Rightarrow>
        CORSMiddleware (cf_environ C ''CORS_ALLOWED_ORIGINS'') (\<lambda>hs rep. (hs, answered rep w, s))
          (\<lambda>hs. case chain C l e sc (rq\<lparr>rq_user := None\<rparr>) s w of (hs1, x, s1) \<Rightarrow> (hs @ hs1, x, s1)) meth rq)"

section \<open>Every endpoint behind its layer\<close>

lemma allow_world: "allow rl k s w = (v, s1, w1) \<Longrightarrow> w1 = next_redis w"
  by (auto simp: allow_def Let_def split: if_splits prod.splits)

lemma middleware_cases:
  assumes "middleware rl keyFn answered next rq s w = (hs, (rep, ts, w'), s')"
  shows "ts = [] \<and> (w' = w \<or> w' = next_redis w) \<or> next rq (next_redis w) = (rep, ts, w')"
  using assms unfolding middleware_def answered_def Let_def
  by (auto split: option.splits prod.splits if_splits dest: allow_world)

text \<open>The user that the bearer token of a request names.\<close>

definition token_user :: "config \<Rightarrow> request \<Rightarrow> world \<Rightarrow> int option" where
  "token_user C rq w =
     (let h = rq_header rq ''Authorization''
      in if HasPrefix h ''Bearer '' then ParseJWT (cf_libs C) (cf_secret C) (TrimPrefix h ''Bearer '') w else None)"

text \<open>A request is answered by a layer, or its endpoint runs, after at most one call to Redis, with no user or that of the token.\<close>

lemma respond_cases:
  assumes "respond C (l, meth, path, e) sc rq s w = (hs, (rep, ts, w'), s')"
  shows "ts = [] \<and> (w' = w \<or> w' = next_redis w) \<or>
    (\<exists>rq1 w1. (w1 = w \<or> w1 = next_redis w) \<and> rq_user rq1 \<in> {None, token_user C rq w} \<and> e sc rq1 w1 = (rep, ts, w'))"
proof (cases "ts = [] \<and> w' = w")
  case False
  let ?rq = "rq\<lparr>rq_user := None\<rparr>"
  have m: ?thesis if "middleware rl keyFn answered (e sc) rq1 s w = (hs1, (rep, ts, w'), s')" "rq_user rq1 \<in> {None, token_user C rq w}"
    for rl keyFn rq1 hs1
    using middleware_cases [OF that(1)] that(2) by blast
  have "\<exists>hs1. chain C l e sc ?rq s w = (hs1, (rep, ts, w'), s')"
    using assms False by (auto simp: respond_def CORSMiddleware_def answered_def Let_def split: if_splits prod.splits)
  then obtain hs1 where c: "chain C l e sc ?rq s w = (hs1, (rep, ts, w'), s')" by blast
  show ?thesis
  proof (cases l)
    case Unprotected
    then have "e sc ?rq w = (rep, ts, w')" using c by (simp add: chain_def)
    then show ?thesis by (intro disjI2 exI [of _ ?rq] exI [of _ w]) simp
  next
    case PerAddress
    then show ?thesis using c by (intro m [of _ _ ?rq]) (auto simp: chain_def IPMiddleware_def)
  next
    case V1
    obtain uid where "Middleware (api_limiter (cf_environ C)) answered (e sc) (?rq\<lparr>rq_user := Some uid\<rparr>) s w = (hs1, (rep, ts, w'), s')"
      and "token_user C rq w = Some uid"
      using c False V1 by (auto simp: chain_def v1_def AuthMiddleware_def answered_def token_user_def Let_def split: if_splits option.splits)
    then show ?thesis by (intro m [of _ _ "?rq\<lparr>rq_user := Some uid\<rparr>"]) (auto simp: Middleware_def)
  qed
qed blast

text \<open>C37. Everything under \<open>/v1\<close> is protected: without a valid bearer token a request to any of these routes has no effect. It
  is answered 401, no handler runs, no task is enqueued, no token of a bucket is
  spent, the databases stay as they are.\<close>

theorem routes_require_token:
  assumes "(l, meth, path, e) \<in> set (main_routes C)" and "HasPrefix path ''/v1''"
    and "\<And>tok. rq_header rq ''Authorization'' = ''Bearer '' @ tok \<Longrightarrow> ParseJWT (cf_libs C) (cf_secret C) tok w = None"
  shows "\<exists>hs rep. respond C (l, meth, path, e) sc rq s w = (hs, (rep, [], w), s) \<and> status rep = 401"
proof -
  have l: "l = V1" using assms(1,2)
    by (auto simp: main_routes_def HealthRoutes_def Admin_Routes_def Auth_Routes_def HasPrefix_iff)
  have no: "\<not> (\<exists>tok uid. rq_header rq ''Authorization'' = ''Bearer '' @ tok \<and> ParseJWT (cf_libs C) (cf_secret C) tok w = Some uid)"
    using assms(3) by fastforce
  obtain rep where r: "status rep = 401" and
    v: "v1 (cf_libs C) (cf_secret C) (api_limiter (cf_environ C)) answered (e sc) (rq\<lparr>rq_user := None\<rparr>) s w = ([], answered rep w, s)"
    using v1_requires_token [where L = "cf_libs C" and secret = "cf_secret C" and answer = answered and rq = rq and w = w
        and rl = "api_limiter (cf_environ C)" and h = "e sc" and s = s and x = None] no by (auto simp del: not_ex)
  have "meth \<noteq> ''OPTIONS''" using assms(1)
    by (auto simp: main_routes_def HealthRoutes_def Admin_Routes_def Auth_Routes_def Users_Routes_def Accounts_Routes_def
        Transactions_Routes_def Summary_Routes_def Exports_Routes_def Balance_Routes_def)
  then have "\<exists>hs. respond C (l, meth, path, e) sc rq s w = (hs, (rep, [], w), s)"
    using v by (auto simp: respond_def CORSMiddleware_def chain_def l Let_def answered_def)
  then show ?thesis using r by blast
qed

text \<open>A table of the requests of the samples.\<close>

definition sample_calls :: outside where
  "sample_calls = \<lparr>ou_ParseConfig = (\<lambda>url. Some \<lparr>pc_url = url, pc_tracer = False, pc_MaxConns = 4, pc_MinConns = 0,
      pc_MaxConnLifetime = 3600, pc_MaxConnIdleTime = 1800\<rparr>), ou_NewWithConfig = (\<lambda>_. True), ou_Ping = (\<lambda>_. True),
     ou_aws = True, ou_mkdir = (\<lambda>_. True)\<rparr>"

definition sample_config :: config where
  "sample_config = projr (start sample_calls sample_env sample_libs (\<lambda>_. None) (\<lambda>_. []))"

lemma sample_config_env: "cf_env sample_config = sample_env"
  by (simp add: sample_config_def start_def signing_key_def getenv_def InitAuth_def MustOpenPool_def FromEnv_def NewLocal_def
      sample_calls_def Let_def)

theorem routes_require_token_witness:
  "\<exists>hs rep. respond sample_config (V1, ''POST'', ''/v1/transfers'', of_handler (CreateTransfer sample_env))
     \<lparr>sc_accepts = True, sc_fetch = (\<lambda>_. None), sc_addr = [], sc_db_ping = True, sc_redis_ping = True\<rparr>
     (sample_request\<lparr>rq_header := (\<lambda>_. ''Basic x'')\<rparr>) (\<lambda>_. None) sample_world = (hs, (rep, [], sample_world), \<lambda>_. None) \<and> status rep = 401"
proof (rule routes_require_token)
  show "(V1, ''POST'', ''/v1/transfers'', of_handler (CreateTransfer sample_env)) \<in> set (main_routes sample_config)"
    by (simp add: main_routes_def Transactions_Routes_def image_image sample_config_env)
  show "HasPrefix ''/v1/transfers'' ''/v1''" by code_simp
qed simp

text \<open>The server never runs with an empty signing key, and outside the environment \<open>dev\<close> the key is the configured one; its pool
  answered a ping, is traced and opens at most ten connections.\<close>

lemma start_has_key:
  assumes "start calls E L split environ = Inr C"
  shows "cf_secret C \<noteq> [] \<and> (environ ''APP_ENV'' \<notin> {[], ''dev''} \<longrightarrow> cf_secret C = environ ''JWT_SIGNING_KEY'')"
  using assms by (auto simp: start_def signing_key_def InitAuth_def getenv_def Let_def split: option.splits if_splits)

lemma start_has_pool:
  assumes "start calls E L split environ = Inr C"
  shows "ou_Ping calls (cf_pool C) \<and> pc_tracer (cf_pool C) \<and> pc_MaxConns (cf_pool C) = 10"
  using assms by (auto simp: start_def MustOpenPool_def Let_def split: option.splits if_splits)

text \<open>The database is opened only after the key was found: a missing key is fatal whatever the database does.\<close>

lemma start_without_key:
  assumes "environ ''JWT_SIGNING_KEY'' = []" "environ ''APP_ENV'' \<notin> {[], ''dev''}"
  shows "start calls E L split environ = Inl Fatal"
  using assms by (simp add: start_def signing_key_def getenv_def Let_def)

end
