(* ===== verification/Outbox.thy ===== *)
theory Outbox
  imports Effects
begin

text \<open>
  internal/worker/outbox.go: the worker that publishes the events of the outbox table to Redis and
  marks them processed, in batches of 50 inside one database transaction.
\<close>

section \<open>The worker\<close>

text \<open>The claim of a batch. \<open>locked\<close> are the rows that concurrent workers hold, which the statement skips.\<close>

definition ClaimBatch :: "int list \<Rightarrow> outbox_row list statement" where
  "ClaimBatch locked =
     read_only (\<lambda>d. Inr (take 50 (sort_key o_created_at
       (filter (\<lambda>x. o_processed_at x = None \<and> o_id x \<notin> set locked) (outbox d)))))"

definition MarkProcessed :: "int list \<Rightarrow> unit statement" where
  "MarkProcessed ids now d =
     (Inr (), d\<lparr>outbox := map (\<lambda>x. if o_id x \<in> set ids then x\<lparr>o_processed_at := Some now\<rparr> else x) (outbox d)\<rparr>)"

definition message :: "outbox_row \<Rightarrow> string \<times> json" where
  "message x = (''events:'' @ o_event_type x, o_payload x)"

text \<open>The publishing loop: the messages sent, the ids to mark. An event that fails to publish is left for a later batch.\<close>

fun publishAll :: "outbox_row list \<Rightarrow> world \<Rightarrow> (string \<times> json) list \<times> int list \<times> world" where
  "publishAll [] w = ([], [], w)"
| "publishAll (x # xs) w =
     (case publishAll xs (next_redis w) of (msgs, ids, w1) \<Rightarrow>
        if redis_fails w then (msgs, ids, w1) else (message x # msgs, o_id x # ids, w1))"

definition ProcessBatch :: "int list \<Rightarrow> world \<Rightarrow> (string \<times> json) list \<times> world" where
  "ProcessBatch locked w =
     (case run Begin w of
        (Inl _, w1) \<Rightarrow> ([], w1)
      | (Inr _, w1) \<Rightarrow>
     (case run (ClaimBatch locked) w1 of
        (Inl _, w2) \<Rightarrow> ([], Rollback w1 w2)
      | (Inr batch, w2) \<Rightarrow>
     (case publishAll batch w2 of (msgs, processed, w3) \<Rightarrow>
        if processed = [] then (msgs, snd (Commit w1 w3))
        else (case run (MarkProcessed processed) w3 of
                (Inl _, w4) \<Rightarrow> (msgs, Rollback w1 w4)
              | (Inr _, w4) \<Rightarrow> (msgs, snd (Commit w1 w4))))))"

section \<open>What a batch does\<close>

text \<open>The outbox with the rows of the given ids marked at a time.\<close>

definition marked :: "int list \<Rightarrow> int \<Rightarrow> database \<Rightarrow> database" where
  "marked ids now d = d\<lparr>outbox := map (\<lambda>x. if o_id x \<in> set ids then x\<lparr>o_processed_at := Some now\<rparr> else x) (outbox d)\<rparr>"

lemma marked_Nil [simp]: "marked [] now d = d"
  by (simp add: marked_def)

lemma publishAll_frame:
  "publishAll xs w = (msgs, ids, w') \<Longrightarrow>
     db w' = db w \<and> pg_now w' = pg_now w \<and> clock w' = clock w \<and> db_faults w' = db_faults w \<and> set ids \<subseteq> o_id ` set xs \<and>
     (\<forall>i\<in>set ids. \<exists>x\<in>set xs. o_id x = i \<and> message x \<in> set msgs)"
proof (induction xs arbitrary: w msgs ids w')
  case (Cons x xs)
  obtain ms js v where p: "publishAll xs (next_redis w) = (ms, js, v)" by (metis surj_pair)
  have "pg_now (next_redis w) = pg_now w" by (simp add: pg_now_def)
  with Cons.IH [OF p] Cons.prems p show ?case by (cases "redis_fails w") fastforce+
qed simp

lemma claimed_batch:
  assumes "run (ClaimBatch locked) w = (Inr batch, w')"
  shows "batch = take 50 (sort_key o_created_at (filter (\<lambda>x. o_processed_at x = None \<and> o_id x \<notin> set locked) (outbox (db w))))"
    and "db w' = db w" and "pg_now w' = pg_now w"
  using assms by (auto simp: run_Some ClaimBatch_def read_only_Inr)

lemma Commit_frame:
  assumes "deferred_checks (db w) = []" and "Commit w0 w = (r, w')"
  shows "(db w' = db w \<or> db w' = rolled_back (db w0) (db w)) \<and> clock w' = clock w \<and> cache w' = cache w"
proof -
  have "clock w' = clock w \<and> cache w' = cache w" using Commit_keeps [OF assms(2)] by simp
  then show ?thesis using Commit_outcome [OF assms(2)] assms(1) by auto
qed

lemma rolled_back_marked [simp]: "rolled_back d (marked ids now d) = d" "rolled_back d d = d"
  by (simp_all add: rolled_back_def marked_def)

text \<open>The end of a batch, however it ends, and what the publishing loop leaves alone.\<close>

lemma close_batch:
  assumes idle: "deferred_checks (db w1) = []" and w3: "db w3 = db w1" and m: "run (MarkProcessed ids) w3 = (r, w4)"
    and out: "w' \<in> {snd (Commit w1 w3), Rollback w1 w4, snd (Commit w1 w4)}"
  shows "(db w' = db w1 \<or> db w' = marked ids (pg_now w3) (db w1)) \<and> clock w' = clock w3 \<and> cache w' = cache w3"
proof -
  have w4: "db w4 = db w1 \<or> db w4 = marked ids (pg_now w3) (db w1)" "clock w4 = clock w3" "cache w4 = cache w3"
    using run_frame [OF m] w3 by (auto simp: MarkProcessed_def marked_def)
  have "deferred_checks (db w4) = []" using w4(1) idle by (auto simp: marked_def)
  then have "(db (snd (Commit w1 w4)) = db w4 \<or> db (snd (Commit w1 w4)) = db w1) \<and>
      clock (snd (Commit w1 w4)) = clock w4 \<and> cache (snd (Commit w1 w4)) = cache w4"
    using Commit_frame [of w4 w1] w4(1) by (metis rolled_back_marked surjective_pairing)
  moreover have "db (snd (Commit w1 w3)) = db w1 \<and> clock (snd (Commit w1 w3)) = clock w3 \<and> cache (snd (Commit w1 w3)) = cache w3"
    using Commit_frame [of w3 w1] idle w3 by (metis rolled_back_marked(2) surjective_pairing)
  moreover have "db (Rollback w1 w4) = db w1 \<and> clock (Rollback w1 w4) = clock w4 \<and> cache (Rollback w1 w4) = cache w4"
    using w4 by (auto simp: Rollback_def)
  ultimately show ?thesis using out w4 by auto
qed

lemma publishAll_cache: "publishAll xs w = (msgs, ids, w') \<Longrightarrow> cache w' = cache w"
  by (induction xs arbitrary: w msgs ids) (auto split: prod.splits if_splits)

text \<open>Under any faults a batch marks some of the rows it published, or none, and changes nothing else.\<close>

lemma ProcessBatch_marks:
  assumes p: "ProcessBatch locked w = (msgs, w')" and idle: "deferred_checks (db w) = []"
  shows "\<exists>ids. db w' = marked ids (pg_now w) (db w) \<and> clock w' = clock w \<and> cache w' = cache w \<and>
     (\<forall>i\<in>set ids. \<exists>x\<in>set (outbox (db w)). o_id x = i \<and> o_processed_at x = None \<and> i \<notin> set locked \<and> message x \<in> set msgs)"
proof -
  obtain r1 w1 where b: "run Begin w = (r1, w1)" by fastforce
  have w1: "db w1 = db w" "clock w1 = clock w" "cache w1 = cache w" "pg_now w1 = pg_now w"
    using run_frame [OF b] idle by (auto simp: Begin_def)
  obtain r2 w2 where c: "run (ClaimBatch locked) w1 = (r2, w2)" by fastforce
  have w2: "db w2 = db w" "clock w2 = clock w" "cache w2 = cache w" "pg_now w2 = pg_now w"
    using run_frame [OF c] w1 by (auto simp: ClaimBatch_def read_only_def)
  have none: ?thesis if "db w' = db w" "clock w' = clock w" "cache w' = cache w"
    using that by (intro exI [of _ "[]"]) simp
  show ?thesis
  proof (cases "isl r1 \<or> isl r2")
    case True
    then have "w' = w1 \<or> w' = Rollback w1 w2" using p b c by (auto simp: ProcessBatch_def split: sum.splits)
    then show ?thesis using w1 w2 by (intro none) (auto simp: Rollback_def)
  next
    case False
    then obtain u batch where r: "r1 = Inr u" "r2 = Inr batch" by (cases r1; cases r2) auto
    obtain ms ids w3 where l: "publishAll batch w2 = (ms, ids, w3)" by (metis surj_pair)
    note f = publishAll_frame [OF l] publishAll_cache [OF l]
    obtain r4 w4 where m: "run (MarkProcessed ids) w3 = (r4, w4)" by fastforce
    have out: "msgs = ms" "w' \<in> {snd (Commit w1 w3), Rollback w1 w4, snd (Commit w1 w4)}"
      using p b c r l m by (auto simp: ProcessBatch_def split: if_splits sum.splits)
    have fin: "(db w' = db w \<or> db w' = marked ids (pg_now w) (db w)) \<and> clock w' = clock w \<and> cache w' = cache w"
      using close_batch [OF _ _ m out(2)] f w1 w2 idle by simp
    have "set batch \<subseteq> {x \<in> set (outbox (db w)). o_processed_at x = None \<and> o_id x \<notin> set locked}"
      using claimed_batch(1) [OF c [unfolded r]] w1 by (auto dest!: in_set_takeD)
    then have "\<forall>i\<in>set ids. \<exists>x\<in>set (outbox (db w)). o_id x = i \<and> o_processed_at x = None \<and> i \<notin> set locked \<and> message x \<in> set msgs"
      using f out(1) by fastforce
    then show ?thesis using fin none by blast
  qed
qed

lemma marked_ledger_ok:
  assumes "ledger_ok d"
  shows "ledger_ok (marked ids now d)"
proof (rule ledger_grow [OF assms])
  have o: "map o_id (outbox (marked ids now d)) = map o_id (outbox d)" by (auto simp: marked_def)
  have "\<forall>x\<in>set (outbox (marked ids now d)). \<exists>y\<in>set (outbox d). o_id x = o_id y" by (auto simp: marked_def)
  moreover have f: "users (marked ids now d) = users d" "accounts (marked ids now d) = accounts d"
    "transactions (marked ids now d) = transactions d" "postings (marked ids now d) = postings d" "seqs (marked ids now d) = seqs d"
    by (simp_all add: marked_def)
  ultimately show "ids_ok (marked ids now d)" using assms unfolding ids_ok_def ledger_ok_def o f by fastforce
  show "accounts_ok (marked ids now d)" using assms by (simp add: ledger_ok_def accounts_ok_def f)
  show "map event_tx (outbox (marked ids now d)) = map event_tx (outbox d)" by (auto simp: marked_def event_tx_def)
  show "has_user (a_user_id a) (marked ids now d)" if "a \<in> set (accounts (marked ids now d))" for a
    using assms that by (simp add: ledger_ok_def refs_ok_def has_user_def f)
qed (use assms in \<open>auto simp: marked_def has_user_def ledger_ok_def\<close>)

section \<open>At least once\<close>

text \<open>A run of the worker: each batch with the rows locked elsewhere, its time and the faults it meets. The log collects
  what was published.\<close>

record tick =
  at_clock :: int
  at_locked :: "int list"
  at_db :: "fault list"
  at_redis :: "bool list"

fun batches :: "tick list \<Rightarrow> world \<Rightarrow> (string \<times> json) list \<times> world" where
  "batches [] w = ([], w)"
| "batches (t # ts) w =
     (case ProcessBatch (at_locked t) (w\<lparr>clock := at_clock t, db_faults := at_db t, redis_faults := at_redis t\<rparr>) of
        (msgs, w1) \<Rightarrow> (case batches ts w1 of (log, w2) \<Rightarrow> (msgs @ log, w2)))"

text \<open>The outbox after the run: the same rows in the same order, some of them marked, and those published.\<close>

definition delivered :: "(string \<times> json) list \<Rightarrow> outbox_row \<Rightarrow> outbox_row \<Rightarrow> bool" where
  "delivered log x y \<longleftrightarrow> y\<lparr>o_processed_at := o_processed_at x\<rparr> = x \<and>
     (o_processed_at x \<noteq> None \<longrightarrow> y = x) \<and> (o_processed_at y \<noteq> o_processed_at x \<longrightarrow> message x \<in> set log)"

lemma marked_delivered:
  assumes "distinct (map o_id (outbox d))" and "\<forall>i\<in>set ids. \<exists>x\<in>set (outbox d). o_id x = i \<and> o_processed_at x = None \<and> i \<notin> set locked \<and> message x \<in> set msgs"
  shows "list_all2 (delivered msgs) (outbox d) (outbox (marked ids now d))"
proof -
  have "delivered msgs x (if o_id x \<in> set ids then x\<lparr>o_processed_at := Some now\<rparr> else x)" if "x \<in> set (outbox d)" for x
  proof (cases "o_id x \<in> set ids")
    case True
    then obtain y where "y \<in> set (outbox d)" "o_id y = o_id x" "o_processed_at y = None" "message y \<in> set msgs" using assms(2) by blast
    moreover from this that assms(1) have "y = x" by (auto dest: distinct_map_eqD)
    ultimately show ?thesis using True by (simp add: delivered_def)
  qed (simp add: delivered_def)
  then show ?thesis by (simp add: marked_def list_all2_conv_all_nth)
qed

lemma delivered_trans: "delivered a x y \<Longrightarrow> delivered b y z \<Longrightarrow> delivered (a @ b) x z"
  by (cases x; cases y; cases z) (auto simp: delivered_def message_def)

text \<open>Events are never lost: over any run of batches, with any faults of the database and of Redis at any point and
  with any rows locked by other workers, the outbox keeps its rows, an event is marked processed only if it was published in the run, an
  already processed event stays as it is, and nothing else in the database changes.\<close>

theorem batches_at_least_once:
  assumes "batches ts w = (log, w')" and "ledger_ok (db w)"
  shows "list_all2 (delivered log) (outbox (db w)) (outbox (db w')) \<and> db w' = (db w)\<lparr>outbox := outbox (db w')\<rparr> \<and> ledger_ok (db w')"
  using assms
proof (induction ts arbitrary: w log)
  case Nil
  then show ?case by (simp add: list_all2_conv_all_nth delivered_def)
next
  case (Cons t ts)
  let ?w0 = "w\<lparr>clock := at_clock t, db_faults := at_db t, redis_faults := at_redis t\<rparr>"
  obtain msgs w1 where p: "ProcessBatch (at_locked t) ?w0 = (msgs, w1)" by fastforce
  obtain rest w2 where b: "batches ts w1 = (rest, w2)" by fastforce
  have out: "log = msgs @ rest" "w' = w2" using Cons.prems(1) p b by auto
  obtain ids where m: "db w1 = marked ids (pg_now ?w0) (db w)"
    and i: "\<forall>i\<in>set ids. \<exists>x\<in>set (outbox (db w)). o_id x = i \<and> o_processed_at x = None \<and> i \<notin> set (at_locked t) \<and> message x \<in> set msgs"
    using ProcessBatch_marks [OF p] ledger_idle [OF Cons.prems(2)] by auto
  have ok1: "ledger_ok (db w1)" using Cons.prems(2) m marked_ledger_ok by simp
  have "distinct (map o_id (outbox (db w)))" using Cons.prems(2) by (auto simp: ledger_ok_def ids_ok_def strict_sorted_iff)
  from marked_delivered [OF this i] have d1: "list_all2 (delivered msgs) (outbox (db w)) (outbox (db w1))" unfolding m .
  note ih = Cons.IH [OF b [folded out(2)] ok1]
  have "list_all2 (delivered log) (outbox (db w)) (outbox (db w'))"
    unfolding out(1) using d1 ih by (intro list_all2_trans [OF delivered_trans]) auto
  moreover obtain ob where "db w' = (db w1)\<lparr>outbox := ob\<rparr>" using ih by blast
  then have "db w' = (db w)\<lparr>outbox := outbox (db w')\<rparr>" by (simp add: m marked_def)
  ultimately show ?case using ih by blast
qed

text \<open>Two batches over the one event of the sample; the first fails to publish it.\<close>

definition sample_tick :: "bool list \<Rightarrow> tick" where
  "sample_tick fs = \<lparr>at_clock = 5000, at_locked = [], at_db = [], at_redis = fs\<rparr>"

theorem batches_at_least_once_witness:
  "map fst (fst (batches [sample_tick [True], sample_tick []] sample_world2)) = [''events:TransactionCreated''] \<and>
   list_all2 (delivered (fst (batches [sample_tick [True], sample_tick []] sample_world2))) (outbox (db sample_world2))
     (outbox (db (snd (batches [sample_tick [True], sample_tick []] sample_world2))))"
proof -
  have "ledger_ok (db sample_world2)" by code_simp
  from batches_at_least_once [OF surjective_pairing this]
  have "list_all2 (delivered (fst (batches [sample_tick [True], sample_tick []] sample_world2))) (outbox (db sample_world2))
     (outbox (db (snd (batches [sample_tick [True], sample_tick []] sample_world2))))" by blast
  moreover have "map fst (fst (batches [sample_tick [True], sample_tick []] sample_world2)) = [''events:TransactionCreated'']" by code_simp
  ultimately show ?thesis by blast
qed

section \<open>The backlog drains\<close>

definition pending :: "database \<Rightarrow> outbox_row list" where
  "pending d = sort_key o_created_at (filter (\<lambda>x. o_processed_at x = None) (outbox d))"

lemma publishAll_runs:
  "redis_faults w = [] \<Longrightarrow> publishAll xs w = (map message xs, map o_id xs, w)"
proof (induction xs arbitrary: w)
  case (Cons x xs)
  then have "next_redis w = w" "\<not> redis_fails w" by (simp_all add: next_redis_def redis_fails_def)
  with Cons show ?case by simp
qed simp

lemma filter_marked:
  "filter (\<lambda>x. o_processed_at x = None) (map (\<lambda>x. if o_id x \<in> I then x\<lparr>o_processed_at := Some now\<rparr> else x) xs)
   = filter (\<lambda>x. o_id x \<notin> I) (filter (\<lambda>x. o_processed_at x = None) xs)"
  by (induction xs) auto

lemma pending_marked:
  assumes "distinct (map o_id (outbox d))"
  shows "pending (marked (map o_id (take n (pending d))) now d) = drop n (pending d)"
proof -
  let ?ids = "map o_id (take n (pending d))"
  have "filter (\<lambda>x. o_processed_at x = None) (outbox (marked ?ids now d))
      = filter (\<lambda>x. o_id x \<notin> set ?ids) (filter (\<lambda>x. o_processed_at x = None) (outbox d))"
    by (simp add: marked_def filter_marked)
  then have "pending (marked ?ids now d) = filter (\<lambda>x. o_id x \<notin> set ?ids) (pending d)"
    unfolding pending_def by (simp only: filter_sort)
  also have "\<dots> = drop n (pending d)"
  proof -
    have "distinct (map o_id (filter (\<lambda>x. o_processed_at x = None) (outbox d)))" using assms by (rule distinct_map_filter)
    then have "distinct (map o_id (pending d))" by (auto simp: pending_def distinct_map inj_on_def)
    then have "distinct (map o_id (take n (pending d) @ drop n (pending d)))" by simp
    then have "o_id ` set (take n (pending d)) \<inter> o_id ` set (drop n (pending d)) = {}"
      unfolding map_append distinct_append by simp
    then have "filter (\<lambda>x. o_id x \<notin> set ?ids) (take n (pending d) @ drop n (pending d)) = drop n (pending d)"
      unfolding filter_append by (auto simp: filter_empty_conv filter_id_conv)
    then show ?thesis by simp
  qed
  finally show ?thesis .
qed

lemma ProcessBatch_runs:
  assumes "db_faults w = []" and "redis_faults w = []" and "ledger_ok (db w)"
  shows "\<exists>w'. ProcessBatch [] w = (map message (take 50 (pending (db w))), w') \<and>
     db w' = marked (map o_id (take 50 (pending (db w)))) (pg_now w) (db w)"
proof -
  let ?b = "take 50 (pending (db w))"
  have idle: "deferred_checks (db w) = []" by (rule ledger_idle [OF assms(3)])
  then have b: "run Begin w = (Inr (), w)" using assms(1) by (simp add: run_healthy Begin_def)
  have c: "run (ClaimBatch []) w = (Inr ?b, w)" using assms(1) by (simp add: run_healthy ClaimBatch_def read_only_def pending_def)
  have l: "publishAll ?b w = (map message ?b, map o_id ?b, w)" using assms(2) by (rule publishAll_runs)
  show ?thesis
  proof (cases "?b = []")
    case True
    have "db (snd (Commit w w)) = db w" using assms(1) idle by (simp add: Commit_def next_fault_def Let_def)
    with True show ?thesis using b c l by (simp add: ProcessBatch_def)
  next
    case False
    let ?w = "w\<lparr>db := marked (map o_id ?b) (pg_now w) (db w)\<rparr>"
    have "run (MarkProcessed (map o_id ?b)) w = (Inr (), ?w)"
      using assms(1) by (simp add: run_healthy MarkProcessed_def marked_def)
    moreover have "db (snd (Commit w ?w)) = marked (map o_id ?b) (pg_now w) (db w)"
      using assms(1) idle by (simp add: Commit_def next_fault_def Let_def marked_def)
    ultimately show ?thesis using b c l False by (simp add: ProcessBatch_def)
  qed
qed

text \<open>C33. The backlog drains in order: without faults, batches that together have room for all unprocessed events publish exactly
  those events, each once and in the order of their creation, and leave none unprocessed.\<close>

theorem batches_drain:
  assumes "ledger_ok (db w)" and "\<forall>t\<in>set ts. at_locked t = [] \<and> at_db t = [] \<and> at_redis t = []"
    and "length (pending (db w)) \<le> 50 * length ts"
  shows "fst (batches ts w) = map message (pending (db w)) \<and> pending (db (snd (batches ts w))) = []"
  using assms
proof (induction ts arbitrary: w)
  case (Cons t ts)
  let ?w0 = "w\<lparr>clock := at_clock t, db_faults := at_db t, redis_faults := at_redis t\<rparr>"
  obtain w1 where p: "ProcessBatch [] ?w0 = (map message (take 50 (pending (db w))), w1)"
    and m: "db w1 = marked (map o_id (take 50 (pending (db w)))) (pg_now ?w0) (db w)"
    using ProcessBatch_runs [of ?w0] Cons.prems(1,2) by auto
  have "distinct (map o_id (outbox (db w)))" using Cons.prems(1) by (auto simp: ledger_ok_def ids_ok_def strict_sorted_iff)
  then have d: "pending (db w1) = drop 50 (pending (db w))" unfolding m by (rule pending_marked)
  have "fst (batches ts w1) = map message (pending (db w1)) \<and> pending (db (snd (batches ts w1))) = []"
    using Cons.prems d m by (intro Cons.IH) (auto simp: marked_ledger_ok)
  then show ?case using p Cons.prems(2) unfolding d
    by (auto simp: case_prod_unfold simp flip: map_append)
qed simp

theorem batches_drain_witness:
  "length (pending (db sample_world2)) = 1 \<and>
   fst (batches [sample_tick []] sample_world2) = map message (pending (db sample_world2)) \<and>
   pending (db (snd (batches [sample_tick []] sample_world2))) = []"
proof -
  have "ledger_ok (db sample_world2)" by code_simp
  moreover have "\<forall>t\<in>set [sample_tick []]. at_locked t = [] \<and> at_db t = [] \<and> at_redis t = []" by (simp add: sample_tick_def)
  moreover have n: "length (pending (db sample_world2)) = 1" by code_simp
  then have "length (pending (db sample_world2)) \<le> 50 * length [sample_tick []]" by simp
  ultimately show ?thesis using batches_drain n by blast
qed

end
