(* ===== verification/Upkeep.thy ===== *)
theory Upkeep
  imports Routes Outbox
begin

text \<open>
  The invariant of everything the processes share, and that each call of the system keeps it, under any faults.
\<close>

section \<open>The invariant\<close>

definition emails_ok :: "database \<Rightarrow> bool" where
  "emails_ok d \<longleftrightarrow> distinct (map u_email (users d)) \<and> (\<forall>u\<in>set (users d). normal_email (u_email u) = u_email u)"

definition published_ok :: "database \<Rightarrow> (string \<times> json) list \<Rightarrow> bool" where
  "published_ok d log \<longleftrightarrow> (\<forall>x\<in>set (outbox d). o_processed_at x \<noteq> None \<longrightarrow> message x \<in> set log)"

definition state_ok :: "string \<Rightarrow> world \<Rightarrow> disk \<Rightarrow> (string \<times> json) list \<Rightarrow> bool" where
  "state_ok dir w d log \<longleftrightarrow>
     ledger_ok (db w) \<and> snapshots_ok w \<and> exports_ok (db w) \<and> files_ok (Local_Open dir) (db w) d \<and>
     emails_ok (db w) \<and> published_ok (db w) log"

text \<open>A snapshot may be taken of a day that is over, in UTC.\<close>

definition day_over :: "world \<Rightarrow> snapshot_payload \<Rightarrow> bool" where
  "day_over w p \<longleftrightarrow> (case parse_date (sp_Date p) of None \<Rightarrow> True | Some date \<Rightarrow> day_end (date_day date) < pg_now w)"

lemma empty_state_ok: "db w = empty_db \<Longrightarrow> 0 \<le> clock w \<Longrightarrow> state_ok dir w d log"
  by (clarsimp simp: state_ok_def empty_db_def ledger_ok_def ids_ok_def refs_ok_def accounts_ok_def zero_sum_def
      reversals_ok_def keys_ok_def journal_ok_def snapshots_ok_def pg_now_def exports_ok_def files_ok_def emails_ok_def published_ok_def pos_imp_zdiv_nonneg_iff)

section \<open>What the calls keep\<close>

text \<open>
  The ledger grows: a call appends transactions, all of them of the users \<open>U\<close>, and postings of these transactions. The calls
  of the transaction service, moreover, date every posting now, and add outbox rows not yet processed.
\<close>

definition grown :: "int set \<Rightarrow> world \<Rightarrow> world \<Rightarrow> bool" where
  "grown U w w' \<longleftrightarrow> clock w' = clock w \<and>
     (\<exists>ts ps. transactions (db w') = transactions (db w) @ ts \<and> postings (db w') = postings (db w) @ ps \<and>
        (\<forall>t\<in>set ts. t_user_id t \<in> U) \<and> (\<forall>p\<in>set ps. p_transaction_id p \<in> t_id ` set ts))"

lemma grown_same:
  "clock w' = clock w \<Longrightarrow> transactions (db w') = transactions (db w) \<Longrightarrow> postings (db w') = postings (db w) \<Longrightarrow> grown U w w'"
  by (simp add: grown_def)

lemma grown_users: "grown U w w' \<Longrightarrow> U \<subseteq> V \<Longrightarrow> grown V w w'"
  unfolding grown_def by blast

lemma grown_clock: "grown U w w' \<Longrightarrow> clock w \<le> clock w'"
  by (simp add: grown_def)

definition adds :: "int set \<Rightarrow> world \<Rightarrow> world \<Rightarrow> bool" where
  "adds U w w' \<longleftrightarrow> grown U w w' \<and> balance_snapshots (db w') = balance_snapshots (db w) \<and>
     users (db w') = users (db w) \<and> exports (db w') = exports (db w) \<and> exports_seq (seqs (db w)) \<le> exports_seq (seqs (db w')) \<and>
     (\<exists>ps. postings (db w') = postings (db w) @ ps \<and> (\<forall>p\<in>set ps. p_created_at p = pg_now w)) \<and>
     (\<exists>es. outbox (db w') = outbox (db w) @ es \<and> (\<forall>e\<in>set es. o_processed_at e = None))"

lemma adds_state_ok:
  assumes "state_ok dir w d log" and "adds U w w'" and "ledger_ok (db w')"
  shows "state_ok dir w' d log \<and> grown U w w'"
proof -
  have n: "pg_now w' = pg_now w" using assms(2) by (simp add: adds_def grown_def pg_now_def)
  obtain ps where "postings (db w') = postings (db w) @ ps" "\<And>p. p \<in> set ps \<Longrightarrow> p_created_at p = pg_now w"
    using assms(2) by (auto simp: adds_def)
  then have "snapshots_ok w'" using assms(1,2) n by (intro snapshots_ok_append [of w w' ps]) (auto simp: adds_def state_ok_def)
  then show ?thesis using assms
    by (auto simp: state_ok_def adds_def exports_ok_def files_ok_def emails_ok_def published_ok_def)
qed

lemma adds_same: "db w' = db w \<Longrightarrow> clock w' = clock w \<Longrightarrow> adds U w w'"
  by (simp add: adds_def grown_same)

lemma adds_untouched: "untouched (db w) (db w') \<Longrightarrow> clock w' = clock w \<Longrightarrow> adds U w w'"
proof -
  assume u: "untouched (db w) (db w')" and "clock w' = clock w"
  moreover obtain s where "db w' = (db w)\<lparr>seqs := s\<rparr>" "seqs_le (seqs (db w)) s" using u by (auto simp: untouched_iff)
  ultimately show ?thesis by (simp add: adds_def grown_same seqs_le_def)
qed

lemma adds_booking:
  assumes "booking_for E exts h nt legs ty key hsh (pg_now w) (db w) = Some (dto, b)" and "db w' = booked b (db w)" and "clock w' = clock w"
    and "t_user_id h \<in> U"
  shows "adds U w w'"
proof -
  note f = booking_for_fields [OF assms(1)]
  have "\<forall>p\<in>set (bk_postings b). p_transaction_id p = t_id h" unfolding f(3) using posting_rows_set by fastforce
  then have "grown U w w'" using assms(2-4) f(2) by (simp add: grown_def)
  moreover have "\<forall>p\<in>set (bk_postings b). p_created_at p = pg_now w" unfolding f(3) using posting_rows_set by fastforce
  moreover have "exports_seq (seqs (db w)) \<le> exports_seq (seqs (booked b (db w)))" by (simp add: booked_def Let_def)
  ultimately show ?thesis using assms(2,3) f(7) by (auto simp: adds_def)
qed

text \<open>A frame that sessions, commits and rollbacks have, has also a whole database transaction with the call after it.\<close>

locale world_frame = frame keeps
  for keeps :: "world \<Rightarrow> world \<Rightarrow> bool" +
  assumes keeps_later: "later v w \<Longrightarrow> keeps v w"
    and keeps_Commit: "Commit v w = (r, w') \<Longrightarrow> keeps w w'"
    and keeps_Rollback: "keeps w (Rollback v w)"
begin

lemma withTx_keeps:
  assumes "withTx session after w = (r, w')" and "\<And>v. later v (snd (session v))" and "\<And>x v. keeps v (after x v)"
  shows "keeps w w'"
proof -
  obtain r1 w1 where b: "query Begin w = (r1, w1)" by fastforce
  obtain r2 w2 where t: "session w1 = (r2, w2)" by fastforce
  obtain rc w3 where c: "Commit w1 w2 = (rc, w3)" by fastforce
  have 1: "keeps w w1" using later_query [of Begin w] b by (simp add: keeps_later)
  then have 2: "keeps w w2" using assms(2) [of w1] t keeps_later keeps_trans by fastforce
  then have 3: "keeps w w3" using keeps_Commit [OF c] keeps_trans by blast
  have 4: "keeps w (after x w3)" "keeps w (Rollback w1 w2)" for x using assms(3) 2 3 keeps_Rollback keeps_trans by blast+
  show ?thesis using assms(1) b t c 1 2 3 4
    by (auto simp: withTx_def and_then_def split: sum.splits outcome.splits)
qed

end

interpretation clock_frame: world_frame "\<lambda>w w'. clock w' = clock w"
  by unfold_locales (auto simp: later_def Rollback_def dest: Commit_keeps)

lemma createBalanced_clock: "createBalanced E inp w = (r, w') \<Longrightarrow> clock w' = clock w"
  by (auto simp: createBalanced_def invalidateLegs_def split: option.splits
      intro!: clock_frame.withTx_keeps [of "balancedTx E inp" "invalidateLegs (bi_OccurredAt inp)" w r w'] later_balancedTx)

lemma Reverse_clock: "Reverse E inp at w = (r, w') \<Longrightarrow> clock w' = clock w"
  unfolding Reverse_def Let_def
  by (erule clock_frame.withTx_keeps) (auto simp: invalidateReversed_def later_reverseTx split: prod.split)

lemma Create_clock: "Create E inp w = (r, w') \<Longrightarrow> clock w' = clock w"
  by (auto simp: Create_def dest: createBalanced_clock split: if_splits)

lemma Transfer_clock: "Transfer E inp w = (r, w') \<Longrightarrow> clock w' = clock w"
  by (auto simp: Transfer_def dest: createBalanced_clock split: if_splits)

lemma Create_adds: "ledger_ok (db w) \<Longrightarrow> adds {ci_UserID inp} w (snd (Create E inp w))"
  using Create_outcome [OF surjective_pairing ledger_idle, of w E inp] Create_clock [OF surjective_pairing, of E inp w]
  unfolding balanced_booking_def by (auto intro: adds_untouched adds_booking simp: balanced_header_def balanced_of_create_def)

lemma Transfer_adds: "ledger_ok (db w) \<Longrightarrow> adds {ti_UserID inp} w (snd (Transfer E inp w))"
  using Transfer_outcome [OF surjective_pairing ledger_idle, of w E inp] Transfer_clock [OF surjective_pairing, of E inp w]
  unfolding balanced_booking_def by (auto intro: adds_untouched adds_booking simp: balanced_header_def balanced_of_transfer_def)

lemma Reverse_adds: "ledger_ok (db w) \<Longrightarrow> adds {ri_UserID inp} w (snd (Reverse E inp at w))"
  using Reverse_outcome [OF surjective_pairing ledger_idle, of w E inp at] Reverse_clock [OF surjective_pairing, of E inp at w]
  unfolding reverse_booking_def by (auto intro: adds_untouched adds_booking simp: reverse_header_def)

text \<open>The handlers that write transactions.\<close>

lemma writers_ok:
  assumes "ledger_ok (db w)" and "h \<in> {CreateTransaction E, CreateTransfer E, ReverseTransaction E}" and "h rq w = (rep, w')"
  shows "adds (set_option (user_of rq)) w w' \<and> ledger_ok (db w')"
proof -
  have s: "adds (set_option (user_of rq)) w w" "ledger_ok (db w)" using assms(1) by (simp_all add: adds_same)
  have c: "adds {ci_UserID inp} w v \<and> ledger_ok (db v)" if "Create E inp w = (r, v)" for inp r v
    using Create_adds [OF assms(1), of inp E] Create_ledger_ok [OF assms(1), of E inp] that by simp
  have t: "adds {ti_UserID inp} w v \<and> ledger_ok (db v)" if "Transfer E inp w = (r, v)" for inp r v
    using Transfer_adds [OF assms(1), of inp E] Transfer_ledger_ok [OF assms(1), of E inp] that by simp
  have r: "adds {ri_UserID inp} w v \<and> ledger_ok (db v)" if "Reverse E inp at w = (r, v)" for inp at r v
    using Reverse_adds [OF assms(1), of inp E at] Reverse_ledger_ok [OF assms(1), of E inp at] that by simp
  from assms(2) consider "h = CreateTransaction E" | "h = CreateTransfer E" | "h = ReverseTransaction E" by blast
  then show ?thesis
  proof cases
    case 1
    then show ?thesis using assms(3) s
      by (auto simp: CreateTransaction_def dest!: c split: option.splits if_splits prod.splits sum.splits)
  next
    case 2
    then show ?thesis using assms(3) s
      by (auto simp: CreateTransfer_def dest!: t split: option.splits if_splits prod.splits sum.splits)
  next
    case 3
    then show ?thesis using assms(3) s
      by (auto simp: ReverseTransaction_def dest!: r split: option.splits if_splits prod.splits sum.splits)
  qed
qed

text \<open>The handlers that only read.\<close>

definition reads :: "world \<Rightarrow> world \<Rightarrow> bool" where
  "reads w w' \<longleftrightarrow> db w' = db w \<and> clock w' = clock w"

lemma reads_refl [simp]: "reads w w"
  by (simp add: reads_def)

lemma reads_trans: "reads u v \<Longrightarrow> reads v w \<Longrightarrow> reads u w"
  by (simp add: reads_def)

interpretation read_frame: frame reads
  by unfold_locales (auto intro: reads_trans)

lemma reads_run: "run (read_only q) w = (r, w') \<Longrightarrow> reads w w'"
  using run_frame [of "read_only q" w r w'] by (auto simp: reads_def read_only_def)

lemma reads_ownedAccount: "ownedAccount uid aid w = (r, w') \<Longrightarrow> reads w w'"
  by (auto simp: reads_def dest: ownedAccount_frame)

lemma reads_CurrentBalance: "CurrentBalance aid now w = (r, w') \<Longrightarrow> reads w w'"
  unfolding CurrentBalance_def snapshotBase_def GetLatestSnapshot_def SumPostingsSince_def
  by (auto split: prod.splits sum.splits dest!: reads_run intro: reads_trans)

lemma reads_redis: "redis_get k w = (v, w') \<Longrightarrow> reads w w'" "reads w (redis_set k j ttl w)"
  by (auto simp: reads_def redis_get_def)

lemma reads_summary: "GetMonthlySummarySvc E aid m w = (r, w') \<Longrightarrow> reads w w'"
  unfolding GetMonthlySummarySvc_def GetMonthlySummary_def Let_def
  by (auto split: prod.splits option.splits sum.splits dest!: reads_run reads_redis(1) intro: reads_trans reads_redis(2))

lemma reads_ownedExport: "ownedExport rq w = (r, w') \<Longrightarrow> reads w w'"
  unfolding ownedExport_def GetExportByID_def
  by (auto split: option.splits prod.splits sum.splits if_splits dest: reads_run)

lemma readers_ok:
  assumes "h \<in> {ListAccountEntries_handler E, Accounts_List, Me, GetCurrent E, GetSummary E, GetStatus E, Login L secret}"
    and "h rq w = (rep, w')"
  shows "reads w w'"
proof -
  from assms(1) consider "h = ListAccountEntries_handler E" | "h = Accounts_List" | "h = Me" | "h = GetCurrent E" | "h = GetSummary E"
    | "h = GetStatus E" | "h = Login L secret" by blast
  then show ?thesis
  proof cases
    case 1
    then show ?thesis using assms(2) unfolding ListAccountEntries_handler_def ListAccountEntries_def Let_def
      by (auto split: option.splits prod.splits sum.splits dest!: reads_run reads_ownedAccount intro: reads_trans)
  next
    case 2
    then show ?thesis using assms(2) unfolding Accounts_List_def ListAccountsByUser_def Let_def
      by (auto split: option.splits prod.splits sum.splits dest!: reads_run)
  next
    case 3
    then show ?thesis using assms(2) unfolding Me_def GetUserByID_def
      by (auto split: option.splits prod.splits sum.splits dest!: reads_run)
  next
    case 4
    then show ?thesis using assms(2) unfolding GetCurrent_def
      by (auto split: option.splits prod.splits sum.splits dest!: reads_CurrentBalance reads_ownedAccount intro: reads_trans)
  next
    case 5
    then show ?thesis using assms(2) unfolding GetSummary_def
      by (auto split: option.splits prod.splits sum.splits dest!: reads_summary reads_ownedAccount intro: reads_trans)
  next
    case 6
    then show ?thesis using assms(2) unfolding GetStatus_def
      by (auto split: prod.splits sum.splits dest!: reads_ownedExport)
  next
    case 7
    then show ?thesis using assms(2) unfolding Login_def GetUserByEmail_def
      by (auto split: option.splits prod.splits sum.splits if_splits dest!: reads_run)
  qed
qed

text \<open>Tables beside the ledger.\<close>

lemma ledger_ok_beside:
  assumes "ledger_ok d" and "d' = d\<lparr>balance_snapshots := ss, exports := es, seqs := (seqs d)\<lparr>snapshots_seq := m, exports_seq := n\<rparr>\<rparr>"
  shows "ledger_ok d'"
proof (rule ledger_grow [OF assms(1)])
  show "ids_ok d'" "accounts_ok d'" "deferred_checks d' = []"
    using assms by (simp_all add: ledger_ok_def ids_ok_def accounts_ok_def)
  show "has_user (a_user_id a) d'" if "a \<in> set (accounts d')" for a
    using assms that by (simp add: ledger_ok_def refs_ok_def has_user_def)
qed (use assms(2) in \<open>auto simp: has_user_def\<close>)

text \<open>Accounts.\<close>

lemma CreateAccount_cases:
  assumes "run (CreateAccount uid name cur) w = (r, w')"
  defines "row \<equiv> \<lparr>a_id = accounts_seq (seqs (db w)), a_user_id = uid, a_name = name, a_currency = cur, a_is_active = True,
      a_kind = ''normal'', a_created_at = pg_now w\<rparr>"
  shows "clock w' = clock w \<and> (untouched (db w) (db w') \<or>
    has_user uid (db w) \<and> (\<forall>a\<in>set (accounts (db w)). \<not> (a_user_id a = uid \<and> a_name a = name)) \<and>
    db w' = (db w)\<lparr>accounts := accounts (db w) @ [row], seqs := (seqs (db w))\<lparr>accounts_seq := accounts_seq (seqs (db w)) + 1\<rparr>\<rparr>)"
proof -
  have u: "untouched (db w) ((db w)\<lparr>seqs := (seqs (db w))\<lparr>accounts_seq := accounts_seq (seqs (db w)) + 1\<rparr>\<rparr>)"
    by (simp add: untouched_def seqs_le_def)
  let ?q = "snd (CreateAccount uid name cur (pg_now w) (db w))"
  have "untouched (db w) ?q \<or> has_user uid (db w) \<and> (\<forall>a\<in>set (accounts (db w)). \<not> (a_user_id a = uid \<and> a_name a = name)) \<and>
    ?q = (db w)\<lparr>accounts := accounts (db w) @ [row], seqs := (seqs (db w))\<lparr>accounts_seq := accounts_seq (seqs (db w)) + 1\<rparr>\<rparr>"
    using u by (auto simp: CreateAccount_def insert_account_def with_serial_def Let_def row_def has_user_def)
  then show ?thesis using run_frame [OF assms(1)] by auto
qed

lemma Accounts_Create_ok:
  assumes "ledger_ok (db w)" and "Accounts_Create rq w = (rep, w')"
  shows "adds U w w' \<and> ledger_ok (db w')"
proof (cases "w' = w")
  case True
  then show ?thesis using assms(1) by (simp add: adds_same)
next
  case False
  then obtain uid name cur r where "run (CreateAccount uid name cur) w = (r, w')"
    using assms(2) by (auto simp: Accounts_Create_def split: option.splits prod.splits if_splits sum.splits)
  note c = CreateAccount_cases [OF this]
  define row where "row = \<lparr>a_id = accounts_seq (seqs (db w)), a_user_id = uid, a_name = name, a_currency = cur, a_is_active = True,
      a_kind = ''normal'', a_created_at = pg_now w\<rparr>"
  consider "untouched (db w) (db w')"
    | "has_user uid (db w)" "\<forall>a\<in>set (accounts (db w)). \<not> (a_user_id a = uid \<and> a_name a = name)"
      "db w' = (db w)\<lparr>accounts := accounts (db w) @ [row], seqs := (seqs (db w))\<lparr>accounts_seq := accounts_seq (seqs (db w)) + 1\<rparr>\<rparr>"
    using c unfolding row_def by blast
  then show ?thesis
  proof cases
    case 1
    then show ?thesis using c assms(1) adds_untouched untouched_ledger_ok by blast
  next
    case 2
    have "ledger_ok (db w')"
    proof (rule ledger_grow [OF assms(1)])
      show "ids_ok (db w')" using assms(1) by (fastforce simp: 2 row_def ledger_ok_def ids_ok_def)
      show "accounts_ok (db w')" using assms(1) 2(2) by (auto simp: 2(3) row_def ledger_ok_def accounts_ok_def)
      show "has_user (a_user_id a) (db w')" if "a \<in> set (accounts (db w'))" for a
        using assms(1) that 2(1) by (auto simp: 2(3) row_def ledger_ok_def refs_ok_def has_user_def)
    qed (use assms(1) in \<open>auto simp: 2(3) has_user_def ledger_ok_def\<close>)
    then show ?thesis using c by (simp add: adds_def grown_same 2(3))
  qed
qed

lemma deactivate_ok:
  assumes "ledger_ok (db w)" and "run (DeactivateAccount a) w = (r, w')"
  shows "adds U w w' \<and> ledger_ok (db w')"
proof -
  let ?f = "\<lambda>x. if a_id x = a then x\<lparr>a_is_active := False\<rparr> else x"
  have m: "map a_id (map ?f xs) = map a_id xs" "map (\<lambda>a. (a_user_id a, a_name a)) (map ?f xs) = map (\<lambda>a. (a_user_id a, a_name a)) xs"
    "map a_user_id (filter (\<lambda>a. a_kind a = ''external'') (map ?f xs)) = map a_user_id (filter (\<lambda>a. a_kind a = ''external'') xs)" for xs
    by (induction xs) auto
  define as where "as = map ?f (accounts (db w))"
  have as: "distinct (map a_id as)" "\<forall>x\<in>set as. a_id x < accounts_seq (seqs (db w)) \<and> has_user (a_user_id x) (db w)"
    "distinct (map (\<lambda>a. (a_user_id a, a_name a)) as)" "distinct (map a_user_id (filter (\<lambda>a. a_kind a = ''external'') as))"
    using assms(1) unfolding as_def m by (auto simp: ledger_ok_def ids_ok_def accounts_ok_def refs_ok_def)
  have same: "\<exists>x\<in>set as. a_id x = a_id y \<and> a_user_id x = a_user_id y \<and> a_kind x = a_kind y \<and> a_currency x = a_currency y"
    if "y \<in> set (accounts (db w))" for y
    using that unfolding as_def by (intro bexI [of _ "?f y"]) auto
  have c: "db w' = db w \<or> db w' = (db w)\<lparr>accounts := as\<rparr>" and k: "clock w' = clock w"
    using run_frame [OF assms(2)] by (auto simp: DeactivateAccount_def as_def)
  have "ledger_ok ((db w)\<lparr>accounts := as\<rparr>)"
  proof (rule ledger_grow [OF assms(1)])
    show "ids_ok ((db w)\<lparr>accounts := as\<rparr>)" using assms(1) as by (simp add: ledger_ok_def ids_ok_def)
    show "accounts_ok ((db w)\<lparr>accounts := as\<rparr>)" using as by (simp add: accounts_ok_def)
    show "has_user (a_user_id x) ((db w)\<lparr>accounts := as\<rparr>)" if "x \<in> set (accounts ((db w)\<lparr>accounts := as\<rparr>))" for x
      using as(2) that by (auto simp: has_user_def)
  qed (use assms(1) same in \<open>auto simp: has_user_def ledger_ok_def\<close>)
  then show ?thesis using c k assms(1) by (auto simp: adds_def intro: grown_same)
qed

text \<open>Users.\<close>

lemma CreateUser_cases:
  assumes "run (CreateUser email h) w = (r, w')"
  shows "clock w' = clock w \<and> (untouched (db w) (db w') \<or>
    (\<forall>u\<in>set (users (db w)). u_email u \<noteq> email) \<and>
    db w' = (db w)\<lparr>users := users (db w) @ [new_user email h w], seqs := (seqs (db w))\<lparr>users_seq := users_seq (seqs (db w)) + 1\<rparr>\<rparr>)"
proof -
  have u: "untouched (db w) ((db w)\<lparr>seqs := (seqs (db w))\<lparr>users_seq := users_seq (seqs (db w)) + 1\<rparr>\<rparr>)"
    by (simp add: untouched_def seqs_le_def)
  let ?q = "snd (CreateUser email h (pg_now w) (db w))"
  have "untouched (db w) ?q \<or> (\<forall>u\<in>set (users (db w)). u_email u \<noteq> email) \<and>
    ?q = (db w)\<lparr>users := users (db w) @ [new_user email h w], seqs := (seqs (db w))\<lparr>users_seq := users_seq (seqs (db w)) + 1\<rparr>\<rparr>"
    using u by (auto simp: CreateUser_def with_serial_def Let_def new_user_def)
  then show ?thesis using run_frame [OF assms(1)] by auto
qed

lemma Register_ok:
  assumes ok: "state_ok dir w d log" and r: "Register L secret rq w = (rep, w')"
  shows "state_ok dir w' d log \<and> grown U w w'"
proof (cases "w' = w")
  case True
  then show ?thesis using ok by (simp add: grown_same)
next
  case False
  obtain c h rr where run: "run (CreateUser (normal_email c) h) w = (rr, w')"
    using r False by (auto simp: Register_def validate_def Let_def split: option.splits prod.splits if_splits sum.splits)
  note k = CreateUser_cases [OF run]
  have l: "ledger_ok (db w)" using ok by (simp add: state_ok_def)
  from k consider "untouched (db w) (db w')" | "\<forall>u\<in>set (users (db w)). u_email u \<noteq> normal_email c"
    "db w' = (db w)\<lparr>users := users (db w) @ [new_user (normal_email c) h w], seqs := (seqs (db w))\<lparr>users_seq := users_seq (seqs (db w)) + 1\<rparr>\<rparr>"
    by blast
  then show ?thesis
  proof cases
    case 1
    then have "adds U w w'" "ledger_ok (db w')" using adds_untouched [OF 1] untouched_ledger_ok [OF 1 l] k by auto
    then show ?thesis by (rule adds_state_ok [OF ok])
  next
    case 2
    have "ledger_ok (db w')"
    proof (rule ledger_grow [OF l])
      show "ids_ok (db w')" using l by (fastforce simp: 2(2) new_user_def ledger_ok_def ids_ok_def)
      show "accounts_ok (db w')" using l by (simp add: 2(2) ledger_ok_def accounts_ok_def)
      show "has_user (a_user_id a) (db w')" if "a \<in> set (accounts (db w'))" for a
        using l that by (auto simp: 2(2) ledger_ok_def refs_ok_def has_user_def)
    qed (use l in \<open>auto simp: 2(2) has_user_def ledger_ok_def\<close>)
    moreover have "snapshots_ok w'"
      using ok k by (intro snapshots_ok_append [of w w' "[]"]) (auto simp: state_ok_def 2(2) pg_now_def)
    moreover have "emails_ok (db w')" using ok 2(1) by (auto simp: state_ok_def emails_ok_def 2(2) new_user_def)
    moreover have "grown U w w'" using k by (simp add: grown_same 2(2))
    ultimately show ?thesis using ok
      by (auto simp: state_ok_def 2(2) exports_ok_def files_ok_def published_ok_def)
  qed
qed

text \<open>Exports.\<close>

lemma exports_state_ok:
  assumes ok: "state_ok dir w d log" and w: "db w' = (db w)\<lparr>exports := es, seqs := (seqs (db w))\<lparr>exports_seq := n\<rparr>\<rparr>"
    and k: "clock w' = clock w" and e: "exports_ok (db w')" "files_ok (Local_Open dir) (db w') d'"
  shows "state_ok dir w' d' log"
proof -
  have "ledger_ok (db w)" using ok by (simp add: state_ok_def)
  then have "ledger_ok (db w')"
    by (rule ledger_ok_beside [where ss = "balance_snapshots (db w)" and es = es and m = "snapshots_seq (seqs (db w))" and n = n]) (simp add: w)
  moreover have "snapshots_ok w'"
    using ok k by (intro snapshots_ok_append [of w w' "[]"]) (auto simp: state_ok_def w pg_now_def)
  ultimately show ?thesis using ok e by (simp add: state_ok_def w emails_ok_def published_ok_def)
qed

lemma CreateExport_cases:
  assumes "run (CreateExport uid m) w = (r, w')"
  shows "clock w' = clock w \<and> (untouched (db w) (db w') \<or>
    (\<exists>e. e_id e = exports_seq (seqs (db w)) \<and> export_ok e \<and> e_status e = ''pending'' \<and>
       db w' = (db w)\<lparr>exports := exports (db w) @ [e], seqs := (seqs (db w))\<lparr>exports_seq := exports_seq (seqs (db w)) + 1\<rparr>\<rparr>))"
proof -
  have u: "untouched (db w) ((db w)\<lparr>seqs := (seqs (db w))\<lparr>exports_seq := exports_seq (seqs (db w)) + 1\<rparr>\<rparr>)"
    by (simp add: untouched_def seqs_le_def)
  define e where "e = \<lparr>e_id = exports_seq (seqs (db w)), e_user_id = uid, e_month = m, e_status = ''pending'', e_file_path = None,
      e_created_at = Some (pg_now w), e_updated_at = Some (pg_now w)\<rparr>"
  let ?q = "snd (CreateExport uid m (pg_now w) (db w))"
  have "untouched (db w) ?q \<or>
     ?q = (db w)\<lparr>exports := exports (db w) @ [e], seqs := (seqs (db w))\<lparr>exports_seq := exports_seq (seqs (db w)) + 1\<rparr>\<rparr>"
    using u by (auto simp: CreateExport_def with_serial_def Let_def e_def)
  moreover have "e_id e = exports_seq (seqs (db w))" "export_ok e" "e_status e = ''pending''" by (simp_all add: e_def export_ok_def)
  ultimately show ?thesis using run_frame [OF assms] by (metis untouched_refl)
qed

lemma request_export_ok:
  assumes ok: "state_ok dir w d log" and r: "CreateExport_handler E accepts rq w = (rep, ps, w')"
  shows "state_ok dir w' d log \<and> grown U w w'"
proof (cases "w' = w")
  case True
  then show ?thesis using ok by (simp add: grown_same)
next
  case False
  obtain uid m rr where run: "run (CreateExport uid m) w = (rr, w')"
    using r False by (auto simp: CreateExport_handler_def split: option.splits prod.splits if_splits sum.splits)
  note k = CreateExport_cases [OF run]
  from k consider "untouched (db w) (db w')" | e where "e_id e = exports_seq (seqs (db w))" "export_ok e" "e_status e = ''pending''"
    "db w' = (db w)\<lparr>exports := exports (db w) @ [e], seqs := (seqs (db w))\<lparr>exports_seq := exports_seq (seqs (db w)) + 1\<rparr>\<rparr>" by blast
  then show ?thesis
  proof cases
    case 1
    have "ledger_ok (db w)" using ok by (simp add: state_ok_def)
    then have "adds U w w'" "ledger_ok (db w')" using adds_untouched [OF 1] untouched_ledger_ok [OF 1] k by auto
    then show ?thesis by (rule adds_state_ok [OF ok])
  next
    case 2
    have "exports_ok (db w)" using ok by (simp add: state_ok_def)
    then have "exports_ok (db w')" by (rule exports_grow [OF _ _ 2(2,1)]) (simp_all add: 2(4))
    moreover have "files_ok (Local_Open dir) (db w') d"
      using ok 2(3) by (auto simp: state_ok_def files_ok_def 2(4))
    moreover have "grown U w w'" using k by (simp add: grown_same 2(4))
    ultimately show ?thesis using exports_state_ok [OF ok 2(4)] k by blast
  qed
qed

lemma exports_self: "\<exists>es. d = d\<lparr>exports := es\<rparr>"
  by (rule exI [of _ "exports d"]) simp

lemma run_export_ok:
  assumes ok: "state_ok dir w d log" and r: "handleExportCSV E (Local_Save dir) p w d = (rr, w', d')"
  shows "state_ok dir w' d' log \<and> grown U w w'"
proof -
  have e: "exports_ok (db w') \<and> files_ok (Local_Open dir) (db w') d'"
    using local_store.handleExportCSV_ok [OF r] ok plain_export_key by (simp add: state_ok_def)
  have "\<exists>es. db w' = (db w)\<lparr>exports := es\<rparr>" and k: "clock w' = clock w"
    using handleExportCSV_cases [OF r] exports_self [of "db w"] unfolding with_status_def by metis+
  then obtain es where es: "db w' = (db w)\<lparr>exports := es\<rparr>" by blast
  have "db w' = (db w)\<lparr>exports := es, seqs := (seqs (db w))\<lparr>exports_seq := exports_seq (seqs (db w))\<rparr>\<rparr>" using es by simp
  moreover have "grown U w w'" using k by (simp add: grown_same es)
  ultimately show ?thesis using exports_state_ok [OF ok _ k] e by blast
qed

text \<open>Snapshots.\<close>

definition snapshot_only :: "database \<Rightarrow> database \<Rightarrow> bool" where
  "snapshot_only d d' \<longleftrightarrow> (\<exists>ss m. d' = d\<lparr>balance_snapshots := ss, seqs := (seqs d)\<lparr>snapshots_seq := m\<rparr>\<rparr>)"

lemma snapshot_only_intros:
  "snapshot_only d d" "snapshot_only d (d\<lparr>seqs := (seqs d)\<lparr>snapshots_seq := k\<rparr>\<rparr>)"
  "snapshot_only d (d\<lparr>seqs := (seqs d)\<lparr>snapshots_seq := k\<rparr>, balance_snapshots := xs\<rparr>)"
  unfolding snapshot_only_def
    apply (rule exI [of _ "balance_snapshots d"], rule exI [of _ "snapshots_seq (seqs d)"], simp)
   apply (rule exI [of _ "balance_snapshots d"], rule exI [of _ k], simp)
  apply (rule exI [of _ xs], rule exI [of _ k], simp)
  done

lemma upsert_snapshot_only: "snapshot_only d (snd (UpsertBalanceSnapshot aid day b now d))"
  by (auto simp: UpsertBalanceSnapshot_def with_serial_def Let_def snapshot_only_intros)

lemma handleSnapshotAccount_frame:
  assumes "handleSnapshotAccount p w = (r, w')"
  shows "clock w' = clock w \<and> snapshot_only (db w) (db w')"
proof (cases "parse_date (sp_Date p)")
  case None
  then show ?thesis using assms by (auto simp: handleSnapshotAccount_def snapshot_only_intros)
next
  case (Some date)
  obtain r1 w1 where s: "run (SumPostingsUpTo (sp_AccountID p) (pg_time (end_of_day date))) w = (r1, w1)" by fastforce
  have w1: "db w1 = db w" "clock w1 = clock w" using s reads_run unfolding SumPostingsUpTo_def reads_def by blast+
  show ?thesis
  proof (cases r1)
    case (Inl e)
    then show ?thesis using assms Some s w1 by (auto simp: handleSnapshotAccount_def Let_def snapshot_only_intros)
  next
    case (Inr b)
    obtain r2 w2 where u: "run (UpsertBalanceSnapshot (sp_AccountID p) (date_day date) b) w1 = (r2, w2)" by fastforce
    have "w' = w2" using assms Some s Inr u by (auto simp: handleSnapshotAccount_def Let_def split: sum.splits)
    then show ?thesis using run_frame [OF u] w1 upsert_snapshot_only snapshot_only_intros(1) by auto
  qed
qed

lemma run_snapshot_ok:
  assumes ok: "state_ok dir w d log" and p: "day_over w p" and r: "handleSnapshotAccount p w = (rr, w')"
  shows "state_ok dir w' d log \<and> grown U w w'"
proof -
  have "snapshots_ok w'"
    using handleSnapshotAccount_ok [OF _ r] ok p by (cases "parse_date (sp_Date p)") (simp_all add: state_ok_def day_over_def)
  moreover obtain ss m where d: "db w' = (db w)\<lparr>balance_snapshots := ss, seqs := (seqs (db w))\<lparr>snapshots_seq := m\<rparr>\<rparr>"
    and k: "clock w' = clock w" using handleSnapshotAccount_frame [OF r] unfolding snapshot_only_def by blast
  have "ledger_ok (db w)" using ok by (simp add: state_ok_def)
  then have "ledger_ok (db w')"
    by (rule ledger_ok_beside [where ss = ss and es = "exports (db w)" and m = m and n = "exports_seq (seqs (db w))"]) (simp add: d)
  moreover have "grown U w w'" using k by (simp add: grown_same d)
  ultimately show ?thesis using ok
    by (simp add: state_ok_def d exports_ok_def files_ok_def emails_ok_def published_ok_def)
qed

text \<open>A date that was formatted and parses is of the years 0 to 9999, so it comes back as the same day.\<close>

lemma dec_nat_long: "10000 \<le> n \<Longrightarrow> 5 \<le> length (dec_nat n)"
proof -
  assume n: "10000 \<le> n"
  have s: "length (dec_nat m) = Suc (length (dec_nat (m div 10)))" if "10 \<le> m" for m :: nat
    using that by (subst dec_nat.simps) simp
  have "10 \<le> n" "10 \<le> n div 10" "10 \<le> n div 10 div 10" "10 \<le> n div 10 div 10 div 10" using n by auto
  moreover have "dec_nat (n div 10 div 10 div 10 div 10) \<noteq> []" by simp
  then have "1 \<le> length (dec_nat (n div 10 div 10 div 10 div 10))" by (simp add: Suc_le_eq)
  ultimately show ?thesis using s by simp
qed

lemma parse_fmt_date_range:
  assumes "parse_date (fmt_date t) = Some d"
  shows "0 \<le> Year t \<and> Year t \<le> 9999"
proof (rule ccontr)
  let ?rest = "''-'' @ fixed2 (Month t) @ ''-'' @ fixed2 (Day t)"
  obtain y s where y: "parse_year (append_int 4 (Year t) @ ?rest) = Some (y, s)" and s: "skip CHR ''-'' s \<noteq> None"
    using assms by (auto simp: parse_date_def parse_ymd_def fmt_date_def bind_eq_Some_conv)
  have p: "parse_uint (take 4 (append_int 4 (Year t) @ ?rest)) = Some y" and d: "s = drop 4 (append_int 4 (Year t) @ ?rest)"
    using y by (auto simp: parse_year_def split: if_splits option.splits)
  assume "\<not> (0 \<le> Year t \<and> Year t \<le> 9999)"
  then consider "Year t < 0" | "10000 \<le> Year t" by linarith
  then show False
  proof cases
    case 1
    then obtain r where "append_int 4 (Year t) = CHR ''-'' # r" by (simp add: append_int_def)
    then show False using p by (simp add: parse_uint_def)
  next
    case 2
    let ?n = "dec_nat (nat (Year t))"
    have l: "5 \<le> length ?n" using 2 by (intro dec_nat_long) simp
    then have "append_int 4 (Year t) = ?n" using 2 by (simp add: append_int_def zero_pad_def)
    then have "s = drop 4 ?n @ ?rest" using d l by simp
    moreover obtain c cs where c: "drop 4 ?n = c # cs" using l by (cases "drop 4 ?n") auto
    moreover have "is_digit c" using dec_nat_digits [of c "nat (Year t)"] c by (metis in_set_dropD list.set_intros(1))
    ultimately show False using s not_is_digit_sign(1) by (auto simp: skip_def split: if_splits)
  qed
qed

text \<open>The nightly job leaves the state alone and asks for snapshots of a day that is over.\<close>

lemma nightly_ok:
  assumes r: "handleSnapshotAll [] (time_Now E w) w = (rr, w')"
  shows "reads w w' \<and> (\<forall>tasks. rr = Inr tasks \<longrightarrow> (\<forall>t\<in>set tasks. day_over w' (snd t)))"
proof -
  let ?y = "day_before (time_Now E w)"
  have w: "reads w w'"
    using r reads_run unfolding handleSnapshotAll_def ListAllAccountIDs_def Let_def by (auto split: prod.splits sum.splits option.splits)
  have "day_over w' (snd t)" if "rr = Inr tasks" "t \<in> set tasks" for tasks t
  proof -
    have p: "sp_Date (snd t) = fmt_date ?y"
      using r that unfolding handleSnapshotAll_def Let_def by (auto simp: day_before_def split: prod.splits sum.splits option.splits)
    have "day_end (date_day date) < pg_now w'" if d: "parse_date (fmt_date ?y) = Some date" for date
    proof -
      have "date_day date = date_day ?y"
        using date_day_parsed [of ?y] parse_fmt_date_range [OF d] d by auto
      moreover have "unix_ns (time_Now E w) div 1000 = pg_now w'" using w by (simp add: time_Now_def pg_now_def reads_def)
      ultimately show ?thesis using yesterday_is_over [of "time_Now E w"] by simp
    qed
    then show ?thesis by (simp add: day_over_def p split: option.split)
  qed
  then show ?thesis using w by blast
qed

text \<open>Publishing marks rows whose messages were sent.\<close>

lemma publish_ok:
  assumes ok: "state_ok dir w d log" and p: "ProcessBatch locked w = (msgs, w')"
  shows "state_ok dir w' d (log @ msgs) \<and> grown U w w'"
proof -
  have l: "ledger_ok (db w)" using ok by (simp add: state_ok_def)
  obtain ids where d: "db w' = marked ids (pg_now w) (db w)" and k: "clock w' = clock w"
    and i: "\<forall>i\<in>set ids. \<exists>x\<in>set (outbox (db w)). o_id x = i \<and> o_processed_at x = None \<and> i \<notin> set locked \<and> message x \<in> set msgs"
    using ProcessBatch_marks [OF p ledger_idle [OF l]] by blast
  have "distinct (map o_id (outbox (db w)))" using l by (auto simp: ledger_ok_def ids_ok_def strict_sorted_iff)
  then have a: "list_all2 (delivered msgs) (outbox (db w)) (outbox (db w'))" unfolding d using marked_delivered i by blast
  have "published_ok (db w') (log @ msgs)"
    unfolding published_ok_def
  proof (intro ballI impI)
    fix y assume "y \<in> set (outbox (db w'))" and y: "o_processed_at y \<noteq> None"
    then obtain x where x: "x \<in> set (outbox (db w))" "delivered msgs x y" using a by (metis list_all2_conv_all_nth in_set_conv_nth)
    have "message y = message x" using x(2) by (auto simp: delivered_def message_def dest!: arg_cong [of _ x message])
    then show "message y \<in> set (log @ msgs)"
      using x y ok by (cases "o_processed_at x") (auto simp: delivered_def state_ok_def published_ok_def)
  qed
  moreover have "ledger_ok (db w')" unfolding d by (rule marked_ledger_ok [OF l])
  moreover have "snapshots_ok w'"
    using ok k by (intro snapshots_ok_append [of w w' "[]"]) (auto simp: state_ok_def d marked_def pg_now_def)
  moreover have "grown U w w'" using k by (simp add: grown_same d marked_def)
  ultimately show ?thesis using ok
    by (auto simp: state_ok_def d marked_def exports_ok_def files_ok_def emails_ok_def)
qed

lemma elapse_ok:
  assumes ok: "state_ok dir w d log" and k: "clock w \<le> now"
  shows "state_ok dir (w\<lparr>clock := now, db_faults := fs, redis_faults := rs\<rparr>) (d\<lparr>disk_faults := ds\<rparr>) log"
proof -
  let ?w = "w\<lparr>clock := now, db_faults := fs, redis_faults := rs\<rparr>"
  have "snapshots_ok w" using ok by (simp add: state_ok_def)
  then have "snapshots_ok ?w" by (rule snapshots_ok_tick) (simp_all add: k)
  moreover have "files_ok (Local_Open dir) db (d\<lparr>disk_faults := ds\<rparr>) = files_ok (Local_Open dir) db d" for db
    by (simp add: files_ok_def Local_Open_def)
  ultimately show ?thesis using ok by (simp add: state_ok_def)
qed

lemma day_over_later: "day_over w p \<Longrightarrow> clock w \<le> clock w' \<Longrightarrow> day_over w' p"
  using zdiv_mono1 [of "clock w" "clock w'" 1000] by (auto simp: day_over_def pg_now_def split: option.splits)

end
