(* ===== verification/System.thy ===== *)
theory System
  imports Upkeep
begin

text \<open>
  The whole system as a transition system: requests, background tasks and the passing of time in any order, each
  under its own faults. The invariant collects those of the components.
\<close>

section \<open>States and steps\<close>

text \<open>
  Beside the world: the counters of the limiters, the tasks handed to the queue (asynq may run a task late and more than
  once, so a task stays), the export files and the messages published so far.
\<close>

record system =
  sy_world :: world
  sy_counters :: counters
  sy_tasks :: "task list"
  sy_disk :: disk
  sy_published :: "(string \<times> json) list"

text \<open>The worker's mux (\<open>NewServer\<close>): the handler of each type of task, and the tasks it hands to the queue.\<close>

fun perform :: "config \<Rightarrow> string \<Rightarrow> task \<Rightarrow> world \<Rightarrow> disk \<Rightarrow> task list \<times> world \<times> disk" where
  "perform C dir (SnapshotAll date) w d =
     (case handleSnapshotAll date (time_Now (cf_env C) w) w of
        (Inl _, w1) \<Rightarrow> ([], w1, d)
      | (Inr tasks, w1) \<Rightarrow> (map (\<lambda>t. SnapshotAccount (snd t)) tasks, w1, d))"
| "perform C dir (SnapshotAccount p) w d = (case handleSnapshotAccount p w of (_, w1) \<Rightarrow> ([], w1, d))"
| "perform C dir (ExportCSV p) w d =
     (case handleExportCSV (cf_env C) (Local_Save dir) p w d of (_, w1, d1) \<Rightarrow> ([], w1, d1))"

text \<open>The task that the scheduler enqueues every day: the empty date stands for yesterday.\<close>

definition nightly_task :: task where
  "nightly_task = SnapshotAll []"

text \<open>The files that a request may read.\<close>

definition reads_disk :: "string \<Rightarrow> disk \<Rightarrow> scene \<Rightarrow> bool" where
  "reads_disk dir d sc \<longleftrightarrow> sc_fetch sc = (\<lambda>k. Local_Open dir k d)"

inductive step :: "config \<Rightarrow> string \<Rightarrow> system \<Rightarrow> system \<Rightarrow> bool" for C dir where
  serve: "r \<in> set (main_routes C) \<Longrightarrow> reads_disk dir (sy_disk S) sc \<Longrightarrow>
    respond C r sc rq (sy_counters S) (sy_world S) = (hs, (rep, ts, w), s) \<Longrightarrow>
    step C dir S (S\<lparr>sy_world := w, sy_counters := s, sy_tasks := sy_tasks S @ ts\<rparr>)"
| schedule: "step C dir S (S\<lparr>sy_tasks := sy_tasks S @ [nightly_task]\<rparr>)"
| work: "t \<in> set (sy_tasks S) \<Longrightarrow> perform C dir t (sy_world S) (sy_disk S) = (ts, w, d) \<Longrightarrow> set us \<subseteq> set ts \<Longrightarrow>
    step C dir S (S\<lparr>sy_world := w, sy_disk := d, sy_tasks := sy_tasks S @ us\<rparr>)"
| publish: "ProcessBatch locked (sy_world S) = (msgs, w) \<Longrightarrow>
    step C dir S (S\<lparr>sy_world := w, sy_published := sy_published S @ msgs\<rparr>)"
| deactivate: "run (DeactivateAccount a) (sy_world S) = (r, w) \<Longrightarrow> step C dir S (S\<lparr>sy_world := w\<rparr>)"
| elapse: "clock (sy_world S) \<le> now \<Longrightarrow>
    step C dir S (S\<lparr>sy_world := (sy_world S)\<lparr>clock := now, db_faults := fs, redis_faults := rs\<rparr>,
                sy_disk := (sy_disk S)\<lparr>disk_faults := ds\<rparr>\<rparr>)"

definition initial :: "system \<Rightarrow> bool" where
  "initial S \<longleftrightarrow> db (sy_world S) = empty_db \<and> 0 \<le> clock (sy_world S) \<and> sy_tasks S = []"

section \<open>The invariant\<close>

fun task_ok :: "world \<Rightarrow> task \<Rightarrow> bool" where
  "task_ok w (SnapshotAll date) = (date = [])"
| "task_ok w (SnapshotAccount p) = day_over w p"
| "task_ok w (ExportCSV p) = True"

definition system_ok :: "string \<Rightarrow> system \<Rightarrow> bool" where
  "system_ok dir S \<longleftrightarrow> state_ok dir (sy_world S) (sy_disk S) (sy_published S) \<and> (\<forall>t\<in>set (sy_tasks S). task_ok (sy_world S) t)"

lemma initial_ok: "initial S \<Longrightarrow> system_ok dir S"
  by (simp add: initial_def system_ok_def empty_state_ok)

lemma task_ok_later: "task_ok w t \<Longrightarrow> clock w \<le> clock w' \<Longrightarrow> task_ok w' t"
  by (cases t) (auto intro: day_over_later)

text \<open>The endpoints of the table.\<close>

definition handlers :: "config \<Rightarrow> handler set" where
  "handlers C =
     {CreateTransaction (cf_env C), CreateTransfer (cf_env C), ReverseTransaction (cf_env C),
      ListAccountEntries_handler (cf_env C), Accounts_Create, Accounts_List, Me, GetCurrent (cf_env C), GetSummary (cf_env C),
      GetStatus (cf_env C), Register (cf_libs C) (cf_secret C), Login (cf_libs C) (cf_secret C)}"

lemma main_routes_endpoints:
  "(l, meth, path, e) \<in> set (main_routes C) \<Longrightarrow>
     e \<in> of_handler ` handlers C \<or> e = export_endpoint (cf_env C) \<or> e = download_endpoint \<or>
     e = admin_endpoint (cf_environ C ''ADMIN_TOKEN'') \<or> (\<exists>rep. e = (\<lambda>sc rq. answered (rep sc)))"
  by (auto simp: main_routes_def HealthRoutes_def Admin_Routes_def Auth_Routes_def Users_Routes_def Accounts_Routes_def
      Transactions_Routes_def Summary_Routes_def Exports_Routes_def Balance_Routes_def handlers_def)

lemma handlers_ok:
  assumes ok: "state_ok dir w d log" and h: "h \<in> handlers C" "h rq w = (rep, w')"
  shows "state_ok dir w' d log \<and> grown (set_option (user_of rq)) w w'"
proof -
  have l: "ledger_ok (db w)" using ok by (simp add: state_ok_def)
  from h(1) consider "h \<in> {CreateTransaction (cf_env C), CreateTransfer (cf_env C), ReverseTransaction (cf_env C)}"
    | "h \<in> {ListAccountEntries_handler (cf_env C), Accounts_List, Me, GetCurrent (cf_env C), GetSummary (cf_env C), GetStatus (cf_env C),
        Login (cf_libs C) (cf_secret C)}"
    | "h = Accounts_Create" | "h = Register (cf_libs C) (cf_secret C)" unfolding handlers_def by blast
  then show ?thesis
  proof cases
    case 1
    from writers_ok [OF l 1 h(2)] show ?thesis using adds_state_ok [OF ok] by blast
  next
    case 2
    from readers_ok [OF 2 h(2)] have "adds (set_option (user_of rq)) w w'" "db w' = db w" by (auto simp: reads_def intro: adds_same)
    then show ?thesis using adds_state_ok [OF ok] l by simp
  next
    case 3
    then show ?thesis using Accounts_Create_ok [OF l] h(2) adds_state_ok [OF ok] by blast
  next
    case 4
    then show ?thesis using Register_ok [OF ok] h(2) by blast
  qed
qed

lemma endpoint_ok:
  assumes r: "(l, meth, path, e) \<in> set (main_routes C)" and ok: "state_ok dir w d log" and e: "e sc rq w = (rep, ts, w')"
  shows "state_ok dir w' d log \<and> grown (set_option (user_of rq)) w w' \<and> (\<forall>t\<in>set ts. task_ok w' t)"
proof -
  have same: "state_ok dir v d log \<and> grown U w v" if "reads w v" for v U
    using that adds_state_ok [OF ok adds_same] ok by (auto simp: reads_def state_ok_def)
  from main_routes_endpoints [OF r] consider h where "h \<in> handlers C" "e = of_handler h" | "e = export_endpoint (cf_env C)"
    | "e = download_endpoint" | "e = admin_endpoint (cf_environ C ''ADMIN_TOKEN'')" | rep where "e = (\<lambda>sc rq. answered (rep sc))" by blast
  then show ?thesis
  proof cases
    case 1
    then have "h rq w = (rep, w')" "ts = []" using e by (auto simp: of_handler_def split: prod.splits)
    then show ?thesis using handlers_ok [OF ok 1(1)] by simp
  next
    case 2
    then obtain ps where "CreateExport_handler (cf_env C) (sc_accepts sc) rq w = (rep, ps, w')" "ts = map ExportCSV ps"
      using e by (auto simp: export_endpoint_def split: prod.splits)
    then show ?thesis using request_export_ok [OF ok] by fastforce
  next
    case 3
    obtain x w1 where o: "ownedExport rq w = (x, w1)" by fastforce
    then have "w' = w1" "ts = []" using e 3
      by (auto simp: download_endpoint_def Download_def split: sum.splits option.splits)
    then show ?thesis using same [OF reads_ownedExport [OF o]] by simp
  next
    case 4
    then have "w' = w" "set ts \<subseteq> {SnapshotAll []}" using e by (auto simp: admin_endpoint_def RunSnapshotAll_def split: if_splits)
    then show ?thesis using ok by (auto intro: grown_same)
  next
    case 5
    then show ?thesis using e ok by (simp add: answered_def grown_same)
  qed
qed

lemma respond_ok:
  assumes r: "r \<in> set (main_routes C)" and ok: "state_ok dir w d log" and e: "respond C r sc rq s w = (hs, (rep, ts, w'), s')"
  shows "state_ok dir w' d log \<and> grown (set_option (token_user C rq w)) w w' \<and> (\<forall>t\<in>set ts. task_ok w' t)"
proof -
  obtain l meth path e' where r': "r = (l, meth, path, e')" by (metis surj_pair)
  have same: "state_ok dir v d log \<and> grown U w v" if "v = w \<or> v = next_redis w" for v U
    using that adds_state_ok [OF ok adds_same] ok by (auto simp: state_ok_def)
  from respond_cases [OF e [unfolded r']] consider "ts = []" "w' = w \<or> w' = next_redis w"
    | rq1 w1 where "w1 = w \<or> w1 = next_redis w" "rq_user rq1 \<in> {None, token_user C rq w}" "e' sc rq1 w1 = (rep, ts, w')" by blast
  then show ?thesis
  proof cases
    case 1
    then show ?thesis using same [OF 1(2)] by simp
  next
    case 2
    have s: "state_ok dir w1 d log" using same [OF 2(1)] by simp
    have u: "set_option (user_of rq1) \<subseteq> set_option (token_user C rq w)" using 2(2) by (auto simp: user_of_def split: option.splits if_splits)
    have "db w1 = db w" "clock w1 = clock w" using 2(1) by auto
    then show ?thesis using endpoint_ok [OF r [unfolded r'] s 2(3)] grown_users [OF _ u] by (auto simp: grown_def)
  qed
qed

lemma perform_ok:
  assumes t: "task_ok w t" and ok: "state_ok dir w d log" and p: "perform C dir t w d = (ts, w', d')"
  shows "state_ok dir w' d' log \<and> grown {} w w' \<and> (\<forall>t\<in>set ts. task_ok w' t)"
proof (cases t)
  case (SnapshotAll date)
  obtain rr where r: "handleSnapshotAll [] (time_Now (cf_env C) w) w = (rr, w')" and d: "d' = d"
    and ts: "ts = [] \<or> (\<exists>tasks. rr = Inr tasks \<and> ts = map (\<lambda>t. SnapshotAccount (snd t)) tasks)"
    using p t SnapshotAll by (auto split: prod.splits sum.splits)
  note n = nightly_ok [OF r]
  have ts_ok: "\<forall>t\<in>set ts. task_ok w' t" using n ts by fastforce
  have "adds {} w w'" "ledger_ok (db w')" using ok n by (auto simp: reads_def state_ok_def intro: adds_same)
  from adds_state_ok [OF ok this] ts_ok d show ?thesis by simp
next
  case (SnapshotAccount q)
  then show ?thesis using p t run_snapshot_ok [OF ok, of q] by (auto split: prod.splits)
next
  case (ExportCSV q)
  then show ?thesis using p run_export_ok [OF ok] by (auto split: prod.splits)
qed

section \<open>Reachable states\<close>

lemma step_ok: "step C dir S T \<Longrightarrow> system_ok dir S \<Longrightarrow> system_ok dir T"
proof (induction rule: step.induct)
  case (serve r S sc rq hs rep ts w s)
  then have "state_ok dir (sy_world S) (sy_disk S) (sy_published S)" by (simp add: system_ok_def)
  from respond_ok [OF serve(1) this serve(3)] show ?case using serve(4) by (auto simp: system_ok_def intro: task_ok_later grown_clock)
next
  case (schedule S)
  then show ?case by (simp add: system_ok_def nightly_task_def)
next
  case (work t S ts w d us)
  then have "task_ok (sy_world S) t" "state_ok dir (sy_world S) (sy_disk S) (sy_published S)" by (auto simp: system_ok_def)
  from perform_ok [OF this work(2)] show ?case using work(3,4) by (auto simp: system_ok_def intro: task_ok_later grown_clock)
next
  case (publish locked S msgs w)
  then have "state_ok dir (sy_world S) (sy_disk S) (sy_published S)" by (simp add: system_ok_def)
  from publish_ok [OF this publish(1)] show ?case using publish(2) by (auto simp: system_ok_def intro: task_ok_later grown_clock)
next
  case (deactivate a S r w)
  then have s: "state_ok dir (sy_world S) (sy_disk S) (sy_published S)" by (simp add: system_ok_def)
  then have "ledger_ok (db (sy_world S))" by (simp add: state_ok_def)
  from deactivate_ok [OF this deactivate(1)] have "state_ok dir w (sy_disk S) (sy_published S) \<and> grown {} (sy_world S) w"
    using adds_state_ok [OF s] by blast
  then show ?case using deactivate(2) by (auto simp: system_ok_def intro: task_ok_later grown_clock)
next
  case (elapse S now fs rs ds)
  then have "state_ok dir (sy_world S) (sy_disk S) (sy_published S)" by (simp add: system_ok_def)
  from elapse_ok [OF this elapse(1)] show ?case using elapse by (auto simp: system_ok_def intro: task_ok_later grown_clock)
qed

interpretation sys: stable "step C dir" "system_ok dir" for C dir
  by unfold_locales (rule step_ok)

end
