(* ===== verification/Reach.thy ===== *)
theory Reach
  imports System
begin

text \<open>
  What holds in every state that the system reaches from an empty database, and what no step can do.
\<close>

section \<open>Reachable states\<close>

definition reachable :: "config \<Rightarrow> string \<Rightarrow> system \<Rightarrow> bool" where
  "reachable C dir T \<longleftrightarrow> (\<exists>S. initial S \<and> reaches (step C dir) S T)"

lemma reachable_ok: "reachable C dir T \<Longrightarrow> system_ok dir T"
  using sys.reaches_inv initial_ok unfolding reachable_def by blast

lemma reachable_state:
  assumes "reachable C dir T"
  shows "ledger_ok (db (sy_world T))" "snapshots_ok (sy_world T)" "exports_ok (db (sy_world T))"
    "files_ok (Local_Open dir) (db (sy_world T)) (sy_disk T)" "emails_ok (db (sy_world T))"
    "published_ok (db (sy_world T)) (sy_published T)"
  using reachable_ok [OF assms] by (simp_all add: system_ok_def state_ok_def)

lemma reachable_step: "reachable C dir S \<Longrightarrow> step C dir S T \<Longrightarrow> reachable C dir T"
  unfolding reachable_def by (metis reaches.onward)

section \<open>Growth\<close>

text \<open>Whose transactions a step may add: the user of the token of a request, and nobody otherwise.\<close>

lemma step_grown:
  assumes "step C dir S T" and "system_ok dir S"
  shows "(\<exists>r sc rq hs rep ts w s. r \<in> set (main_routes C) \<and> respond C r sc rq (sy_counters S) (sy_world S) = (hs, (rep, ts, w), s) \<and>
             T = S\<lparr>sy_world := w, sy_counters := s, sy_tasks := sy_tasks S @ ts\<rparr> \<and>
             grown (set_option (token_user C rq (sy_world S))) (sy_world S) w)
       \<or> (transactions (db (sy_world T)) = transactions (db (sy_world S)) \<and> postings (db (sy_world T)) = postings (db (sy_world S)))"
  using assms
proof (induction rule: step.induct)
  case (serve r S sc rq hs rep ts w s)
  then have "state_ok dir (sy_world S) (sy_disk S) (sy_published S)" by (simp add: system_ok_def)
  from respond_ok [OF serve(1) this serve(3)] serve(1,3) show ?case by blast
next
  case (work t S ts w d us)
  then have "task_ok (sy_world S) t" "state_ok dir (sy_world S) (sy_disk S) (sy_published S)" by (auto simp: system_ok_def)
  from perform_ok [OF this work(2)] show ?case by (auto simp: grown_def)
next
  case (publish locked S msgs w)
  then have "state_ok dir (sy_world S) (sy_disk S) (sy_published S)" by (simp add: system_ok_def)
  from publish_ok [OF this publish(1), of "{}"] show ?case by (auto simp: grown_def)
next
  case (deactivate a S r w)
  then have "ledger_ok (db (sy_world S))" by (simp add: system_ok_def state_ok_def)
  from deactivate_ok [OF this deactivate(1), of "{}"] show ?case by (auto simp: adds_def grown_def)
qed simp_all

definition extends :: "system \<Rightarrow> system \<Rightarrow> bool" where
  "extends S T \<longleftrightarrow> (\<exists>ts ps. transactions (db (sy_world T)) = transactions (db (sy_world S)) @ ts \<and>
     postings (db (sy_world T)) = postings (db (sy_world S)) @ ps)"

interpretation history: monotone_in "step C dir" "system_ok dir" extends for C dir
proof unfold_locales
  show "extends S S" for S by (simp add: extends_def)
  show "extends S T \<Longrightarrow> extends T U \<Longrightarrow> extends S U" for S T U by (auto simp: extends_def)
  show "step C dir S T \<Longrightarrow> system_ok dir S \<Longrightarrow> extends S T" for S T
    using step_grown [of C dir S T] by (auto simp: extends_def grown_def)
qed

text \<open>A posting that was added is of an account of a user in \<open>U\<close>.\<close>

lemma grown_isolated:
  assumes g: "grown U w w'" and l: "ledger_ok (db w')" and a: "a \<in> set (accounts (db w'))" "a_user_id a \<notin> U"
  shows "account_sum (a_id a) (db w') = account_sum (a_id a) (db w)"
proof -
  obtain ts ps where t: "transactions (db w') = transactions (db w) @ ts" and p: "postings (db w') = postings (db w) @ ps"
    and ts: "\<forall>t\<in>set ts. t_user_id t \<in> U" and ps: "\<forall>p\<in>set ps. p_transaction_id p \<in> t_id ` set ts" using g by (auto simp: grown_def)
  have d: "distinct (map t_id (transactions (db w')))" "distinct (map a_id (accounts (db w')))" using l by (auto simp: ledger_ok_def ids_ok_def)
  have "p_account_id p \<noteq> a_id a" if in_ps: "p \<in> set ps" for p
  proof
    assume e: "p_account_id p = a_id a"
    have "posting_ok (db w') p" using l in_ps by (auto simp: ledger_ok_def refs_ok_def p)
    then obtain x b where x: "x \<in> set (transactions (db w'))" "t_id x = p_transaction_id p"
      and b: "b \<in> set (accounts (db w'))" "a_id b = a_id a" "a_user_id b = t_user_id x" by (auto simp: posting_ok_def e)
    obtain y where y: "y \<in> set ts" "t_id y = p_transaction_id p" using ps in_ps by (metis imageE)
    have "y = x" using distinct_map_eqD [OF d(1), of y x] x y t by auto
    moreover have "b = a" using distinct_map_eqD [OF d(2), of b a] b a by auto
    ultimately show False using b ts y a by auto
  qed
  then have "filter (\<lambda>p. p_account_id p = a_id a) ps = []" by (simp add: filter_empty_conv)
  then show ?thesis by (simp add: account_sum_def p)
qed

section \<open>The books of a user\<close>

definition accounts_of :: "int \<Rightarrow> database \<Rightarrow> account_row list" where
  "accounts_of u d = filter (\<lambda>a. a_user_id a = u) (accounts d)"

lemma owner_of_posting:
  assumes "ledger_ok d" and "p \<in> set (postings d)"
  shows "p_account_id p \<in> a_id ` set (accounts_of u d) \<longleftrightarrow> p_transaction_id p \<in> t_id ` set (filter (\<lambda>t. t_user_id t = u) (transactions d))"
proof -
  have d: "distinct (map t_id (transactions d))" "distinct (map a_id (accounts d))" using assms(1) by (auto simp: ledger_ok_def ids_ok_def)
  have "posting_ok d p" using assms by (auto simp: ledger_ok_def refs_ok_def)
  then obtain t a where ta: "t \<in> set (transactions d)" "t_id t = p_transaction_id p" "a \<in> set (accounts d)" "a_id a = p_account_id p"
    "a_user_id a = t_user_id t" by (auto simp: posting_ok_def)
  have "b = a" if "b \<in> set (accounts d)" "a_id b = p_account_id p" for b using distinct_map_eqD [OF d(2) that(1) ta(3)] that(2) ta(4) by simp
  then have "p_account_id p \<in> a_id ` set (accounts_of u d) \<longleftrightarrow> a_user_id a = u"
    unfolding accounts_of_def image_iff set_filter mem_Collect_eq Bex_def using ta(3,4) by metis
  moreover have "s = t" if "s \<in> set (transactions d)" "t_id s = p_transaction_id p" for s
    using distinct_map_eqD [OF d(1) that(1) ta(1)] that(2) ta(2) by simp
  then have "p_transaction_id p \<in> t_id ` set (filter (\<lambda>t. t_user_id t = u) (transactions d)) \<longleftrightarrow> t_user_id t = u"
    unfolding image_iff set_filter mem_Collect_eq Bex_def using ta(1,2) by metis
  ultimately show ?thesis using ta(5) by simp
qed

lemma sum_over_keys:
  assumes "distinct ks"
  shows "(\<Sum>k\<leftarrow>ks. \<Sum>x\<leftarrow>filter (\<lambda>x. g x = k) xs. f x) = (\<Sum>x\<leftarrow>filter (\<lambda>x. g x \<in> set ks) xs. f x :: int)"
proof -
  have "filter (\<lambda>x. g x = k) (filter (\<lambda>x. g x \<in> set ks) xs) = filter (\<lambda>x. g x = k) xs" if "k \<in> set ks" for k
    using that by (auto intro!: filter_cong)
  then have "(\<Sum>k\<leftarrow>ks. \<Sum>x\<leftarrow>filter (\<lambda>x. g x = k) xs. f x)
      = (\<Sum>k\<leftarrow>ks. \<Sum>x\<leftarrow>filter (\<lambda>x. g x = k) (filter (\<lambda>x. g x \<in> set ks) xs). f x)"
    by (intro arg_cong [where f = sum_list] map_cong) simp_all
  then show ?thesis using sum_list_partition_by [OF assms, of "filter (\<lambda>x. g x \<in> set ks) xs" g f] by simp
qed

lemma books_sum:
  assumes l: "ledger_ok d"
  shows "(\<Sum>a\<leftarrow>accounts_of u d. account_sum (a_id a) d) = 0"
proof -
  let ?ks = "map a_id (accounts_of u d)" and ?ts = "map t_id (filter (\<lambda>t. t_user_id t = u) (transactions d))"
  let ?f = "\<lambda>p. sint (p_amount_minor p)"
  have i: "distinct (map t_id (transactions d))" "distinct (map a_id (accounts d))" using l by (auto simp: ledger_ok_def ids_ok_def)
  have k: "distinct ?ks" "distinct ?ts" using i by (auto simp: accounts_of_def distinct_map_filter)
  have "(\<Sum>a\<leftarrow>accounts_of u d. account_sum (a_id a) d) = (\<Sum>i\<leftarrow>?ks. \<Sum>p\<leftarrow>filter (\<lambda>p. p_account_id p = i) (postings d). ?f p)"
    by (simp add: account_sum_def amount_sum_def o_def)
  also have "\<dots> = (\<Sum>p\<leftarrow>filter (\<lambda>p. p_account_id p \<in> set ?ks) (postings d). ?f p)" by (rule sum_over_keys [OF k(1)])
  also have "filter (\<lambda>p. p_account_id p \<in> set ?ks) (postings d) = filter (\<lambda>p. p_transaction_id p \<in> set ?ts) (postings d)"
    using owner_of_posting [OF l, of _ u] by (intro filter_cong) simp_all
  also have "(\<Sum>p\<leftarrow>filter (\<lambda>p. p_transaction_id p \<in> set ?ts) (postings d). ?f p) = (\<Sum>i\<leftarrow>?ts. posting_sum i (postings d))"
    unfolding posting_sum_def by (rule sum_over_keys [OF k(2), symmetric])
  also have "\<dots> = (\<Sum>i\<leftarrow>?ts. 0)" using l by (intro arg_cong [where f = sum_list] map_cong) (auto simp: ledger_ok_def zero_sum_def)
  finally show ?thesis by (simp add: o_def)
qed

end
