(* ===== verification/Run.thy ===== *)
theory Run
  imports Reach
begin

text \<open>
  Concrete runs of the system from an empty database: a user registers, opens an account and records income, and the event is published; or
  the user asks for an export and the worker writes the file.
\<close>

definition send :: "config \<Rightarrow> layer \<times> route \<Rightarrow> scene \<Rightarrow> request \<Rightarrow> system \<Rightarrow> system" where
  "send C r sc rq S =
     (case respond C r sc rq (sy_counters S) (sy_world S) of
        (hs, (rep, ts, w), s) \<Rightarrow> S\<lparr>sy_world := w, sy_counters := s, sy_tasks := sy_tasks S @ ts\<rparr>)"

lemma send_step:
  assumes "r \<in> set (main_routes C)" and "reads_disk dir (sy_disk S) sc"
  shows "step C dir S (send C r sc rq S)"
proof -
  obtain hs rep ts w s where r: "respond C r sc rq (sy_counters S) (sy_world S) = (hs, (rep, ts, w), s)" by (metis surj_pair)
  from step.serve [OF assms r] show ?thesis by (simp add: send_def r)
qed

definition sample_start :: system where
  "sample_start = \<lparr>sy_world = sample_world\<lparr>db := empty_db\<rparr>, sy_counters = (\<lambda>_. None), sy_tasks = [], sy_disk = sample_disk, sy_published = []\<rparr>"

definition sample_scene :: scene where
  "sample_scene = \<lparr>sc_accepts = True, sc_fetch = (\<lambda>k. Local_Open ''exports'' k sample_disk), sc_addr = ''::1'', sc_db_ping = True, sc_redis_ping = True\<rparr>"

definition sample_ask :: "json \<Rightarrow> request" where
  "sample_ask body = sample_request\<lparr>rq_user := None, rq_header := (\<lambda>k. if k = ''Authorization'' then ''Bearer 1:86400'' else []), rq_body := Some body\<rparr>"

definition sample_state1 :: system where
  "sample_state1 = send sample_config (PerAddress, ''POST'', ''/auth/register'', of_handler (Register (cf_libs sample_config) (cf_secret sample_config)))
     sample_scene (sample_signup ''Ann@x.org'') sample_start"

definition sample_state2 :: system where
  "sample_state2 = send sample_config (V1, ''POST'', ''/v1/accounts'', of_handler Accounts_Create) sample_scene
     (sample_ask (JObj [(''name'', JStr ''Cash'')])) sample_state1"

definition sample_state :: system where
  "sample_state = send sample_config (V1, ''POST'', ''/v1/transactions'', of_handler (CreateTransaction (cf_env sample_config))) sample_scene
     (sample_ask (JObj [(''account_id'', JNum 1), (''amount_minor'', JNum 500), (''currency'', JStr ''USD''), (''occurred_at'', JStr ''1970-01-01T00:00:00Z'')]))
     sample_state2"

definition sample_state4 :: system where
  "sample_state4 = send sample_config (V1, ''POST'', ''/v1/exports'', export_endpoint (cf_env sample_config)) sample_scene
     ((sample_ask JNull)\<lparr>rq_query := (\<lambda>_. ''1970-01'')\<rparr>) sample_state1"

definition carry_out :: "config \<Rightarrow> string \<Rightarrow> task \<Rightarrow> system \<Rightarrow> system" where
  "carry_out C dir t S =
     (case perform C dir t (sy_world S) (sy_disk S) of (ts, w, d) \<Rightarrow> S\<lparr>sy_world := w, sy_disk := d, sy_tasks := sy_tasks S @ ts\<rparr>)"

definition sample_export :: export_payload where
  "sample_export = \<lparr>xp_ExportID = 1, xp_UserID = 1, xp_Month = ''1970-01-01''\<rparr>"

definition sample_state5 :: system where
  "sample_state5 = carry_out sample_config ''exports'' (ExportCSV sample_export) sample_state4"

definition sample_state6 :: system where
  "sample_state6 = (case ProcessBatch [] (sy_world sample_state) of
     (msgs, w) \<Rightarrow> sample_state\<lparr>sy_world := w, sy_published := sy_published sample_state @ msgs\<rparr>)"

lemma carry_out_step: "t \<in> set (sy_tasks S) \<Longrightarrow> step C dir S (carry_out C dir t S)"
proof -
  assume t: "t \<in> set (sy_tasks S)"
  obtain ts w d where p: "perform C dir t (sy_world S) (sy_disk S) = (ts, w, d)" by (metis surj_pair)
  from step.work [OF t p subset_refl] show ?thesis by (simp add: carry_out_def p)
qed

lemma send_disk [simp]: "sy_disk (send C r sc rq S) = sy_disk S"
  by (simp add: send_def split: prod.split)

lemma sample_disks:
  "sy_disk sample_start = sample_disk" "sy_disk sample_state1 = sample_disk" "sy_disk sample_state2 = sample_disk"
  by (simp_all add: sample_start_def sample_state1_def sample_state2_def)

lemma sample_initial: "initial sample_start"
  by (simp add: initial_def sample_start_def sample_world_def sample_clock_def)

lemma sample_send:
  assumes "sy_disk S = sample_disk" and "r \<in> set (main_routes sample_config)"
  shows "step sample_config ''exports'' S (send sample_config r sample_scene rq S)"
  using assms by (intro send_step) (simp_all add: reads_disk_def sample_scene_def)

lemma sample_steps:
  "step sample_config ''exports'' sample_start sample_state1" "step sample_config ''exports'' sample_state1 sample_state2"
  "step sample_config ''exports'' sample_state2 sample_state" "step sample_config ''exports'' sample_state1 sample_state4"
  unfolding sample_state1_def sample_state2_def sample_state_def sample_state4_def
  by (rule sample_send;
      simp add: sample_disks main_routes_def Auth_Routes_def Accounts_Routes_def Transactions_Routes_def Exports_Routes_def)+

lemma sample_run: "reaches (step sample_config ''exports'') sample_start sample_state2"
  using sample_steps(1,2) by (blast intro: reaches.intros)

lemma sample_states:
  "reachable sample_config ''exports'' sample_start" "reachable sample_config ''exports'' sample_state1"
  "reachable sample_config ''exports'' sample_state2" "reachable sample_config ''exports'' sample_state"
  "reachable sample_config ''exports'' sample_state4" "reachable sample_config ''exports'' sample_state5"
  "reachable sample_config ''exports'' sample_state6"
proof -
  let ?R = "reachable sample_config ''exports''"
  show "?R sample_start" unfolding reachable_def using sample_initial reaches.here by metis
  then show 1: "?R sample_state1" using sample_steps(1) by (rule reachable_step)
  then show 2: "?R sample_state2" using sample_steps(2) by (rule reachable_step)
  then show 3: "?R sample_state" using sample_steps(3) by (rule reachable_step)
  from 1 show 4: "?R sample_state4" using sample_steps(4) by (rule reachable_step)
  have "sy_tasks sample_state4 = [ExportCSV sample_export]" by code_simp
  then show "?R sample_state5" unfolding sample_state5_def by (intro reachable_step [OF 4] carry_out_step) simp
  obtain msgs w where p: "ProcessBatch [] (sy_world sample_state) = (msgs, w)" by fastforce
  from reachable_step [OF 3 step.publish [OF p]] show "?R sample_state6" by (simp add: sample_state6_def p)
qed

text \<open>What the states hold.\<close>

lemma sample_state_values:
  "let w = sy_world sample_state; d = db w
   in length (transactions d) = 1 \<and> account_sum 1 d = 500 \<and> map a_id (accounts_of 1 d) = [1, 2] \<and> map u_email (users d) = [''ann@x.org''] \<and>
      status (fst (GetCurrent sample_env sample_request w)) = 200"
  by code_simp

lemma sample_state2_values: "postings (db (sy_world sample_state2)) = []"
  by code_simp

lemma sample_exports:
  "let w = sy_world sample_state5
   in map (\<lambda>e. (e_id e, e_user_id e, e_status e)) (exports (db w)) = [(1, 1, ''done'')] \<and> db_faults w = []"
  by code_simp

lemma sample_published:
  "let S = sample_state6
   in length (sy_published S) = 1 \<and> map (\<lambda>x. (message x, o_processed_at x)) (outbox (db (sy_world S))) = map (\<lambda>m. (m, Some 3)) (sy_published S)"
  by code_simp

end
