(* ===== verification/Freshness.thy ===== *)
theory Freshness
  imports Effects
begin

text \<open>
  The cached monthly summary after a booking: the entry of the month is dropped, so the next summary comes from the database.
\<close>

definition fresh_summary :: "env \<Rightarrow> int \<Rightarrow> gtime \<Rightarrow> world \<Rightarrow> monthly_summary result" where
  "fresh_summary E aid month w =
     (case fst (GetMonthlySummary E aid (pg_time month) (pg_now w) (db w)) of
        Inl e \<Rightarrow> Inl e
      | Inr row \<Rightarrow> Inr \<lparr>Inflow = inflow row, Outflow = outflow row, Net = net row\<rparr>)"

lemma Invalidate_healthy:
  assumes "redis_faults w = []"
  shows "redis_faults (Invalidate a m w) = []" "cache (Invalidate a m w) = (cache w)(summary_key a m := None)"
  using assms by (simp_all add: Invalidate_def redis_del_def redis_fails_def next_redis_def)

lemma invalidateLegs_drops:
  assumes "redis_faults w = []"
  shows "redis_faults (invalidateLegs at legs w) = [] \<and>
    cache (invalidateLegs at legs w) = (\<lambda>k. if k \<in> (\<lambda>l. summary_key (AccountID l) (month_of at)) ` set legs then None else cache w k)"
  using assms
proof (induction legs arbitrary: w)
  case (Cons l legs)
  let ?w = "Invalidate (AccountID l) (month_of at) w"
  have "redis_faults ?w = []" "cache ?w = (cache w)(summary_key (AccountID l) (month_of at) := None)"
    using Invalidate_healthy [OF Cons.prems] by auto
  then show ?case using Cons.IH [of ?w] by (auto simp: invalidateLegs_def fun_eq_iff)
qed (simp add: invalidateLegs_def)

text \<open>A missing entry is computed.\<close>

lemma summary_computed:
  assumes "redis_faults w = []" and "db_faults w = []" and "cache w (summary_key aid m) = None"
  shows "fst (GetMonthlySummarySvc E aid m w) = fresh_summary E aid m w"
proof -
  have g: "redis_get (summary_key aid m) w = (None, next_redis w)"
    using assms(1,3) by (simp add: redis_get_def cached_def redis_fails_def)
  have "fst (run (GetMonthlySummary E aid (pg_time m)) (next_redis w)) = fst (GetMonthlySummary E aid (pg_time m) (pg_now w) (db w))"
    using assms(2) by (simp add: run_healthy healthy_def pg_now_def case_prod_beta)
  then show ?thesis
    by (auto simp: GetMonthlySummarySvc_def g fresh_summary_def Let_def split: prod.splits sum.splits)
qed

lemma withTx_wrote:
  assumes call: "withTx session after w = (Inr dto, w')" and idle: "deferred_checks (db w) = []"
    and wrote: "\<not> untouched (db w) (db w')" and forth: "\<And>v. later v (snd (session v))"
  obtains w1 w2 w3 x where "db w1 = db w" and "session w1 = (Inr (Written dto x), w2)"
    and "w' = after x w3" and "redis_faults w3 = redis_faults w"
proof -
  obtain r1 w1 where b: "query Begin w = (r1, w1)" by fastforce
  note w1 = Begin_outcome [OF b idle]
  have f1: "redis_faults w1 = redis_faults w" using later_query [of Begin w] b by (simp add: later_def)
  obtain r2 w2 where t: "session w1 = (r2, w2)" by fastforce
  have l2: "later w1 w2" using forth [of w1] t by simp
  have "untouched (db w) (rolled_back (db w1) (db w2))" using l2 w1 by (simp add: later_def untouched_rolled_back)
  then obtain x w3 where x: "r2 = Inr (Written dto x)" "Commit w1 w2 = (Inr (), w3)" "w' = after x w3"
    using call b t w1 wrote by (auto simp: withTx_def and_then_def Rollback_def split: sum.splits outcome.splits prod.splits)
  have "redis_faults w3 = redis_faults w2" using Commit_keeps [OF x(2)] by simp
  then show ?thesis using that [OF _ _ x(3)] w1 t x(1) f1 l2 by (auto simp: later_def)
qed

text \<open>C38. A booking is seen by the next summary: when income, an expense or a transfer was recorded while Redis answered, then the next
  summary of every account it touched, for the month of \<open>occurred_at\<close> as written in the client's zone and with the database
  answering, is computed from the database, whatever was cached for it before. Other months, such as the one of the same instant in
  another zone, and reversals are not covered: their entries stay until they expire.\<close>

theorem summary_fresh_after_booking:
  assumes "createBalanced E inp w = (Inr dto, w')" and "ledger_ok (db w)" and "\<not> untouched (db w) (db w')"
    and "redis_faults w = []" and "db_faults w' = []" and "p \<in> set (td_Postings dto)"
  shows "fst (GetMonthlySummarySvc E (pd_AccountID p) (month_of (bi_OccurredAt inp)) w')
    = fresh_summary E (pd_AccountID p) (month_of (bi_OccurredAt inp)) w'"
proof -
  have call: "withTx (balancedTx E inp) (invalidateLegs (bi_OccurredAt inp)) w = (Inr dto, w')"
    using assms(1) by (auto simp: createBalanced_def split: option.splits)
  obtain w1 w2 w3 legs where w1: "db w1 = db w" and t: "balancedTx E inp w1 = (Inr (Written dto legs), w2)"
    and w': "w' = invalidateLegs (bi_OccurredAt inp) legs w3" and f: "redis_faults w3 = redis_faults w"
    by (rule withTx_wrote [OF call ledger_idle [OF assms(2)] assms(3)]) (rule later_balancedTx, blast)
  have "deferred_checks (db w1) = []" using ledger_idle [OF assms(2)] w1 by simp
  from balancedTx_Written [OF t this] obtain b where b: "balanced_booking E inp (pg_now w1) (db w1) = Some (dto, b)"
    and l: "legs = balanced_legs inp (pg_now w1) (db w1)" by metis
  note F = booking_for_fields [OF b [unfolded balanced_booking_def]]
  obtain q where q: "q \<in> set (bk_postings b)" "p = posting_view q" using assms(6) F(5) by (auto simp: header_dto_def)
  then have "leg_of q \<in> set legs" using F(3) posting_rows_set l by metis
  moreover have "pd_AccountID p = AccountID (leg_of q)" by (simp add: q posting_view_def leg_of_def)
  ultimately have "pd_AccountID p \<in> AccountID ` set legs" by simp
  then have "redis_faults w' = []" "cache w' (summary_key (pd_AccountID p) (month_of (bi_OccurredAt inp))) = None"
    using invalidateLegs_drops [of w3 "bi_OccurredAt inp" legs] assms(4) f unfolding w' by auto
  then show ?thesis using summary_computed assms(5) by blast
qed

text \<open>The summary of January is read, and cached, before the income of 500 is recorded.\<close>

definition january :: gtime where
  "january = time_Date 1970 1 1 0 0 0 0 0"

definition primed_world :: world where
  "primed_world = snd (GetMonthlySummarySvc sample_env 1 january sample_world)"

definition after_income :: world where
  "after_income = snd (createBalanced sample_env (balanced_of_create (sample_create 500 [])) primed_world)"

lemma primed_values:
  "let x = createBalanced sample_env (balanced_of_create (sample_create 500 [])) primed_world
   in map_sum id (map pd_AccountID \<circ> td_Postings) (fst x) = Inr [1, 4] \<and> length (transactions (db (snd x))) = 1 \<and> db_faults (snd x) = [] \<and>
      fresh_summary sample_env 1 (month_of sample_time) (snd x) = Inr \<lparr>Inflow = 500, Outflow = 0, Net = 500\<rparr>"
  by code_simp

theorem summary_fresh_after_booking_witness:
  "cache primed_world (summary_key 1 january) \<noteq> None \<and>
   fst (GetMonthlySummarySvc sample_env 1 (month_of sample_time) after_income) = Inr \<lparr>Inflow = 500, Outflow = 0, Net = 500\<rparr>"
proof
  show "cache primed_world (summary_key 1 january) \<noteq> None" by code_simp
  let ?inp = "balanced_of_create (sample_create 500 [])"
  obtain r w where c: "createBalanced sample_env ?inp primed_world = (r, w)" by fastforce
  have v: "map_sum id (map pd_AccountID \<circ> td_Postings) r = Inr [1, 4]" "length (transactions (db w)) = 1" "db_faults w = []"
    "fresh_summary sample_env 1 (month_of sample_time) w = Inr \<lparr>Inflow = 500, Outflow = 0, Net = 500\<rparr>"
    using primed_values by (simp_all add: c Let_def)
  obtain dto where r: "r = Inr dto" and m: "map pd_AccountID (td_Postings dto) = [1, 4]" using v(1) by (cases r) auto
  have "1 \<in> set (map pd_AccountID (td_Postings dto))" unfolding m by simp
  then obtain p where p: "p \<in> set (td_Postings dto)" "pd_AccountID p = 1" by auto
  have d: "db primed_world = sample_db" by code_simp
  have "ledger_ok (db primed_world)" unfolding d by code_simp
  moreover have "transactions (db primed_world) = []" unfolding d by code_simp
  then have "\<not> untouched (db primed_world) (db w)" using v(2) by (auto simp: untouched_iff)
  moreover have "redis_faults primed_world = []" by code_simp
  moreover have "bi_OccurredAt ?inp = sample_time" by (simp add: balanced_of_create_def sample_create_def)
  ultimately show "fst (GetMonthlySummarySvc sample_env 1 (month_of sample_time) after_income) = Inr \<lparr>Inflow = 500, Outflow = 0, Net = 500\<rparr>"
    using summary_fresh_after_booking [OF c [unfolded r] _ _ _ v(3) p(1)] v(4) p(2) by (simp add: after_income_def c)
qed

end
