(* ===== verification/Staleness.thy ===== *)
theory Staleness
  imports Run Freshness
begin

text \<open>
  How old a cached monthly summary can be. Every entry of the cache was computed from the database at an earlier moment of the run and
  lives five minutes from then; nothing but the summary endpoint writes one.
\<close>

section \<open>Calls that never write an entry\<close>

definition forgets :: "world \<Rightarrow> world \<Rightarrow> bool" where
  "forgets w w' \<longleftrightarrow> clock w' = clock w \<and> cache w' \<subseteq>\<^sub>m cache w"

lemma forgets_refl [simp]: "forgets w w"
  by (simp add: forgets_def)

lemma forgets_trans: "forgets u v \<Longrightarrow> forgets v w \<Longrightarrow> forgets u w"
  by (auto simp: forgets_def intro: map_le_trans)

lemma forgets_same: "clock w' = clock w \<Longrightarrow> cache w' = cache w \<Longrightarrow> forgets w w'"
  by (simp add: forgets_def)

lemma forgets_next_redis [simp]: "forgets w (next_redis w)"
  by (simp add: forgets_same)

lemma forgets_run: "run q w = (r, w') \<Longrightarrow> forgets w w'"
  by (blast dest: run_frame intro: forgets_same)

lemma forgets_later: "later w w' \<Longrightarrow> forgets w w'"
  by (simp add: later_def forgets_same)

interpretation cache_frame: world_frame forgets
proof unfold_locales
  show "forgets u w" if "forgets u v" "forgets v w" for u v w using that by (rule forgets_trans)
  show "forgets w w'" if "Commit v w = (r, w')" for v w r w' using Commit_keeps [OF that] by (simp add: forgets_same)
qed (simp_all add: forgets_later Rollback_def forgets_same)

lemma forgets_Invalidate: "forgets w (Invalidate a m w)"
  by (auto simp: forgets_def Invalidate_def redis_del_def map_le_def)

lemma forgets_invalidate:
  "forgets w (invalidateLegs at legs w)" "forgets w (invalidateReversed E now x w)"
  unfolding invalidateLegs_def invalidateReversed_def
  by (auto split: prod.split intro!: cache_frame.keeps_fold intro: forgets_Invalidate forgets_trans)

lemma forgets_services:
  "createBalanced E inp w = (r, w') \<Longrightarrow> forgets w w'" "Reverse E rinp now w = (r, w') \<Longrightarrow> forgets w w'"
proof -
  show "forgets w w'" if "createBalanced E inp w = (r, w')"
    using that cache_frame.withTx_keeps [of "balancedTx E inp" "invalidateLegs (bi_OccurredAt inp)" w r w', OF _ later_balancedTx forgets_invalidate(1)]
    by (auto simp: createBalanced_def split: option.splits)
  show "forgets w w'" if "Reverse E rinp now w = (r, w')"
    using that cache_frame.withTx_keeps [of "reverseTx E rinp (UTC now)" "invalidateReversed E (UTC now)" w r w', OF _ later_reverseTx forgets_invalidate(2)]
    by (simp add: Reverse_def Let_def)
qed

lemma forgets_ownedAccount: "ownedAccount uid aid w = (r, w') \<Longrightarrow> forgets w w'"
  unfolding ownedAccount_def by (auto split: prod.splits sum.splits if_splits dest: forgets_run)

lemma forgets_ownedExport: "ownedExport rq w = (r, w') \<Longrightarrow> forgets w w'"
  unfolding ownedExport_def by (auto split: option.splits prod.splits sum.splits if_splits dest: forgets_run)

lemma forgets_CurrentBalance: "CurrentBalance aid now w = (r, w') \<Longrightarrow> forgets w w'"
  unfolding CurrentBalance_def snapshotBase_def
  by (auto split: prod.splits sum.splits dest!: forgets_run intro: forgets_trans)

lemmas forgets_calls = forgets_run forgets_ownedAccount forgets_ownedExport forgets_CurrentBalance forgets_services

lemma forgets_handlers:
  assumes "h \<in> handlers C" and "h \<noteq> GetSummary (cf_env C)" and "h rq w = (rep, w')"
  shows "forgets w w'"
proof -
  from assms(1,2) consider "h \<in> {CreateTransaction (cf_env C), CreateTransfer (cf_env C), ReverseTransaction (cf_env C)}"
    | "h \<in> {ListAccountEntries_handler (cf_env C), GetCurrent (cf_env C), GetStatus (cf_env C)}"
    | "h \<in> {Accounts_Create, Accounts_List, Me, Register (cf_libs C) (cf_secret C), Login (cf_libs C) (cf_secret C)}"
    unfolding handlers_def by blast
  then show ?thesis
  proof cases
    case 1
    then show ?thesis using assms(3)
      by (auto simp: CreateTransaction_def CreateTransfer_def ReverseTransaction_def Create_def Transfer_def
          split: option.splits if_splits prod.splits sum.splits dest!: forgets_calls)
  next
    case 2
    then show ?thesis using assms(3)
      by (auto simp: ListAccountEntries_handler_def GetCurrent_def GetStatus_def Let_def
          split: option.splits if_splits prod.splits sum.splits dest!: forgets_calls intro: forgets_trans)
  next
    case 3
    then show ?thesis using assms(3)
      by (auto simp: Accounts_Create_def Accounts_List_def Me_def Register_def Login_def Let_def
          split: option.splits if_splits prod.splits sum.splits dest!: forgets_calls)
  qed
qed

lemma forgets_perform:
  assumes "perform C dir t w d = (ts, w', d')"
  shows "forgets w w'"
proof (cases t)
  case (SnapshotAll date)
  then show ?thesis using assms
    by (auto simp: handleSnapshotAll_def Let_def split: prod.splits sum.splits option.splits if_splits dest!: forgets_run)
next
  case (SnapshotAccount p)
  then show ?thesis using assms
    by (auto simp: handleSnapshotAccount_def Let_def split: prod.splits sum.splits option.splits dest!: forgets_run intro: forgets_trans)
next
  case (ExportCSV p)
  then show ?thesis using assms by (auto split: prod.splits dest!: handleExportCSV_cases intro: forgets_same)
qed

section \<open>The summary service\<close>

lemma fresh_summary_db: "db v = db w \<Longrightarrow> fresh_summary E aid m v = fresh_summary E aid m w"
  by (simp add: fresh_summary_def GetMonthlySummary_def read_only_def)

text \<open>A summary is computed, and then stored or not, or it is read from a live entry.\<close>

lemma GetMonthlySummarySvc_cases:
  assumes "GetMonthlySummarySvc E aid m w = (r, w')"
  shows "clock w' = clock w \<and>
    (cache w' = cache w \<and> (\<forall>s. r = Inr s \<longrightarrow> fresh_summary E aid m w = Inr s \<or>
        (\<exists>v. cached w (summary_key aid m) = Some v \<and> s = summary_of_json v)) \<or>
     (\<exists>s. r = Inr s \<and> fresh_summary E aid m w = Inr s \<and>
        cache w' = (cache w)(summary_key aid m \<mapsto> (summary_json s, clock w + summary_ttl))))"
proof (cases "fst (redis_get (summary_key aid m) w)")
  case (Some v)
  then have "r = Inr (summary_of_json v)" "w' = next_redis w" "cached w (summary_key aid m) = Some v"
    using assms by (auto simp: GetMonthlySummarySvc_def redis_get_def Let_def split: if_splits)
  then show ?thesis by auto
next
  case None
  obtain q w2 where q: "run (GetMonthlySummary E aid (pg_time m)) (next_redis w) = (q, w2)" by fastforce
  have w2: "clock w2 = clock w" "cache w2 = cache w" "redis_faults w2 = redis_faults (next_redis w)" using run_frame [OF q] by simp_all
  show ?thesis
  proof (cases q)
    case (Inl e)
    then show ?thesis using assms None q w2 by (auto simp: GetMonthlySummarySvc_def redis_get_def Let_def split: if_splits)
  next
    case (Inr row)
    let ?s = "\<lparr>Inflow = inflow row, Outflow = outflow row, Net = net row\<rparr>"
    have "fst (GetMonthlySummary E aid (pg_time m) (pg_now (next_redis w)) (db (next_redis w))) = Inr row"
      using q Inr by (auto simp: run_def Let_def split: fault.splits)
    then have f: "fresh_summary E aid m w = Inr ?s" by (simp add: fresh_summary_def GetMonthlySummary_def read_only_def)
    have "r = Inr ?s" "w' = redis_set (summary_key aid m) (summary_json ?s) summary_ttl w2"
      using assms None q Inr by (auto simp: GetMonthlySummarySvc_def redis_get_def Let_def split: if_splits)
    then show ?thesis using f w2 by (auto simp: redis_set_def)
  qed
qed

section \<open>Every entry has an origin\<close>

text \<open>An entry holds the summary of an account and a month as it was in a world of the past, and expires five minutes after.\<close>

definition origin :: "env \<Rightarrow> world \<Rightarrow> string \<Rightarrow> json \<times> int \<Rightarrow> bool" where
  "origin E u k x \<longleftrightarrow> (\<exists>aid m s. k = summary_key aid m \<and> m = month_of m \<and> fresh_summary E aid m u = Inr s \<and>
     x = (summary_json s, clock u + summary_ttl))"

definition remembered :: "env \<Rightarrow> world set \<Rightarrow> world \<Rightarrow> bool" where
  "remembered E past w \<longleftrightarrow> (\<forall>k x. cache w k = Some x \<longrightarrow> (\<exists>u\<in>past. origin E u k x))"

lemma remembered_forgets: "remembered E past w \<Longrightarrow> forgets w w' \<Longrightarrow> remembered E past w'"
  unfolding remembered_def forgets_def map_le_def by (metis domI)

lemma remembered_mono: "remembered E past w \<Longrightarrow> past \<subseteq> past' \<Longrightarrow> remembered E past' w"
  unfolding remembered_def by blast

lemma parse_month_canonical: "parse_month s = Some m \<Longrightarrow> m = month_of m"
proof -
  assume "parse_month s = Some m"
  then obtain y n :: nat where n: "1 \<le> n" "n \<le> 12" and m: "m = time_Date (int y) (int n) 1 0 0 0 0 0"
    by (auto simp: parse_month_def bind_eq_Some_conv split: if_splits)
  from n have "valid_date (int y) (int n) 1" by (auto simp: valid_date_def days_in_def)
  then show ?thesis using date_of_time_Date [of "int y" "int n" 1 0 0 0 0 0] unfolding m by (simp add: month_of_def)
qed

lemma GetSummary_remembers:
  assumes g: "GetSummary E rq w = (rep, w')" and p: "remembered E past w" and u: "u \<in> past" "db u = db w" "clock u = clock w"
  shows "remembered E past w'"
proof (cases "\<exists>i m r v. parse_month (rq_query rq ''month'') = Some m \<and> ownedAccount (the (user_of rq)) i w = (r, v) \<and>
    snd (GetMonthlySummarySvc E i m v) = w'")
  case True
  then obtain i m r v where m: "parse_month (rq_query rq ''month'') = Some m" and o: "ownedAccount (the (user_of rq)) i w = (r, v)"
    and s: "snd (GetMonthlySummarySvc E i m v) = w'" by blast
  have v: "db v = db w" "clock v = clock w" using reads_ownedAccount [OF o] by (simp_all add: reads_def)
  have r: "remembered E past v" using remembered_forgets [OF p forgets_ownedAccount [OF o]] .
  have f: "fresh_summary E i m v = fresh_summary E i m u" using v u by (intro fresh_summary_db) simp
  from GetMonthlySummarySvc_cases [of E i m v, OF surjective_pairing, unfolded s] v u f
  consider "cache w' = cache v" | x where "fresh_summary E i m u = Inr x"
    "cache w' = (cache v)(summary_key i m \<mapsto> (summary_json x, clock u + summary_ttl))" by auto
  then show ?thesis
  proof cases
    case 2
    then have "origin E u (summary_key i m) (summary_json x, clock u + summary_ttl)"
      using parse_month_canonical [OF m] unfolding origin_def by blast
    then show ?thesis using r u(1) 2(2) by (auto simp: remembered_def)
  qed (use r in \<open>simp add: remembered_def\<close>)
next
  case False
  then have "forgets w w'" using g unfolding GetSummary_def
    by (fastforce split: option.splits prod.splits sum.splits dest: forgets_ownedAccount)
  then show ?thesis using remembered_forgets p by blast
qed

lemma endpoint_remembers:
  assumes r: "(l, meth, path, e) \<in> set (main_routes C)" and e: "e sc rq w = (rep, ts, w')" and p: "remembered (cf_env C) past w"
    and u: "u \<in> past" "db u = db w" "clock u = clock w"
  shows "remembered (cf_env C) past w'"
proof -
  from main_routes_endpoints [OF r] consider h where "h \<in> handlers C" "e = of_handler h" | "e = export_endpoint (cf_env C)"
    | "e = download_endpoint" | "e = admin_endpoint (cf_environ C ''ADMIN_TOKEN'')" | rep where "e = (\<lambda>sc rq. answered (rep sc))" by blast
  then show ?thesis
  proof cases
    case 1
    then have h: "h rq w = (rep, w')" using e by (auto simp: of_handler_def split: prod.splits)
    show ?thesis
    proof (cases "h = GetSummary (cf_env C)")
      case True
      then show ?thesis using GetSummary_remembers [OF _ p u] h by blast
    qed (use forgets_handlers [OF 1(1) _ h] remembered_forgets [OF p] in blast)
  next
    case 2
    then have "forgets w w'" using e
      by (auto simp: export_endpoint_def CreateExport_handler_def split: prod.splits option.splits sum.splits if_splits dest!: forgets_run)
    then show ?thesis using remembered_forgets [OF p] by blast
  next
    case 3
    then have "forgets w w'" using e
      by (auto simp: download_endpoint_def Download_def split: prod.splits option.splits sum.splits if_splits dest!: forgets_ownedExport)
    then show ?thesis using remembered_forgets [OF p] by blast
  next
    case 4
    then show ?thesis using e p by (auto simp: admin_endpoint_def RunSnapshotAll_def split: if_splits)
  next
    case 5
    then show ?thesis using e p by (simp add: answered_def)
  qed
qed

lemma respond_remembers:
  assumes r: "r \<in> set (main_routes C)" and e: "respond C r sc rq s w = (hs, (rep, ts, w'), s')"
    and p: "remembered (cf_env C) past w" "w \<in> past"
  shows "remembered (cf_env C) past w'"
proof -
  obtain l meth path e' where r': "r = (l, meth, path, e')" by (metis surj_pair)
  have n: "remembered (cf_env C) past v" if "v = w \<or> v = next_redis w" for v
    using that p remembered_forgets forgets_next_redis by blast
  from respond_cases [OF e [unfolded r']] consider "w' = w \<or> w' = next_redis w"
    | rq1 w1 where "w1 = w \<or> w1 = next_redis w" "e' sc rq1 w1 = (rep, ts, w')" by blast
  then show ?thesis
  proof cases
    case 2
    have "db w = db w1" "clock w = clock w1" using 2(1) by auto
    then show ?thesis by (rule endpoint_remembers [OF r [unfolded r'] 2(2) n [OF 2(1)] p(2)])
  qed (rule n)
qed

lemma step_remembers:
  assumes "step C dir S T" and "system_ok dir S" and "remembered (cf_env C) past (sy_world S)" and "sy_world S \<in> past"
  shows "remembered (cf_env C) past (sy_world T)"
  using assms
proof (induction rule: step.induct)
  case (serve r S sc rq hs rep ts w s)
  from respond_remembers [OF serve(1,3,5,6)] show ?case by simp
next
  case (work t S ts w d us)
  from remembered_forgets [OF work(5) forgets_perform [OF work(2)]] show ?case by simp
next
  case (publish locked S msgs w)
  then have "deferred_checks (db (sy_world S)) = []" by (auto simp: system_ok_def state_ok_def intro: ledger_idle)
  from ProcessBatch_marks [OF publish(1) this] have "forgets (sy_world S) w" by (auto intro: forgets_same)
  then show ?case using remembered_forgets [OF publish(3)] by simp
next
  case (deactivate a S r w)
  from remembered_forgets [OF deactivate(3) forgets_run [OF deactivate(1)]] show ?case by simp
qed (simp_all add: remembered_def)

text \<open>The worlds of a run between two states.\<close>

definition worlds_between :: "config \<Rightarrow> string \<Rightarrow> system \<Rightarrow> system \<Rightarrow> world set" where
  "worlds_between C dir S T = {sy_world U |U. reaches (step C dir) S U \<and> reaches (step C dir) U T}"

lemma run_remembers:
  assumes "reaches (step C dir) S T" and "system_ok dir S" and "cache (sy_world S) = Map.empty"
  shows "remembered (cf_env C) (worlds_between C dir S T) (sy_world T)"
  using assms
proof (induction rule: reaches.induct)
  case (here S)
  then show ?case by (simp add: remembered_def)
next
  case (onward S T U)
  have "worlds_between C dir S T \<subseteq> worlds_between C dir S U"
    using onward.hyps(2) unfolding worlds_between_def by (blast intro: reaches.onward)
  moreover have "sy_world T \<in> worlds_between C dir S U"
    using onward.hyps unfolding worlds_between_def by (blast intro: reaches_one)
  ultimately show ?case
    using step_remembers [OF onward.hyps(2) sys.reaches_inv [OF onward.hyps(1) onward.prems(1)]] onward.IH [OF onward.prems]
      remembered_mono by blast
qed

text \<open>C15. A summary is never older than five minutes. In a run from an empty cache, whatever faults Redis and the database have and
  whatever requests come between, the summary endpoint answers with figures that were exactly those of the database in some state of
  the run not five minutes ago.\<close>

theorem summary_at_most_five_minutes_old:
  assumes "initial S" and "cache (sy_world S) = Map.empty" and "reaches (step C dir) S T"
    and "GetSummary (cf_env C) rq (sy_world T) = (Reply 200 (Doc j), w')"
  shows "\<exists>U aid m s. reaches (step C dir) S U \<and> reaches (step C dir) U T \<and>
    clock (sy_world T) < clock (sy_world U) + 5 * 60 * 1000000000 \<and>
    path_id rq = Some aid \<and> parse_month (rq_query rq ''month'') = Some m \<and>
    fresh_summary (cf_env C) aid m (sy_world U) = Inr s \<and> j = summary_json s"
proof -
  let ?E = "cf_env C" and ?w = "sy_world T"
  have e: "writeServiceError x \<noteq> Reply 200 (Doc j)" for x using status_writeServiceError(1) [of x] by auto
  obtain uid aid m acc w1 s where u: "user_of rq = Some uid" and a: "path_id rq = Some aid"
    and m: "parse_month (rq_query rq ''month'') = Some m" and o: "ownedAccount uid aid ?w = (acc, w1)"
    and g: "GetMonthlySummarySvc ?E aid m w1 = (Inr s, w')" and j: "j = summary_json s"
    using assms(4) unfolding GetSummary_def
    by (auto simp: e http_Error_def unauthorized_def writeJSON_def split: option.splits prod.splits sum.splits)
  have w1: "db w1 = db ?w" "clock w1 = clock ?w" using reads_ownedAccount [OF o] by (simp_all add: reads_def)
  have p: "remembered ?E (worlds_between C dir S T) w1"
    using remembered_forgets [OF run_remembers [OF assms(3) initial_ok [OF assms(1)] assms(2)] forgets_ownedAccount [OF o]] .
  from GetMonthlySummarySvc_cases [OF g] consider "fresh_summary ?E aid m w1 = Inr s"
    | v where "cached w1 (summary_key aid m) = Some v" "s = summary_of_json v" by auto
  then have "\<exists>v\<in>worlds_between C dir S T. clock ?w < clock v + summary_ttl \<and> fresh_summary ?E aid m v = Inr s"
  proof cases
    case 1
    then have "fresh_summary ?E aid m ?w = Inr s" using fresh_summary_db [OF w1(1)] by simp
    moreover have "?w \<in> worlds_between C dir S T" using assms(3) unfolding worlds_between_def by (blast intro: reaches.here)
    ultimately show ?thesis by (intro bexI [of _ ?w]) (simp_all add: summary_ttl_def)
  next
    case 2
    then obtain e where e: "cache w1 (summary_key aid m) = Some (v, e)" "clock w1 < e"
      by (auto simp: cached_def split: option.splits if_splits)
    then obtain x aid' m' s' where x: "x \<in> worlds_between C dir S T" "summary_key aid m = summary_key aid' m'" "m' = month_of m'"
      "fresh_summary ?E aid' m' x = Inr s'" "v = summary_json s'" "e = clock x + summary_ttl"
      using p unfolding remembered_def origin_def by blast
    have "aid' = aid" "month_of m' = month_of m" using x(2) by (auto simp: summary_key_inj month_of_def)
    moreover have "m = month_of m" by (rule parse_month_canonical [OF m])
    ultimately have "fresh_summary ?E aid m x = Inr s'" using x(3,4) by metis
    moreover have "s' = s" using x(5) 2(2) by (simp add: summary_roundtrip)
    ultimately show ?thesis using x e w1 by auto
  qed
  then show ?thesis using a m j unfolding worlds_between_def summary_ttl_def by blast
qed

text \<open>A run in which the summary is stale: it is read, and cached, before an income of 500 is recorded, and Redis fails the
  invalidation.\<close>

definition sample_month_request :: request where
  "sample_month_request = (sample_ask JNull)\<lparr>rq_query := (\<lambda>_. ''1970-01'')\<rparr>"

definition stale_state1 :: system where
  "stale_state1 = send sample_config (V1, ''GET'', ''/v1/accounts/{id}/summary'', of_handler (GetSummary (cf_env sample_config))) sample_scene
     sample_month_request sample_state2"

definition stale_state2 :: system where
  "stale_state2 = (let S = stale_state1
     in S\<lparr>sy_world := (sy_world S)\<lparr>clock := clock (sy_world S), db_faults := [], redis_faults := [False, True, True]\<rparr>,
          sy_disk := (sy_disk S)\<lparr>disk_faults := []\<rparr>\<rparr>)"

definition stale_state :: system where
  "stale_state = send sample_config (V1, ''POST'', ''/v1/transactions'', of_handler (CreateTransaction (cf_env sample_config))) sample_scene
     (sample_ask (JObj [(''account_id'', JNum 1), (''amount_minor'', JNum 500), (''currency'', JStr ''USD''), (''occurred_at'', JStr ''1970-01-01T00:00:00Z'')]))
     stale_state2"

lemma stale_run: "reaches (step sample_config ''exports'') sample_start stale_state"
proof -
  have d: "disk_faults sample_disk = []" by (simp add: sample_disk_def)
  have go: "reaches (step sample_config ''exports'') sample_start (send sample_config r sample_scene rq S)"
    if "reaches (step sample_config ''exports'') sample_start S" "sy_disk S = sample_disk" "r \<in> set (main_routes sample_config)" for r rq S
    using that by (intro reaches.onward [OF that(1)] send_step) (simp_all add: reads_disk_def sample_scene_def)
  note routes = main_routes_def Transactions_Routes_def Summary_Routes_def
  have "reaches (step sample_config ''exports'') sample_start sample_state2" by (rule sample_run)
  then have 1: "reaches (step sample_config ''exports'') sample_start stale_state1"
    unfolding stale_state1_def by (rule go) (simp_all add: routes sample_disks)
  have "step sample_config ''exports'' stale_state1 stale_state2" unfolding stale_state2_def Let_def by (rule step.elapse) simp
  with 1 have 2: "reaches (step sample_config ''exports'') sample_start stale_state2" by (rule reaches.onward)
  then show ?thesis unfolding stale_state_def
    by (rule go) (simp_all add: routes stale_state2_def stale_state1_def sample_disks Let_def d)
qed

lemma stale_values:
  "let w = sy_world stale_state; rq = sample_month_request\<lparr>rq_user := Some 1\<rparr>; m = the (parse_month ''1970-01'')
   in fst (GetSummary sample_env rq w) = Reply 200 (Doc (summary_json \<lparr>Inflow = 0, Outflow = 0, Net = 0\<rparr>)) \<and>
      fresh_summary sample_env 1 m w = Inr \<lparr>Inflow = 500, Outflow = 0, Net = 500\<rparr>"
  by code_simp

theorem summary_at_most_five_minutes_old_witness:
  "\<exists>U. reaches (step sample_config ''exports'') U stale_state \<and>
     clock (sy_world stale_state) < clock (sy_world U) + 5 * 60 * 1000000000 \<and>
     fresh_summary sample_env 1 (the (parse_month ''1970-01'')) (sy_world U) = Inr \<lparr>Inflow = 0, Outflow = 0, Net = 0\<rparr> \<and>
     fresh_summary sample_env 1 (the (parse_month ''1970-01'')) (sy_world stale_state) = Inr \<lparr>Inflow = 500, Outflow = 0, Net = 500\<rparr>"
proof -
  let ?rq = "sample_month_request\<lparr>rq_user := Some 1\<rparr>"
  have c: "cache (sy_world sample_start) = Map.empty" by (simp add: sample_start_def sample_world_def)
  have v: "fst (GetSummary sample_env ?rq (sy_world stale_state)) = Reply 200 (Doc (summary_json \<lparr>Inflow = 0, Outflow = 0, Net = 0\<rparr>))"
    "fresh_summary sample_env 1 (the (parse_month ''1970-01'')) (sy_world stale_state) = Inr \<lparr>Inflow = 500, Outflow = 0, Net = 500\<rparr>"
    using stale_values by (simp_all add: Let_def)
  have p: "path_id ?rq = Some 1" "rq_query ?rq ''month'' = ''1970-01''" by code_simp+
  obtain w where w: "GetSummary (cf_env sample_config) ?rq (sy_world stale_state) =
      (Reply 200 (Doc (summary_json \<lparr>Inflow = 0, Outflow = 0, Net = 0\<rparr>)), w)"
    using v(1) by (metis sample_config_env prod.collapse)
  have inj: "s = t" if "summary_json s = summary_json t" for s t using that summary_roundtrip by metis
  from summary_at_most_five_minutes_old [OF sample_initial c stale_run w] p v(2) show ?thesis
    by (auto simp: sample_config_env dest!: inj)
qed

end
