(* ===== verification/Corners.thy ===== *)
theory Corners
  imports Handlers Freshness
begin

text \<open>
  Corner cases in which the program does not do what it means to, each shown on a concrete state of the sample system.
\<close>

section \<open>The name of the external account\<close>

text \<open>A user who has an account called \<open>External\<close> cannot record income: the external account cannot be created under that name.\<close>

definition named_external :: world where
  "named_external = sample_world\<lparr>db := sample_db\<lparr>accounts := [sample_account 1 ''External'' ''USD'']\<rparr>\<rparr>"

lemma external_name_locks_out: "fst (Create sample_env (sample_create 500 []) named_external) = Inl (DbError UniqueViolation)"
  by code_simp

section \<open>Months and zones\<close>

text \<open>A session five hours west of UTC, and income in the middle of January.\<close>

definition west_env :: env where
  "west_env = sample_env\<lparr>pg_off := (\<lambda>_. - 18000)\<rparr>"

definition mid_january :: database where
  "mid_january = sample_db1\<lparr>transactions := map (\<lambda>t. t\<lparr>t_occurred_at := 14 * 86400000000\<rparr>) (transactions sample_db1)\<rparr>"

lemma west_session_misses_month:
  "map_sum id net (fst (GetMonthlySummary sample_env 1 (pg_time january) 0 mid_january)) = Inr 500"
  "map_sum id net (fst (GetMonthlySummary west_env 1 (pg_time january) 0 mid_january)) = Inr 0"
  by code_simp+

text \<open>
  The summary of January was cached; then income of 31 January, 22:30 UTC, is recorded by a client two hours east, whose calendar
  shows 1 February. The entry of January stays in the cache.
\<close>

definition east_create :: create_input where
  "east_create = (sample_create 500 [])\<lparr>ci_OccurredAt := \<lparr>unix_ns = (30 * 86400 + 81000) * 1000000000, zone_off = 7200\<rparr>\<rparr>"

lemma stale_summary:
  "(let (_, w1) = GetMonthlySummarySvc sample_env 1 january sample_world;
        (r, w2) = Create sample_env east_create w1
    in (isl r, map_sum id net (fst (GetMonthlySummary sample_env 1 (pg_time january) 0 (db w2))),
        map_sum id Net (fst (GetMonthlySummarySvc sample_env 1 january w2))))
   = (False, Inr 500, Inr 0)"
  by code_simp

section \<open>The first page\<close>

text \<open>The history of an account leaves out an entry of the year 9999, which the sentinel of the first page does not reach.\<close>

definition far_future :: world where
  "far_future = sample_world2\<lparr>db := sample_db1\<lparr>transactions :=
     map (\<lambda>t. t\<lparr>t_occurred_at := pg_time (time_Date 9999 6 1 0 0 0 0 0)\<rparr>) (transactions sample_db1)\<rparr>\<rparr>"

lemma far_future_hidden:
  "fst (ListAccountEntries_handler sample_env (sample_request\<lparr>rq_query := (\<lambda>_. [])\<rparr>) far_future)
     = writeJSON 200 (Some (JObj [(''entries'', JArr []), (''next_cursor'', JStr [])]))"
  by code_simp

section \<open>A snapshot between begin and commit\<close>

text \<open>
  Postings are dated with the start of their database transaction. A transaction that begins five seconds before midnight and commits
  after the snapshot of that day was taken, which an administrator may ask for right after midnight, is in neither part of the
  balance: not in the snapshot, which did not see it, and not among the postings after the day.
\<close>

definition before_midnight :: int where
  "before_midnight = 86395 * 1000000000"

definition after_midnight :: int where
  "after_midnight = 86401 * 1000000000"

definition snapshot_taken :: world where
  "snapshot_taken = snd (handleSnapshotAccount \<lparr>sp_AccountID = 1, sp_Date = ''1970-01-01''\<rparr> (sample_world\<lparr>clock := after_midnight\<rparr>))"

lemma late_commit_missed:
  "(let (r, w) = Create sample_env (sample_create 500 []) (snapshot_taken\<lparr>clock := before_midnight\<rparr>);
        v = w\<lparr>clock := after_midnight\<rparr>
    in (isl r, account_sum 1 (db v), map_sum id br_Balance (fst (CurrentBalance 1 (time_Now sample_env v) v))))
   = (False, 500, Inr 0)"
  by code_simp

end
