(* ===== verification/Contention.thy ===== *)
theory Contention
  imports Idempotency Sample
begin

text \<open>
  Requests with an idempotency key that run at the same moment, each in its own database transaction. The statements of
  \<open>claimIdempotency\<close> and \<open>MarkIdempotencySuccess\<close> (internal/service/transactions.go) interleave in any order. As PostgreSQL documents for
  read committed: a transaction sees the committed rows and its own; an insert that meets the same key of an open transaction waits until
  that one has ended; a commit makes all rows of a transaction visible at once, a rollback none.
\<close>

section \<open>Attempts\<close>

text \<open>Where an attempt is: before the insert, behind an insert that found the key, with the key claimed, with the response stored, at its end.\<close>

datatype phase = Begun | Looking | Claimed | Marked transaction_dto | Ended "svc_error + transaction_dto"

record attempt =
  at_uid :: int
  at_key :: string
  at_hash :: string
  at_own :: "idempotency_row list"
  at_phase :: phase

text \<open>The committed database, the attempts, and what was booked: user, key, hash and response of every transaction that was committed.\<close>

record arena =
  ar_db :: database
  ar_attempt :: "nat \<Rightarrow> attempt"
  ar_booked :: "(int \<times> string \<times> string \<times> transaction_dto) list"

definition own_view :: "database \<Rightarrow> attempt \<Rightarrow> database" where
  "own_view d a = d\<lparr>idempotency_keys := idempotency_keys d @ at_own a\<rparr>"

definition own_rows :: "database \<Rightarrow> database \<Rightarrow> idempotency_row list" where
  "own_rows d d' = drop (length (idempotency_keys d)) (idempotency_keys d')"

definition holds :: "attempt \<Rightarrow> int \<Rightarrow> string \<Rightarrow> bool" where
  "holds a uid key \<longleftrightarrow> (\<exists>k\<in>set (at_own a). k_user_id k = uid \<and> k_key k = key)"

section \<open>Statements\<close>

definition ends :: "attempt \<Rightarrow> svc_error + transaction_dto \<Rightarrow> attempt" where
  "ends a r = a\<lparr>at_own := [], at_phase := Ended r\<rparr>"

definition insert_key :: "int \<Rightarrow> database \<Rightarrow> attempt \<Rightarrow> attempt" where
  "insert_key now d a =
     (case InsertIdempotencyKey (at_uid a) (at_key a) (at_hash a) now (own_view d a) of
        (Inr _, d') \<Rightarrow> a\<lparr>at_own := own_rows d d', at_phase := Claimed\<rparr>
      | (Inl e, d') \<Rightarrow> if e = NoRows then a\<lparr>at_phase := Looking\<rparr> else ends a (Inl (DbError e)))"

definition look_up :: "int \<Rightarrow> database \<Rightarrow> attempt \<Rightarrow> attempt" where
  "look_up now d a =
     (case fst (GetIdempotency (at_uid a) (at_key a) now (own_view d a)) of
        Inl e \<Rightarrow> ends a (Inl (DbError e))
      | Inr r \<Rightarrow> ends a (claim_answer r (at_hash a)))"

definition store_response :: "int \<Rightarrow> database \<Rightarrow> transaction_dto \<Rightarrow> json \<Rightarrow> attempt \<Rightarrow> attempt" where
  "store_response now d dto resp a =
     a\<lparr>at_own := own_rows d (snd (MarkIdempotencySuccess (at_uid a) (at_key a) (at_hash a) resp now (own_view d a))),
       at_phase := Marked dto\<rparr>"

definition put :: "nat \<Rightarrow> attempt \<Rightarrow> arena \<Rightarrow> arena" where
  "put i a S = S\<lparr>ar_attempt := (ar_attempt S)(i := a)\<rparr>"

text \<open>The errors of a body and of the connection; the two errors of a taken key come from the look-up only.\<close>

definition body_error :: "svc_error \<Rightarrow> bool" where
  "body_error e \<longleftrightarrow> e \<noteq> ErrIdempotencyConflict \<and> e \<noteq> ErrIdempotencyInFlight"

inductive contend :: "arena \<Rightarrow> arena \<Rightarrow> bool" where
  claim: "a = ar_attempt S i \<Longrightarrow> at_phase a = Begun \<Longrightarrow> at_key a \<noteq> [] \<Longrightarrow>
    (\<And>j. j \<noteq> i \<Longrightarrow> \<not> holds (ar_attempt S j) (at_uid a) (at_key a)) \<Longrightarrow> contend S (put i (insert_key now (ar_db S) a) S)"
| look: "a = ar_attempt S i \<Longrightarrow> at_phase a = Looking \<Longrightarrow> contend S (put i (look_up now (ar_db S) a) S)"
| mark: "a = ar_attempt S i \<Longrightarrow> at_phase a = Claimed \<Longrightarrow> dto_json dto = Some resp \<Longrightarrow> dto_of_json resp = Some dto \<Longrightarrow>
    contend S (put i (store_response now (ar_db S) dto resp a) S)"
| commit: "a = ar_attempt S i \<Longrightarrow> at_phase a = Marked dto \<Longrightarrow> r = Inr dto \<or> r = Inl (DbError ConnectionFailure) \<Longrightarrow>
    contend S (put i (ends a r) (S\<lparr>ar_db := own_view (ar_db S) a, ar_booked := ar_booked S @ [(at_uid a, at_key a, at_hash a, dto)]\<rparr>))"
| rollback: "a = ar_attempt S i \<Longrightarrow> at_phase a \<notin> range Ended \<Longrightarrow> body_error e \<Longrightarrow> contend S (put i (ends a (Inl e)) S)"
| elsewhere: "idempotency_keys d = idempotency_keys (ar_db S) \<Longrightarrow> contend S (S\<lparr>ar_db := d\<rparr>)"

section \<open>The claim of the sequential model\<close>

text \<open>Undisturbed, the two statements do what \<open>claimIdempotency\<close> does.\<close>

fun claim_result :: "phase \<Rightarrow> (svc_error + transaction_dto option) option" where
  "claim_result Claimed = Some (Inr None)"
| "claim_result (Ended (Inl e)) = Some (Inl e)"
| "claim_result (Ended (Inr dto)) = Some (Inr (Some dto))"
| "claim_result _ = None"

lemma claim_undisturbed:
  assumes "healthy w" and "at_key a \<noteq> []" and "at_own a = []"
  shows "claim_result (at_phase (let b = insert_key (pg_now w) (db w) a in if at_phase b = Looking then look_up (pg_now w) (db w) b else b))
    = Some (fst (claimIdempotency (at_uid a) (at_key a) (at_hash a) w))"
proof -
  have o: "own_view (db w) a = db w" "own_view (db w) (a\<lparr>at_phase := p\<rparr>) = db w" for p by (simp_all add: own_view_def assms(3))
  have r: "run q w = (fst (q (pg_now w) (db w)), w\<lparr>db := snd (q (pg_now w) (db w))\<rparr>)" for q :: "'x statement"
    using assms(1) by (simp add: healthy_def run_healthy case_prod_beta)
  show ?thesis
  proof (cases "key_row (at_uid a) (at_key a) (db w)")
    case (Some k)
    then have k: "\<exists>k\<in>set (idempotency_keys (db w)). k_user_id k = at_uid a \<and> k_key k = at_key a"
      by (auto simp: key_row_def dest: find_Some_in)
    have "fst (GetIdempotency (at_uid a) (at_key a) (pg_now w) (db w)) = Inr k"
      using Some by (simp add: GetIdempotency_def read_only_def key_row_def)
    then show ?thesis unfolding claim_taken [OF assms(1,2) Some] using k
      by (auto simp: insert_key_def look_up_def o InsertIdempotencyKey_def ends_def Let_def split: sum.splits)
  next
    case None
    then have "\<not> (\<exists>k\<in>set (idempotency_keys (db w)). k_user_id k = at_uid a \<and> k_key k = at_key a)"
      by (auto simp: key_row_def find_None_iff)
    then show ?thesis using assms(2)
      by (auto simp: claimIdempotency_def r insert_key_def o InsertIdempotencyKey_def ends_def Let_def)
  qed
qed

section \<open>The invariant\<close>

definition kk :: "idempotency_row \<Rightarrow> int \<times> string" where
  "kk k = (k_user_id k, k_key k)"

definition own_keys :: "attempt \<Rightarrow> (int \<times> string) set" where
  "own_keys a = kk ` set (at_own a)"

definition db_keys :: "database \<Rightarrow> (int \<times> string) set" where
  "db_keys d = kk ` set (idempotency_keys d)"

lemma holds_iff: "holds a uid key \<longleftrightarrow> (uid, key) \<in> own_keys a"
  by (auto simp: holds_def own_keys_def kk_def image_iff)

lemma taken_iff: "(uid, key) \<in> db_keys d \<longleftrightarrow> (\<exists>k\<in>set (idempotency_keys d). k_user_id k = uid \<and> k_key k = key)"
  by (auto simp: db_keys_def kk_def image_iff)

text \<open>A row that answers an attempt with a response, and the row that an attempt owns in each phase.\<close>

definition settled :: "idempotency_row \<Rightarrow> string \<Rightarrow> transaction_dto \<Rightarrow> bool" where
  "settled k hash dto \<longleftrightarrow> k_request_hash k = hash \<and> k_status k = ''succeeded'' \<and>
     (\<exists>resp. k_response_json k = Some resp \<and> dto_of_json resp = Some dto)"

definition own_ok :: "attempt \<Rightarrow> bool" where
  "own_ok a \<longleftrightarrow> (case at_phase a of
      Claimed \<Rightarrow> (\<exists>k. at_own a = [k] \<and> kk k = (at_uid a, at_key a) \<and> k_request_hash k = at_hash a)
    | Marked dto \<Rightarrow> (\<exists>k. at_own a = [k] \<and> kk k = (at_uid a, at_key a) \<and> settled k (at_hash a) dto)
    | _ \<Rightarrow> at_own a = [])"

definition exclusive :: "arena \<Rightarrow> bool" where
  "exclusive S \<longleftrightarrow>
     (\<forall>i j. i \<noteq> j \<longrightarrow> own_keys (ar_attempt S i) \<inter> own_keys (ar_attempt S j) = {}) \<and>
     (\<forall>i. own_keys (ar_attempt S i) \<inter> db_keys (ar_db S) = {})"

fun booked_key :: "int \<times> string \<times> string \<times> transaction_dto \<Rightarrow> int \<times> string" where
  "booked_key (u, k, h, dto) = (u, k)"

text \<open>Every committed row is an old one or belongs to a booking, and every booking has its row.\<close>

definition keys_booked :: "idempotency_row set \<Rightarrow> arena \<Rightarrow> bool" where
  "keys_booked old S \<longleftrightarrow>
     distinct (map kk (idempotency_keys (ar_db S))) \<and> old \<subseteq> set (idempotency_keys (ar_db S)) \<and>
     map booked_key (ar_booked S) = map kk (filter (\<lambda>k. k \<notin> old) (idempotency_keys (ar_db S))) \<and>
     (\<forall>(u, k, h, dto)\<in>set (ar_booked S). \<exists>r\<in>set (idempotency_keys (ar_db S)). kk r = (u, k) \<and> settled r h dto) \<and>
     (\<forall>r\<in>set (idempotency_keys (ar_db S)). \<exists>h dto. settled r h dto)"

definition answered_ok :: "arena \<Rightarrow> attempt \<Rightarrow> bool" where
  "answered_ok S a \<longleftrightarrow>
     (at_phase a = Looking \<longrightarrow> (at_uid a, at_key a) \<in> db_keys (ar_db S)) \<and>
     (\<forall>dto. at_phase a = Ended (Inr dto) \<longrightarrow>
        (\<exists>r\<in>set (idempotency_keys (ar_db S)). kk r = (at_uid a, at_key a) \<and> settled r (at_hash a) dto)) \<and>
     at_phase a \<noteq> Ended (Inl ErrIdempotencyInFlight)"

definition arena_ok :: "idempotency_row set \<Rightarrow> arena \<Rightarrow> bool" where
  "arena_ok old S \<longleftrightarrow> keys_booked old S \<and> exclusive S \<and> (\<forall>i. own_ok (ar_attempt S i) \<and> answered_ok S (ar_attempt S i))"

lemma arena_okD:
  assumes "arena_ok old S"
  shows "keys_booked old S" "exclusive S" "answered_ok S (ar_attempt S i)"
    "at_phase (ar_attempt S i) \<in> {Begun, Looking} \<Longrightarrow> at_own (ar_attempt S i) = []"
    "at_phase (ar_attempt S i) = Claimed \<Longrightarrow> \<exists>k. at_own (ar_attempt S i) = [k] \<and>
       kk k = (at_uid (ar_attempt S i), at_key (ar_attempt S i)) \<and> k_request_hash k = at_hash (ar_attempt S i)"
    "at_phase (ar_attempt S i) = Marked dto \<Longrightarrow> \<exists>k. at_own (ar_attempt S i) = [k] \<and>
       kk k = (at_uid (ar_attempt S i), at_key (ar_attempt S i)) \<and> settled k (at_hash (ar_attempt S i)) dto"
proof -
  show "keys_booked old S" "exclusive S" "answered_ok S (ar_attempt S i)" using assms by (simp_all add: arena_ok_def)
  have "own_ok (ar_attempt S i)" using assms by (simp add: arena_ok_def)
  then show "at_phase (ar_attempt S i) \<in> {Begun, Looking} \<Longrightarrow> at_own (ar_attempt S i) = []"
    "at_phase (ar_attempt S i) = Claimed \<Longrightarrow> \<exists>k. at_own (ar_attempt S i) = [k] \<and>
       kk k = (at_uid (ar_attempt S i), at_key (ar_attempt S i)) \<and> k_request_hash k = at_hash (ar_attempt S i)"
    "at_phase (ar_attempt S i) = Marked dto \<Longrightarrow> \<exists>k. at_own (ar_attempt S i) = [k] \<and>
       kk k = (at_uid (ar_attempt S i), at_key (ar_attempt S i)) \<and> settled k (at_hash (ar_attempt S i)) dto"
    by (auto simp: own_ok_def)
qed

lemma settled_answer: "settled k hash dto \<Longrightarrow> claim_answer k h = (if h = hash then Inr dto else Inl ErrIdempotencyConflict)"
  by (auto simp: settled_def claim_answer_def)

lemma settled_unique: "settled k h dto \<Longrightarrow> settled k h' dto' \<Longrightarrow> h = h' \<and> dto = dto'"
  by (auto simp: settled_def)

text \<open>A step of one attempt that leaves the committed rows.\<close>

lemma arena_ok_put:
  assumes ok: "arena_ok old S" and a: "own_ok a" "answered_ok S a"
    and f: "own_keys a \<inter> db_keys (ar_db S) = {}" "\<And>j. j \<noteq> i \<Longrightarrow> own_keys a \<inter> own_keys (ar_attempt S j) = {}"
  shows "arena_ok old (put i a S)"
proof -
  have "exclusive S" using ok by (simp add: arena_ok_def)
  then have "exclusive (put i a S)" using f unfolding exclusive_def put_def by (simp add: Int_commute)
  moreover have "keys_booked old (put i a S)" using ok by (simp add: arena_ok_def keys_booked_def put_def)
  moreover have "own_ok (ar_attempt (put i a S) j) \<and> answered_ok (put i a S) (ar_attempt (put i a S) j)" for j
    using ok a by (simp add: arena_ok_def put_def answered_ok_def)
  ultimately show ?thesis by (simp add: arena_ok_def)
qed

lemma insert_key_cases:
  assumes "at_own a = []"
  shows "(\<exists>k. insert_key now d a = a\<lparr>at_own := [k], at_phase := Claimed\<rparr> \<and> kk k = (at_uid a, at_key a) \<and> k_request_hash k = at_hash a \<and>
      (at_uid a, at_key a) \<notin> db_keys d)
    \<or> insert_key now d a = a\<lparr>at_phase := Looking\<rparr> \<and> (at_uid a, at_key a) \<in> db_keys d
    \<or> (\<exists>e. insert_key now d a = ends a (Inl (DbError e)))"
proof (cases "(at_uid a, at_key a) \<in> db_keys d")
  case True
  then have "insert_key now d a = a\<lparr>at_phase := Looking\<rparr>"
    using assms by (simp add: taken_iff insert_key_def InsertIdempotencyKey_def own_view_def Let_def)
  then show ?thesis using True by blast
next
  case False
  let ?k = "\<lparr>k_user_id = at_uid a, k_key = at_key a, k_request_hash = at_hash a, k_status = ''started'', k_response_json = None,
      k_created_at = now\<rparr>"
  have "insert_key now d a = a\<lparr>at_own := [?k], at_phase := Claimed\<rparr> \<or> insert_key now d a = ends a (Inl (DbError ForeignKeyViolation))"
    using False assms unfolding taken_iff by (auto simp: insert_key_def InsertIdempotencyKey_def own_view_def own_rows_def Let_def)
  moreover have "kk ?k = (at_uid a, at_key a)" "k_request_hash ?k = at_hash a" by (simp_all add: kk_def)
  ultimately show ?thesis using False by blast
qed

lemma store_response_own:
  assumes "at_own a = [k]" and "kk k = (at_uid a, at_key a)" and "k_request_hash k = at_hash a"
  shows "at_own (store_response now d dto resp a) = [k\<lparr>k_status := ''succeeded'', k_response_json := Some resp\<rparr>]"
  using assms by (simp add: store_response_def own_rows_def own_view_def MarkIdempotencySuccess_def kk_def)

lemma ends_ok: "answered_ok S (ends a r) \<Longrightarrow> arena_ok old S \<Longrightarrow> arena_ok old (put i (ends a r) S)"
  by (rule arena_ok_put) (simp_all add: own_ok_def ends_def own_keys_def)

lemma look_up_ok:
  assumes ok: "arena_ok old S" and p: "at_phase (ar_attempt S i) = Looking"
  shows "arena_ok old (put i (look_up now (ar_db S) (ar_attempt S i)) S)"
proof -
  let ?a = "ar_attempt S i" and ?d = "ar_db S"
  have o: "at_own ?a = []" using arena_okD(4) [OF ok, of i] p by simp
  have "(at_uid ?a, at_key ?a) \<in> db_keys ?d" using arena_okD(3) [OF ok, of i] p by (simp add: answered_ok_def)
  then have "find (\<lambda>k. k_user_id k = at_uid ?a \<and> k_key k = at_key ?a) (idempotency_keys ?d) \<noteq> None"
    unfolding taken_iff find_None_iff by blast
  then obtain r where r: "find (\<lambda>k. k_user_id k = at_uid ?a \<and> k_key k = at_key ?a) (idempotency_keys ?d) = Some r" by blast
  then have in_db: "r \<in> set (idempotency_keys ?d)" "kk r = (at_uid ?a, at_key ?a)" by (auto simp: kk_def dest: find_Some_in)
  obtain h dto where s: "settled r h dto" using ok in_db(1) by (auto simp: arena_ok_def keys_booked_def)
  have l: "look_up now ?d ?a = ends ?a (claim_answer r (at_hash ?a))"
    by (simp add: look_up_def GetIdempotency_def read_only_def own_view_def o r)
  have "answered_ok S (ends ?a (claim_answer r (at_hash ?a)))"
    using s in_db by (auto simp: settled_answer [OF s] answered_ok_def ends_def)
  then show ?thesis unfolding l using ends_ok ok by blast
qed

lemma commit_ok:
  assumes ok: "arena_ok old S" and p: "at_phase (ar_attempt S i) = Marked dto" and r: "r = Inr dto \<or> r = Inl (DbError ConnectionFailure)"
  defines "a \<equiv> ar_attempt S i"
  shows "arena_ok old (put i (ends a r) (S\<lparr>ar_db := own_view (ar_db S) a, ar_booked := ar_booked S @ [(at_uid a, at_key a, at_hash a, dto)]\<rparr>))"
    (is "arena_ok old ?T")
proof -
  let ?keys = "idempotency_keys (ar_db S)"
  obtain k where k: "at_own a = [k]" "kk k = (at_uid a, at_key a)" "settled k (at_hash a) dto"
    using arena_okD(6) [OF ok p] by (auto simp: a_def)
  have T: "idempotency_keys (ar_db ?T) = ?keys @ [k]" "ar_booked ?T = ar_booked S @ [(at_uid a, at_key a, at_hash a, dto)]"
    "ar_attempt ?T = (ar_attempt S)(i := ends a r)" by (simp_all add: put_def own_view_def k)
  have ex: "exclusive S" and kb: "keys_booked old S" using ok by (simp_all add: arena_ok_def)
  have own: "own_keys a = {kk k}" by (simp add: own_keys_def k)
  have apart: "own_keys a \<inter> db_keys (ar_db S) = {}" "\<And>j. j \<noteq> i \<Longrightarrow> own_keys (ar_attempt S j) \<inter> own_keys a = {}"
    using ex unfolding exclusive_def a_def by blast+
  then have new: "kk k \<notin> db_keys (ar_db S)" using own by blast
  have dk: "db_keys (ar_db ?T) = insert (kk k) (db_keys (ar_db S))" by (simp add: db_keys_def T)
  have "own_keys (ends a r) = {}" by (simp add: own_keys_def ends_def)
  then have "exclusive ?T" using ex apart(2) own unfolding exclusive_def T(3) dk by simp
  moreover have "keys_booked old ?T"
  proof -
    have "k \<notin> old" using new kb by (auto simp: keys_booked_def db_keys_def)
    moreover have "kk k \<notin> kk ` set ?keys" using new by (simp add: db_keys_def)
    ultimately show ?thesis using kb k by (auto simp: keys_booked_def T)
  qed
  moreover have "own_ok (ends a r)" by (simp add: own_ok_def ends_def)
  moreover have "answered_ok ?T (ends a r)" unfolding answered_ok_def T(1) using r k by (auto simp: ends_def)
  moreover have "answered_ok ?T (ar_attempt S j)" for j
    using arena_okD(3) [OF ok, of j] unfolding answered_ok_def dk T(1) by auto
  moreover have "own_ok (ar_attempt S j)" for j using ok by (simp add: arena_ok_def)
  ultimately have "own_ok (ar_attempt ?T j) \<and> answered_ok ?T (ar_attempt ?T j)" for j unfolding T(3) by simp
  then show ?thesis using \<open>exclusive ?T\<close> \<open>keys_booked old ?T\<close> unfolding arena_ok_def by blast
qed

lemma contend_ok: "contend S T \<Longrightarrow> arena_ok old S \<Longrightarrow> arena_ok old T"
proof (induction rule: contend.induct)
  case (claim a S i now)
  have o: "at_own a = []" using arena_okD(4) [OF claim.prems, of i] claim.hyps by simp
  have free: "(at_uid a, at_key a) \<notin> own_keys (ar_attempt S j)" if "j \<noteq> i" for j using claim.hyps(4) that by (simp add: holds_iff)
  from insert_key_cases [OF o, of now "ar_db S"] consider
    k where "insert_key now (ar_db S) a = a\<lparr>at_own := [k], at_phase := Claimed\<rparr>" "kk k = (at_uid a, at_key a)"
      "k_request_hash k = at_hash a" "(at_uid a, at_key a) \<notin> db_keys (ar_db S)"
    | "insert_key now (ar_db S) a = a\<lparr>at_phase := Looking\<rparr>" "(at_uid a, at_key a) \<in> db_keys (ar_db S)"
    | e where "insert_key now (ar_db S) a = ends a (Inl (DbError e))" by blast
  then show ?case
  proof cases
    case 1
    have "own_keys (insert_key now (ar_db S) a) = {(at_uid a, at_key a)}" by (simp add: 1 own_keys_def)
    then show ?thesis using 1 free claim.prems
      by (intro arena_ok_put) (simp_all add: own_ok_def answered_ok_def)
  next
    case 2
    then show ?thesis using o claim.prems
      by (intro arena_ok_put) (simp_all add: own_ok_def answered_ok_def own_keys_def)
  next
    case 3
    then show ?thesis using claim.prems ends_ok by (simp add: answered_ok_def ends_def)
  qed
next
  case (look a S i now)
  then show ?case using look_up_ok by blast
next
  case (mark a S i dto resp now)
  then obtain k where k: "at_own a = [k]" "kk k = (at_uid a, at_key a)" "k_request_hash k = at_hash a"
    using arena_okD(5) [OF mark.prems, of i] by auto
  let ?b = "store_response now (ar_db S) dto resp a"
  have b: "at_own ?b = [k\<lparr>k_status := ''succeeded'', k_response_json := Some resp\<rparr>]" by (rule store_response_own [OF k])
  have fields: "at_uid ?b = at_uid a" "at_key ?b = at_key a" "at_hash ?b = at_hash a" "at_phase ?b = Marked dto"
    by (simp_all add: store_response_def)
  have "own_keys ?b = own_keys a" using k by (simp add: own_keys_def b kk_def)
  moreover have "exclusive S" using mark.prems by (simp add: arena_ok_def)
  ultimately show ?case using mark k b fields
    by (intro arena_ok_put) (auto simp: own_ok_def answered_ok_def settled_def kk_def exclusive_def)
next
  case (commit a S i dto r)
  then show ?case using commit_ok by blast
next
  case (rollback a S i e)
  then show ?case using ends_ok by (simp add: answered_ok_def ends_def body_error_def)
next
  case (elsewhere d S)
  then show ?case by (simp add: arena_ok_def keys_booked_def exclusive_def db_keys_def answered_ok_def)
qed

interpretation contention: stable contend "arena_ok old" for old
  by unfold_locales (rule contend_ok)

section \<open>Exactly once\<close>

definition fresh_arena :: "arena \<Rightarrow> bool" where
  "fresh_arena S \<longleftrightarrow> distinct (map kk (idempotency_keys (ar_db S))) \<and> (\<forall>r\<in>set (idempotency_keys (ar_db S)). \<exists>h dto. settled r h dto) \<and> ar_booked S = [] \<and>
     (\<forall>i. at_phase (ar_attempt S i) = Begun \<and> at_own (ar_attempt S i) = [])"

lemma fresh_arena_ok: "fresh_arena S \<Longrightarrow> arena_ok (set (idempotency_keys (ar_db S))) S"
  by (simp add: fresh_arena_def arena_ok_def keys_booked_def exclusive_def own_ok_def answered_ok_def own_keys_def)

text \<open>Under these rules a look-up never finds a key without a response, so that \<open>ErrIdempotencyInFlight\<close>, which docs/SEQUENCES.md
  and the comment of \<open>claimIdempotency\<close> foresee, is not given.\<close>

lemma never_in_flight:
  assumes "fresh_arena S" and "reaches contend S T"
  shows "at_phase (ar_attempt T i) \<noteq> Ended (Inl ErrIdempotencyInFlight)"
  using arena_okD(3) [OF contention.reaches_inv [OF assms(2) fresh_arena_ok [OF assms(1)]], of i] by (simp add: answered_ok_def)

text \<open>C9. Concurrent requests with one key book once. Any number of attempts run at the same moment, their statements interleave in any
  order, and any of them may fail or lose its answer at any point. For a key that was free at the start, at most one transaction is
  committed; every attempt that succeeds returns the response of that transaction and was sent with the request
  hash of that transaction.\<close>

theorem concurrent_attempts_book_once:
  assumes "fresh_arena S" and "(uid, key) \<notin> db_keys (ar_db S)" and "reaches contend S T"
  shows "length (filter (\<lambda>x. booked_key x = (uid, key)) (ar_booked T)) \<le> 1 \<and>
    (\<forall>i dto. at_phase (ar_attempt T i) = Ended (Inr dto) \<and> at_uid (ar_attempt T i) = uid \<and> at_key (ar_attempt T i) = key \<longrightarrow>
       (uid, key, at_hash (ar_attempt T i), dto) \<in> set (ar_booked T))"
proof -
  let ?old = "set (idempotency_keys (ar_db S))" and ?keys = "idempotency_keys (ar_db T)"
  have ok: "arena_ok ?old T" using contention.reaches_inv [OF assms(3) fresh_arena_ok [OF assms(1)]] .
  note kb = arena_okD(1) [OF ok, unfolded keys_booked_def]
  have m: "map booked_key (ar_booked T) = map kk (filter (\<lambda>k. k \<notin> ?old) ?keys)" using kb by blast
  then have "distinct (map booked_key (ar_booked T))" using kb by (simp add: distinct_map_filter)
  then have "length (filter (\<lambda>x. booked_key x = (uid, key)) (ar_booked T)) \<le> 1" by (rule filter_key_once)
  moreover have "(uid, key, at_hash (ar_attempt T i), dto) \<in> set (ar_booked T)"
    if e: "at_phase (ar_attempt T i) = Ended (Inr dto)" "at_uid (ar_attempt T i) = uid" "at_key (ar_attempt T i) = key" for i dto
  proof -
    obtain r where r: "r \<in> set ?keys" "kk r = (uid, key)" "settled r (at_hash (ar_attempt T i)) dto"
      using arena_okD(3) [OF ok, of i] e by (auto simp: answered_ok_def)
    have "r \<notin> ?old" using assms(2) r(2) by (metis db_keys_def image_eqI)
    then have "(uid, key) \<in> set (map booked_key (ar_booked T))" unfolding m using r by (auto intro: rev_image_eqI)
    then obtain h d where b: "(uid, key, h, d) \<in> set (ar_booked T)" by auto
    then obtain r' where r': "r' \<in> set ?keys" "kk r' = (uid, key)" "settled r' h d" using kb by fastforce
    have "distinct (map kk ?keys)" using kb by blast
    then have "r' = r" using distinct_map_eqD [of kk ?keys r' r] r r' by simp
    then show ?thesis using settled_unique r(3) r'(3) b by metis
  qed
  ultimately show ?thesis by blast
qed

text \<open>Two attempts with one key: the second meets the claim of the first, waits until it is committed, and is answered with its response.\<close>

definition sample_dto :: transaction_dto where
  "sample_dto = \<lparr>td_ID = 1, td_UserID = 1, td_Currency = ''USD'', td_OccurredAt = \<lparr>unix_ns = 0, zone_off = 0\<rparr>, td_Note = [],
     td_ReversalOf = 0, td_Postings = [\<lparr>pd_ID = 1, pd_AccountID = 1, pd_AmountMinor = 500\<rparr>, \<lparr>pd_ID = 2, pd_AccountID = 4, pd_AmountMinor = - 500\<rparr>],
     td_CreatedAt = \<lparr>unix_ns = 0, zone_off = 0\<rparr>\<rparr>"

definition duel0 :: arena where
  "duel0 = \<lparr>ar_db = sample_db, ar_attempt = (\<lambda>i. \<lparr>at_uid = 1, at_key = ''k'', at_hash = ''h'', at_own = [], at_phase = Begun\<rparr>), ar_booked = []\<rparr>"

definition duel1 :: arena where
  "duel1 = put 0 (insert_key 3 (ar_db duel0) (ar_attempt duel0 0)) duel0"

definition duel2 :: arena where
  "duel2 = put 0 (store_response 4 (ar_db duel1) sample_dto (the (dto_json sample_dto)) (ar_attempt duel1 0)) duel1"

definition duel3 :: arena where
  "duel3 = (let a = ar_attempt duel2 0
     in put 0 (ends a (Inr sample_dto)) (duel2\<lparr>ar_db := own_view (ar_db duel2) a,
          ar_booked := ar_booked duel2 @ [(at_uid a, at_key a, at_hash a, sample_dto)]\<rparr>))"

definition duel4 :: arena where
  "duel4 = put 1 (insert_key 5 (ar_db duel3) (ar_attempt duel3 1)) duel3"

definition duel5 :: arena where
  "duel5 = put 1 (look_up 6 (ar_db duel4) (ar_attempt duel4 1)) duel4"

lemma duel_values:
  "let S = duel5 in ar_booked S = [(1, ''k'', ''h'', sample_dto)] \<and> at_phase (ar_attempt S 1) = Ended (Inr sample_dto) \<and>
     at_uid (ar_attempt S 1) = 1 \<and> at_key (ar_attempt S 1) = ''k'' \<and> at_hash (ar_attempt S 1) = ''h''"
  "at_phase (ar_attempt duel1 0) = Claimed" "at_phase (ar_attempt duel2 0) = Marked sample_dto"
  "at_phase (ar_attempt duel4 1) = Looking"
  by code_simp+

lemma sample_dto_json: "dto_json sample_dto = Some (the (dto_json sample_dto))" "dto_of_json (the (dto_json sample_dto)) = Some sample_dto"
  by code_simp+

lemma duel_run: "reaches contend duel0 duel5"
proof -
  have 1: "contend duel0 duel1" unfolding duel1_def by (rule contend.claim [OF refl]) (simp_all add: duel0_def holds_def)
  have 2: "contend duel1 duel2" unfolding duel2_def by (rule contend.mark [OF refl duel_values(2) sample_dto_json])
  have 3: "contend duel2 duel3" unfolding duel3_def Let_def by (rule contend.commit [OF refl duel_values(3)]) simp
  have own: "at_own (ar_attempt duel3 j) = []" for j
    by (simp add: duel3_def duel2_def duel1_def duel0_def put_def ends_def Let_def)
  have "at_phase (ar_attempt duel3 1) = Begun" "at_key (ar_attempt duel3 1) \<noteq> []"
    by (simp_all add: duel3_def duel2_def duel1_def duel0_def put_def Let_def)
  from contend.claim [OF refl this] have 4: "contend duel3 duel4" unfolding duel4_def by (simp add: holds_def own)
  have 5: "contend duel4 duel5" unfolding duel5_def by (rule contend.look [OF refl duel_values(4)])
  note reaches_one [of contend, OF 1]
  note reaches.onward [OF this 2]
  note reaches.onward [OF this 3]
  note reaches.onward [OF this 4]
  from reaches.onward [OF this 5] show ?thesis .
qed

theorem concurrent_attempts_book_once_witness:
  "at_phase (ar_attempt duel5 1) = Ended (Inr sample_dto) \<and> (1, ''k'', ''h'', sample_dto) \<in> set (ar_booked duel5) \<and>
   length (filter (\<lambda>x. booked_key x = (1, ''k'')) (ar_booked duel5)) \<le> 1"
proof -
  have k: "idempotency_keys (ar_db duel0) = []" by (simp add: duel0_def sample_db_def empty_db_def)
  then have "fresh_arena duel0" by (simp add: fresh_arena_def) (simp add: duel0_def)
  moreover have "(1, ''k'') \<notin> db_keys (ar_db duel0)" by (simp add: db_keys_def k)
  moreover have "at_phase (ar_attempt duel5 1) = Ended (Inr sample_dto)" "at_uid (ar_attempt duel5 1) = 1"
    "at_key (ar_attempt duel5 1) = ''k''" "at_hash (ar_attempt duel5 1) = ''h''" using duel_values(1) by (simp_all add: Let_def)
  ultimately show ?thesis using concurrent_attempts_book_once [OF _ _ duel_run, of 1 "''k''"] by metis
qed

end
