(* ===== verification/Paging.thy ===== *)
theory Paging
  imports Entries
begin

text \<open>
  Reading the history of an account page by page while transactions are being recorded: every page is answered by a later state of
  the database.
\<close>

section \<open>One world per page\<close>

fun read_across :: "env \<Rightarrow> request \<Rightarrow> string \<Rightarrow> world list \<Rightarrow> json list option" where
  "read_across E rq c [] = None"
| "read_across E rq c (w # ws) =
     (case fst (ListAccountEntries_handler E (at_cursor rq c) w) of
        Reply code (Doc j) \<Rightarrow>
          (case (jfield ''entries'' j, jfield ''next_cursor'' j) of
             (Some (JArr es), Some (JStr nxt)) \<Rightarrow>
               if code \<noteq> 200 then None
               else if nxt = [] then Some es
               else map_option ((@) es) (read_across E rq nxt ws)
           | _ \<Rightarrow> None)
      | _ \<Rightarrow> None)"

definition appended :: "database \<Rightarrow> database \<Rightarrow> bool" where
  "appended d d' \<longleftrightarrow> (\<exists>ts ps. transactions d' = transactions d @ ts \<and> postings d' = postings d @ ps)"

lemma appended_joined: "appended d d' \<Longrightarrow> set (joined d) \<subseteq> set (joined d')"
  by (auto simp: appended_def joined_def)

lemma appended_entries: "appended d d' \<Longrightarrow> set (account_entries aid d) \<subseteq> set (account_entries aid d')"
  unfolding account_entries_def using appended_joined [of d d'] by auto

text \<open>A world that can serve a page: no faults, the account is the user's, the ledger is consistent.\<close>

definition serves :: "env \<Rightarrow> request \<Rightarrow> int \<Rightarrow> world \<Rightarrow> bool" where
  "serves E rq aid w \<longleftrightarrow> healthy w \<and> owns rq aid (db w) \<and> ledger_ok (db w) \<and> (\<forall>r\<in>set (account_entries aid (db w)). showable E r)"

section \<open>One page and the rest\<close>

lemma length_filter_drops:
  assumes "\<And>x. x \<in> set xs \<Longrightarrow> Q x \<Longrightarrow> P x" and "e \<in> set xs" "P e" "\<not> Q e"
  shows "length (filter Q xs) < length (filter P xs)"
proof -
  obtain ys zs where x: "xs = ys @ e # zs" using assms(2) by (metis split_list)
  have "length (filter Q us) \<le> length (filter P us)" if "set us \<subseteq> set xs" for us
    using that assms(1) by (induction us) auto
  then have "length (filter Q ys) \<le> length (filter P ys)" "length (filter Q zs) \<le> length (filter P zs)" using x by auto
  then show ?thesis using assms(3,4) x by simp
qed

lemma sorted_wrt_take_last:
  assumes "sorted_wrt R xs" and "x \<in> set (take n xs)" and "x \<noteq> last (take n xs)"
  shows "R x (last (take n xs))"
proof -
  let ?ys = "take n xs"
  have "sorted_wrt R ?ys" using assms(1) by (rule sorted_wrt_take)
  moreover have "?ys = butlast ?ys @ [last ?ys]" using assms(2) by (metis append_butlast_last_id empty_iff list.set(1))
  ultimately have "\<forall>y\<in>set (butlast ?ys). R y (last ?ys)" by (metis sorted_wrt_append list.set_intros(1))
  moreover have "x \<in> set (butlast ?ys)" using assms(2,3) \<open>?ys = _\<close> by (metis Un_iff empty_iff insert_iff list.set set_append)
  ultimately show ?thesis by blast
qed

lemma sorted_wrt_drop_last:
  assumes "sorted_wrt R xs" and "take n xs \<noteq> []" and "x \<in> set (drop n xs)"
  shows "R (last (take n xs)) x"
  using assms sorted_wrt_append [of R "take n xs" "drop n xs"] by simp

text \<open>A page, and what a client reads after it.\<close>

lemma page_and_rest:
  assumes "sorted_wrt newer F" and "take m F \<noteq> []" and "sorted_wrt newer rest" and "\<forall>x\<in>set rest. newer (last (take m F)) x"
    and "\<And>x. x \<in> set F \<Longrightarrow> newer (last (take m F)) x \<Longrightarrow> x \<in> set rest"
  shows "sorted_wrt newer (take m F @ rest) \<and> set F \<subseteq> set (take m F @ rest)"
proof
  have "newer a x" if "a \<in> set (take m F)" "x \<in> set rest" for a x
    using sorted_wrt_take_last [OF assms(1) that(1)] that(2) assms(4) newer_trans by blast
  then show "sorted_wrt newer (take m F @ rest)" using assms(3) sorted_wrt_take [OF assms(1)] by (simp add: sorted_wrt_append)
  have "x \<in> set (take m F) \<or> x \<in> set (drop m F)" if "x \<in> set F" for x
    using that by (metis append_take_drop_id Un_iff set_append)
  then show "set F \<subseteq> set (take m F @ rest)"
    using sorted_wrt_drop_last [OF assms(1,2)] assms(5) by (auto dest: in_set_dropD)
qed

text \<open>The rows of the pages from a cursor on, each taken from the entries there are by then.\<close>

fun pages :: "nat \<Rightarrow> (entry_row \<Rightarrow> bool) \<Rightarrow> entry_row list list \<Rightarrow> entry_row list option" where
  "pages m B [] = None"
| "pages m B (X # Xs) =
     (let rows = take m (newest_first (filter B X))
      in if length rows < m then Some rows else map_option ((@) rows) (pages m (newer (last rows)) Xs))"

lemma pages_complete:
  assumes "\<forall>X\<in>set (X # Xs). distinct (map en_posting_id X)" and "sorted_wrt (\<lambda>X Y. set X \<subseteq> set Y) (X # Xs)" and "0 < m"
    and "\<And>a b. B a \<Longrightarrow> newer a b \<Longrightarrow> B b" and "length (filter B (last (X # Xs))) < length (X # Xs)"
  shows "\<exists>rows. pages m B (X # Xs) = Some rows \<and> sorted_wrt newer rows \<and>
    {r \<in> set X. B r} \<subseteq> set rows \<and> set rows \<subseteq> {r \<in> set (last (X # Xs)). B r}"
  using assms
proof (induction Xs arbitrary: X B)
  case Nil
  then have "filter B X = []" by simp
  then show ?case using Nil.prems(3) by (auto simp: newest_first_def filter_empty_conv)
next
  case (Cons Y Xs)
  let ?F = "newest_first (filter B X)" and ?Z = "last (Y # Xs)"
  let ?rows = "take m ?F"
  have srt: "sorted_wrt newer ?F" using Cons.prems(1) by (intro newest_first_newer distinct_map_filter) simp
  have "?Z \<in> set (Y # Xs)" by (rule last_in_set) simp
  then have grow: "set X \<subseteq> set Y" "set X \<subseteq> set ?Z" using Cons.prems(2) by auto
  have in_X: "r \<in> set X \<and> B r" if "r \<in> set ?rows" for r using in_set_takeD [OF that] by simp
  show ?case
  proof (cases "length ?rows < m")
    case True
    then have "pages m B (X # Y # Xs) = Some ?rows" by (simp del: length_take add: Let_def)
    moreover have "?rows = ?F" using True by simp
    ultimately show ?thesis using srt grow(2) by auto
  next
    case False
    let ?e = "last ?rows"
    have ne: "?rows \<noteq> []" using False Cons.prems(3) by (metis list.size(3))
    then have e: "?e \<in> set X" "B ?e" using in_X last_in_set by blast+
    have "length (filter (newer ?e) ?Z) < length (filter B ?Z)"
      using e grow(2) Cons.prems(4) newer_irrefl by (intro length_filter_drops [of _ _ _ ?e]) blast+
    then have "length (filter (newer ?e) ?Z) < length (Y # Xs)" using Cons.prems(5) by simp
    have "\<exists>rest. pages m (newer ?e) (Y # Xs) = Some rest \<and> sorted_wrt newer rest \<and>
      {x \<in> set Y. newer ?e x} \<subseteq> set rest \<and> set rest \<subseteq> {x \<in> set ?Z. newer ?e x}"
      by (rule Cons.IH [OF _ _ Cons.prems(3) _ \<open>length (filter (newer ?e) ?Z) < length (Y # Xs)\<close>])
        (use Cons.prems(1,2) in \<open>auto intro: newer_trans\<close>)
    then obtain rest where r: "pages m (newer ?e) (Y # Xs) = Some rest" "sorted_wrt newer rest"
      "{x \<in> set Y. newer ?e x} \<subseteq> set rest" "set rest \<subseteq> {x \<in> set ?Z. newer ?e x}" by blast
    have 1: "sorted_wrt newer (?rows @ rest) \<and> set ?F \<subseteq> set (?rows @ rest)"
      by (rule page_and_rest [OF srt ne r(2)]) (use r(3,4) grow(1) in auto)
    have "set rest \<subseteq> {x \<in> set ?Z. B x}" using r(4) e(2) Cons.prems(4) by blast
    then have 3: "set (?rows @ rest) \<subseteq> {x \<in> set ?Z. B x}" unfolding set_append using in_X grow(2) by blast
    have "pages m B (X # Y # Xs) = Some (?rows @ rest)" using False r(1) by (simp add: Let_def)
    then show ?thesis using 1 3 by (intro exI [of _ "?rows @ rest"]) auto
  qed
qed

text \<open>The handler computes these pages.\<close>

lemma read_across_pages:
  assumes "\<forall>w\<in>set ws. serves E rq aid w" and "0 < page_limit rq" and "decodeCursor c = Some (t, i)"
  shows "read_across E rq c ws =
    map_option (map (shown E)) (pages (nat (page_limit rq)) (before_cursor (pg_time t) i) (map (account_entries aid \<circ> db) ws))"
  using assms
proof (induction ws arbitrary: c t i)
  case (Cons w ws)
  let ?m = "nat (page_limit rq)"
  let ?rows = "take ?m (newest_first (filter (before_cursor (pg_time t) i) (account_entries aid (db w))))"
  have ws: "\<forall>w\<in>set ws. serves E rq aid w" using Cons.prems(1) by simp
  have w: "healthy w" "owns rq aid (db w)" using Cons.prems(1) by (simp_all add: serves_def)
  have sh: "\<forall>r\<in>set ?rows. showable E r" using Cons.prems(1) by (auto simp: serves_def dest!: in_set_takeD)
  note page = handler_page [OF w Cons.prems(3) refl _ sh]
  show ?case
  proof (cases "length ?rows < ?m")
    case True
    then have "next_cursor E (page_limit rq) ?rows = Some []" using Cons.prems(2) by (auto simp: next_cursor_def)
    from page [OF this] show ?thesis using True by (simp del: length_take add: Let_def)
  next
    case False
    let ?e = "last ?rows"
    let ?nxt = "encodeCursor (go_time E (en_occurred_at ?e)) (en_posting_id ?e)"
    have len: "length ?rows = ?m" using False by simp
    then have ne: "?rows \<noteq> []" using Cons.prems(2) by (metis list.size(3) zero_less_nat_eq less_irrefl)
    then have e: "showable E ?e" using sh last_in_set by blast
    have nc: "next_cursor E (page_limit rq) ?rows = Some ?nxt" using len ne Cons.prems(2) by (simp add: next_cursor_def)
    have d: "decodeCursor ?nxt = Some (UTC (go_time E (en_occurred_at ?e)), en_posting_id ?e)"
      using e by (intro cursor_roundtrip) (auto simp: showable_def)
    have nz: "?nxt \<noteq> []" by (simp add: encodeCursor_def b64_encode_Nil)
    have b: "before_cursor (pg_time (UTC (go_time E (en_occurred_at ?e)))) (en_posting_id ?e) = newer ?e"
      by (simp add: pg_time_def go_time_def UTC_def newer_eq)
    have "read_across E rq ?nxt ws = map_option (map (shown E)) (pages ?m (newer ?e) (map (account_entries aid \<circ> db) ws))"
      by (rule Cons.IH [OF ws Cons.prems(2) d, unfolded b])
    then show ?thesis using page [OF nc] nz False
      by (simp del: length_take add: Let_def option.map_comp o_def)
  qed
qed simp

text \<open>C17. Paging is safe while transactions are being recorded. When every page is answered by a later state of the database, in which
  transactions were only added, then a client that follows the cursors, given as many requests as there are entries in the end, and one
  more, finishes; of the entries that lie before the sentinel cursor of the first page (dated before 9999-01-01 00:00 UTC) it sees every
  one that was there at the first page, no entry twice, newest first, and nothing that is not an entry of the account in the end.
  Entries dated later, which the service accepts, are on no page.\<close>

theorem paging_under_writes:
  assumes "\<forall>w\<in>set (w # ws). serves E rq aid w" and "sorted_wrt (\<lambda>v w. appended (db v) (db w)) (w # ws)" and "0 < page_limit rq"
    and "length (history aid (db (last (w # ws)))) < length (w # ws)"
  shows "\<exists>rows. read_across E rq [] (w # ws) = Some (map (shown E) rows) \<and> sorted_wrt newer rows \<and>
    {r \<in> set (account_entries aid (db w)). before_cursor 253370764800000000 MaxInt64 r} \<subseteq> set rows \<and>
    set rows \<subseteq> {r \<in> set (account_entries aid (db (last (w # ws)))). before_cursor 253370764800000000 MaxInt64 r}"
proof -
  let ?t = "time_Date 9999 1 1 0 0 0 0 0" and ?ents = "account_entries aid \<circ> db"
  let ?B = "before_cursor (pg_time ?t) MaxInt64"
  have d: "decodeCursor [] = Some (?t, MaxInt64)" by (simp add: decodeCursor_def)
  have t: "pg_time ?t = 253370764800000000" by code_simp
  have h: "set (history aid e) = {r \<in> set (account_entries aid e). ?B r}" "length (history aid e) = length (filter ?B (account_entries aid e))"
    for e by (auto simp: history_def)
  have l: "last (map ?ents (w # ws)) = account_entries aid (db (last (w # ws)))" by (subst last_map) simp_all
  have "\<exists>rows. pages (nat (page_limit rq)) ?B (?ents w # map ?ents ws) = Some rows \<and> sorted_wrt newer rows \<and>
      {r \<in> set (?ents w). ?B r} \<subseteq> set rows \<and> set rows \<subseteq> {r \<in> set (last (?ents w # map ?ents ws)). ?B r}"
  proof (rule pages_complete)
    show "\<forall>X\<in>set (?ents w # map ?ents ws). distinct (map en_posting_id X)"
      using assms(1) by (auto simp: serves_def ledger_ok_def intro: distinct_account_entries)
    have "sorted_wrt (\<lambda>X Y. set X \<subseteq> set Y) (map ?ents (w # ws))" unfolding sorted_wrt_map
      by (rule sorted_wrt_mono_rel [OF _ assms(2)]) (simp add: appended_entries)
    then show "sorted_wrt (\<lambda>X Y. set X \<subseteq> set Y) (?ents w # map ?ents ws)" by simp
    show "length (filter ?B (last (?ents w # map ?ents ws))) < length (?ents w # map ?ents ws)"
      using assms(4) l by (simp only: h list.map length_map list.size)
  qed (use assms(3) newer_before in auto)
  then show ?thesis using read_across_pages [OF assms(1,3) d] l unfolding t by (auto simp only: list.map comp_apply option.map)
qed

lemma appendedI:
  "take (length (transactions d)) (transactions d') = transactions d \<Longrightarrow> take (length (postings d)) (postings d') = postings d \<Longrightarrow>
     appended d d'"
  unfolding appended_def by (metis append_take_drop_id)

text \<open>The first page of one row is read before a transfer is recorded, the rest after it.\<close>

theorem paging_under_writes_witness:
  "\<exists>rows. read_across sample_env sample_request [] [sample_world2, sample_world3, sample_world3] = Some (map (shown sample_env) rows) \<and>
     sorted_wrt newer rows \<and>
     {r \<in> set (account_entries 1 (db sample_world2)). before_cursor 253370764800000000 MaxInt64 r} \<subseteq> set rows \<and>
     set rows \<subseteq> {r \<in> set (account_entries 1 (db sample_world3)). before_cursor 253370764800000000 MaxInt64 r}"
proof -
  have "serves sample_env sample_request 1 sample_world2" "serves sample_env sample_request 1 sample_world3" by code_simp+
  then have s: "\<forall>w\<in>set [sample_world2, sample_world3, sample_world3]. serves sample_env sample_request 1 w" by simp
  have "appended (db sample_world2) (db sample_world3)" by (rule appendedI) code_simp+
  moreover have "appended (db sample_world3) (db sample_world3)" by (rule appendedI) simp_all
  ultimately have a: "sorted_wrt (\<lambda>v w. appended (db v) (db w)) [sample_world2, sample_world3, sample_world3]" by simp
  have p: "0 < page_limit sample_request" by code_simp
  have l: "length (history 1 (db (last [sample_world2, sample_world3, sample_world3]))) < length [sample_world2, sample_world3, sample_world3]"
    by code_simp
  from paging_under_writes [OF s a p l] show ?thesis by simp
qed

end
