(* ===== verification/Tasks.thy ===== *)
theory Tasks
  imports System
begin

text \<open>
  Tasks on the queue (internal/worker/jobs.go): a type and a JSON payload. The worker's mux chooses the handler by the type and the
  handler decodes the payload; for the tasks that the program itself enqueues this gives back the task.
\<close>

section \<open>Messages\<close>

type_synonym queued = "string \<times> json"

fun new_task :: "task \<Rightarrow> queued" where
  "new_task (SnapshotAll date) = (''snapshot:all'', JObj [(''date'', JStr date)])"
| "new_task (SnapshotAccount p) =
     (''snapshot:account'', JObj [(''account_id'', JNum (sp_AccountID p)), (''date'', JStr (sp_Date p))])"
| "new_task (ExportCSV p) =
     (''export:csv'', JObj [(''export_id'', JNum (xp_ExportID p)), (''user_id'', JNum (xp_UserID p)), (''month'', JStr (xp_Month p))])"

text \<open>\<open>json.Unmarshal\<close> of the three payloads.\<close>

definition decode_SnapshotAll :: "json \<Rightarrow> task option" where
  "decode_SnapshotAll j =
     Option.bind (fields_of j) (\<lambda>fs. map_option SnapshotAll (decode_field [] str_of_json ''date'' fs))"

definition decode_SnapshotAccount :: "json \<Rightarrow> task option" where
  "decode_SnapshotAccount j =
     Option.bind (fields_of j) (\<lambda>fs.
     Option.bind (decode_field 0 id_of_json ''account_id'' fs) (\<lambda>a.
     map_option (\<lambda>d. SnapshotAccount \<lparr>sp_AccountID = a, sp_Date = d\<rparr>) (decode_field [] str_of_json ''date'' fs)))"

definition decode_ExportCSV :: "json \<Rightarrow> task option" where
  "decode_ExportCSV j =
     Option.bind (fields_of j) (\<lambda>fs.
     Option.bind (decode_field 0 id_of_json ''export_id'' fs) (\<lambda>e.
     Option.bind (decode_field 0 id_of_json ''user_id'' fs) (\<lambda>u.
     map_option (\<lambda>m. ExportCSV \<lparr>xp_ExportID = e, xp_UserID = u, xp_Month = m\<rparr>) (decode_field [] str_of_json ''month'' fs))))"

definition mux :: "queued \<Rightarrow> task option" where
  "mux msg =
     (case msg of (ty, payload) \<Rightarrow>
        if ty = ''snapshot:all'' then decode_SnapshotAll payload
        else if ty = ''snapshot:account'' then decode_SnapshotAccount payload
        else if ty = ''export:csv'' then decode_ExportCSV payload
        else None)"

text \<open>A message that cannot be decoded is an error of its handler and changes nothing.\<close>

definition process_message :: "config \<Rightarrow> string \<Rightarrow> queued \<Rightarrow> world \<Rightarrow> disk \<Rightarrow> queued list \<times> world \<times> disk" where
  "process_message C dir msg w d =
     (case mux msg of
        None \<Rightarrow> ([], w, d)
      | Some t \<Rightarrow> (case perform C dir t w d of (ts, w1, d1) \<Rightarrow> (map new_task ts, w1, d1)))"

section \<open>The queue carries tasks\<close>

text \<open>Ids are 64 bit integers.\<close>

fun task_ids_ok :: "task \<Rightarrow> bool" where
  "task_ids_ok (SnapshotAll date) = True"
| "task_ids_ok (SnapshotAccount p) = in_int64 (sp_AccountID p)"
| "task_ids_ok (ExportCSV p) = (in_int64 (xp_ExportID p) \<and> in_int64 (xp_UserID p))"

lemma payload_fields:
  "\<not> EqualFold ''account_id'' ''date''" "\<not> EqualFold ''date'' ''account_id''" "\<not> EqualFold ''export_id'' ''user_id''"
  "\<not> EqualFold ''user_id'' ''export_id''" "\<not> EqualFold ''export_id'' ''month''" "\<not> EqualFold ''user_id'' ''month''"
  "\<not> EqualFold ''month'' ''export_id''" "\<not> EqualFold ''month'' ''user_id''"
  by code_simp+

lemma EqualFold_refl [simp]: "EqualFold s s"
  by (simp add: EqualFold_def)

lemma mux_new_task: "task_ids_ok t \<Longrightarrow> mux (new_task t) = Some t"
  by (cases t) (simp_all add: mux_def decode_SnapshotAll_def decode_SnapshotAccount_def decode_ExportCSV_def payload_fields
      id_of_json_def in_int64_def)

interpretation task_queue: codec new_task mux task_ids_ok
  by unfold_locales (rule mux_new_task)

text \<open>What the worker does with a message of the program is what \<open>perform\<close> does with its task.\<close>

lemma process_new_task:
  "task_ids_ok t \<Longrightarrow> process_message C dir (new_task t) w d = (case perform C dir t w d of (ts, w1, d1) \<Rightarrow> (map new_task ts, w1, d1))"
  by (simp add: process_message_def task_queue.dec_enc)

end
