(* ===== verification/Observability.thy ===== *)
theory Observability
  imports Routes "HOL-Library.Multiset"
begin

text \<open>
  The metrics of internal/observability: the HTTP middleware of metrics.go and the query tracer of dbmetrics.go, on counters and
  histograms given as multisets of label values. Prometheus itself is not modelled: \<open>Inc\<close> and \<open>Observe\<close> add one element.
\<close>

section \<open>Metrics\<close>

text \<open>The four vectors; an observation of a histogram is its labels and a duration in nanoseconds.\<close>

record metrics =
  httpRequestsTotal :: "(string \<times> string \<times> string) multiset"
  httpRequestDuration :: "((string \<times> string) \<times> int) multiset"
  dbQueryTotal :: "(string \<times> string \<times> string) multiset"
  dbQueryDuration :: "((string \<times> string) \<times> int) multiset"

definition no_metrics :: metrics where
  "no_metrics = \<lparr>httpRequestsTotal = {#}, httpRequestDuration = {#}, dbQueryTotal = {#}, dbQueryDuration = {#}\<rparr>"

text \<open>\<open>MustLogger\<close> (logging.go) chooses zap's configuration; the error of the constructor is dropped.\<close>

datatype logger = NewDevelopment | NewProduction

definition MustLogger :: "string \<Rightarrow> logger" where
  "MustLogger env = (if env = ''dev'' then NewDevelopment else NewProduction)"

section \<open>Requests\<close>

text \<open>What the middleware does after the handler returned: \<open>pattern\<close> is chi's route pattern by then, \<open>elapsed\<close> the time since the
  start. A handler that panics never returns to it.\<close>

definition observe_request :: "string \<Rightarrow> string \<Rightarrow> int \<Rightarrow> reply \<Rightarrow> metrics \<Rightarrow> metrics" where
  "observe_request meth pattern elapsed rep m =
     (case rep of
        Panic \<Rightarrow> m
      | Reply code _ \<Rightarrow>
          let route = (if pattern = [] then ''unknown'' else pattern)
          in m\<lparr>httpRequestsTotal := add_mset (meth, route, fmt_int code) (httpRequestsTotal m),
               httpRequestDuration := add_mset ((meth, route), elapsed) (httpRequestDuration m)\<rparr>)"

text \<open>A request with the middleware in its place: behind the cross-origin layer of \<open>NewRouter\<close>, in front of the layers of the groups.\<close>

definition respond_observed :: "config \<Rightarrow> layer \<times> route \<Rightarrow> string \<Rightarrow> int \<Rightarrow> scene \<Rightarrow> request \<Rightarrow> counters \<Rightarrow> world \<Rightarrow> metrics \<Rightarrow>
    (headers \<times> effect \<times> counters) \<times> metrics" where
  "respond_observed C r pattern elapsed sc rq s w m =
     (case r of (l, meth, path, e) \<Rightarrow>
        CORSMiddleware (cf_environ C ''CORS_ALLOWED_ORIGINS'') (\<lambda>hs rep. ((hs, answered rep w, s), m))
          (\<lambda>hs. case chain C l e sc (rq\<lparr>rq_user := None\<rparr>) s w of (hs1, x, s1) \<Rightarrow>
                  ((hs @ hs1, x, s1), observe_request meth pattern elapsed (fst x) m)) meth rq)"

section \<open>Queries\<close>

text \<open>\<open>opOf\<close>; the hash of \<open>hashSQL\<close> (the first eight bytes of SHA-1, in hexadecimal) is a parameter. Statements are ASCII text.\<close>

definition to_upper :: "char \<Rightarrow> char" where
  "to_upper c = (if 97 \<le> (of_char c :: nat) \<and> (of_char c :: nat) \<le> 122 then char_of ((of_char c :: nat) - 32) else c)"

definition ToUpper :: "string \<Rightarrow> string" where
  "ToUpper = map to_upper"

definition opOf :: "string \<Rightarrow> string" where
  "opOf sql0 =
     (let sql = TrimSpace sql0
      in if sql = [] then ''OTHER''
         else let up = ToUpper sql
              in if HasPrefix up ''SELECT'' then ''SELECT''
                 else if HasPrefix up ''INSERT'' then ''INSERT''
                 else if HasPrefix up ''UPDATE'' then ''UPDATE''
                 else if HasPrefix up ''DELETE'' then ''DELETE''
                 else ''OTHER'')"

text \<open>The value that the tracer puts into the context of a query, and the end of the query with that context. A context without
  the value gives the zero span, whose start is the zero time.\<close>

record spanData =
  sp_start :: gtime
  sp_op :: string
  sp_sqlh :: string

definition TraceQueryStart :: "(string \<Rightarrow> string) \<Rightarrow> gtime \<Rightarrow> string \<Rightarrow> spanData option" where
  "TraceQueryStart hashSQL now sql = Some \<lparr>sp_start = now, sp_op = opOf sql, sp_sqlh = hashSQL sql\<rparr>"

definition TraceQueryEnd :: "spanData option \<Rightarrow> gtime \<Rightarrow> bool \<Rightarrow> metrics \<Rightarrow> metrics" where
  "TraceQueryEnd ctx now failed m =
     (case ctx of
        None \<Rightarrow> m
      | Some s \<Rightarrow>
          if IsZero (sp_start s) then m
          else m\<lparr>dbQueryDuration := add_mset ((sp_op s, sp_sqlh s), unix_ns now - unix_ns (sp_start s)) (dbQueryDuration m),
                 dbQueryTotal := add_mset (sp_op s, sp_sqlh s, if failed then ''error'' else ''ok'') (dbQueryTotal m)\<rparr>)"

text \<open>One traced statement of pgx: when it starts, when it ends, and whether with an error.\<close>

record query_run =
  qr_sql :: string
  qr_begin :: gtime
  qr_over :: gtime
  qr_failed :: bool

definition trace_query :: "(string \<Rightarrow> string) \<Rightarrow> query_run \<Rightarrow> metrics \<Rightarrow> metrics" where
  "trace_query hashSQL q = TraceQueryEnd (TraceQueryStart hashSQL (qr_begin q) (qr_sql q)) (qr_over q) (qr_failed q)"

section \<open>What the program sends\<close>

text \<open>A statement as sqlc writes it into the Go source: a comment line with its name and command, then the SQL. Four of them,
  and the two statements of the outbox worker, which are written in its code.\<close>

definition sqlc_text :: "string \<Rightarrow> string \<Rightarrow> string \<Rightarrow> string" where
  "sqlc_text name cmd body = ''-- name: '' @ name @ '' :'' @ cmd @ [CHR 0x0A] @ body"

definition deactivateAccount_sql :: string where
  "deactivateAccount_sql = sqlc_text ''DeactivateAccount'' ''exec'' (''UPDATE accounts SET is_active = FALSE WHERE id = $1'' @ [CHR 0x0A])"

definition getExportByID_sql :: string where
  "getExportByID_sql = sqlc_text ''GetExportByID'' ''one''
     (''SELECT id, user_id, month, status, file_path, created_at, updated_at FROM exports WHERE id = $1'' @ [CHR 0x0A])"

definition listAllAccountIDs_sql :: string where
  "listAllAccountIDs_sql = sqlc_text ''ListAllAccountIDs'' ''many''
     (''SELECT id FROM accounts WHERE is_active = TRUE ORDER BY id'' @ [CHR 0x0A])"

definition createOutboxEvent_sql :: string where
  "createOutboxEvent_sql = sqlc_text ''CreateOutboxEvent'' ''one''
     (''INSERT INTO outbox (event_type, payload)'' @ [CHR 0x0A] @ ''VALUES ($1, $2)'' @ [CHR 0x0A] @ ''RETURNING id, created_at'' @ [CHR 0x0A])"

definition outbox_claim_sql :: string where
  "outbox_claim_sql =
     concat (map (\<lambda>l. [CHR 0x0A, CHR 0x09, CHR 0x09] @ l)
       [''SELECT id, event_type, payload'', ''FROM outbox'', ''WHERE processed_at IS NULL'', ''ORDER BY created_at'', ''LIMIT 50'',
        ''FOR UPDATE SKIP LOCKED'']) @ [CHR 0x0A, CHR 0x09]"

definition outbox_mark_sql :: string where
  "outbox_mark_sql = ''UPDATE outbox SET processed_at = now() WHERE id = ANY($1)''"

section \<open>Requests are observed and never changed\<close>

lemma respond_observed_transparent:
  "fst (respond_observed C r pattern elapsed sc rq s w m) = respond C r sc rq s w"
  by (auto simp: respond_observed_def respond_def CORSMiddleware_def Let_def split: prod.splits)

text \<open>A request that the cross-origin layer lets through and whose handler returns is counted once, with its status; one
  that panics is not counted at all.\<close>

lemma respond_observed_counts:
  assumes "respond_observed C (l, meth, path, e) pattern elapsed sc rq s w m = ((hs, (rep, ts, w'), s'), m')"
    and "rq_header rq ''Origin'' = [] \<or> meth \<noteq> ''OPTIONS''"
  shows "m' = observe_request meth pattern elapsed rep m"
  using assms by (auto simp: respond_observed_def CORSMiddleware_def Let_def split: prod.splits if_splits)

lemma respond_observed_size:
  assumes "respond_observed C r pattern elapsed sc rq s w m = ((hs, (rep, ts, w'), s'), m')"
  shows "size (httpRequestsTotal m') \<le> Suc (size (httpRequestsTotal m)) \<and> httpRequestsTotal m \<subseteq># httpRequestsTotal m' \<and>
    (rep = Panic \<longrightarrow> m' = m)"
  using assms
  by (auto simp: respond_observed_def CORSMiddleware_def observe_request_def Let_def answered_def split: prod.splits if_splits reply.splits)

text \<open>The two vectors of each kind agree on their common labels, whatever is observed.\<close>

definition metrics_agree :: "metrics \<Rightarrow> bool" where
  "metrics_agree m \<longleftrightarrow>
     image_mset (\<lambda>(meth, route, code). (meth, route)) (httpRequestsTotal m) = image_mset fst (httpRequestDuration m) \<and>
     image_mset (\<lambda>(op, h, st). (op, h)) (dbQueryTotal m) = image_mset fst (dbQueryDuration m)"

lemma no_metrics_agree [simp]: "metrics_agree no_metrics"
  by (simp add: metrics_agree_def no_metrics_def)

lemma observe_request_agree: "metrics_agree m \<Longrightarrow> metrics_agree (observe_request meth pattern elapsed rep m)"
  by (simp add: metrics_agree_def observe_request_def Let_def split: reply.split)

lemma trace_query_agree: "metrics_agree m \<Longrightarrow> metrics_agree (trace_query hashSQL q m)"
  by (simp add: metrics_agree_def trace_query_def TraceQueryStart_def TraceQueryEnd_def)

lemma fold_trace_agree: "metrics_agree m \<Longrightarrow> metrics_agree (fold (trace_query hashSQL) qs m)"
  by (induction qs arbitrary: m) (simp_all add: trace_query_agree)

text \<open>Every traced statement is counted exactly once, under its operation, hash and outcome.\<close>

definition query_labels :: "(string \<Rightarrow> string) \<Rightarrow> query_run \<Rightarrow> string \<times> string \<times> string" where
  "query_labels hashSQL q = (opOf (qr_sql q), hashSQL (qr_sql q), if qr_failed q then ''error'' else ''ok'')"

lemma fold_trace_total:
  "\<forall>q\<in>set qs. \<not> IsZero (qr_begin q) \<Longrightarrow>
     dbQueryTotal (fold (trace_query hashSQL) qs m) = dbQueryTotal m + mset (map (query_labels hashSQL) qs)"
  by (induction qs arbitrary: m) (simp_all add: trace_query_def TraceQueryStart_def TraceQueryEnd_def query_labels_def)

section \<open>The operation label\<close>

lemma TrimSpace_Cons:
  assumes "\<not> is_space c"
  obtains r where "TrimSpace (c # s) = c # r"
proof -
  have "dropWhile is_space (rev s @ [c]) = dropWhile is_space (rev s) @ [c]" using assms
    by (simp add: dropWhile_append dropWhile_eq_Nil_conv)
  then show ?thesis using that assms by (simp add: TrimSpace_def)
qed

lemma opOf_sqlc_text: "opOf (sqlc_text name cmd body) = ''OTHER''"
proof -
  have "\<not> is_space CHR ''-''" by (simp add: is_space_def)
  then obtain r where "TrimSpace (CHR ''-'' # ''- name: '' @ name @ '' :'' @ cmd @ [CHR 0x0A] @ body) = CHR ''-'' # r"
    by (rule TrimSpace_Cons)
  then show ?thesis by (simp add: opOf_def sqlc_text_def ToUpper_def to_upper_def Let_def)
qed

text \<open>The statements written in the outbox worker get the label of their operation; those of sqlc do not.\<close>

lemma opOf_statements:
  "map opOf [deactivateAccount_sql, getExportByID_sql, listAllAccountIDs_sql, createOutboxEvent_sql] = replicate 4 ''OTHER''"
  "map opOf [outbox_claim_sql, outbox_mark_sql] = [''SELECT'', ''UPDATE'']"
proof -
  show "map opOf [outbox_claim_sql, outbox_mark_sql] = [''SELECT'', ''UPDATE'']" by code_simp
qed (simp add: numeral_eq_Suc opOf_sqlc_text deactivateAccount_sql_def getExportByID_sql_def listAllAccountIDs_sql_def
    createOutboxEvent_sql_def)

text \<open>The operation label of the query metrics: a statement whose text begins with a comment line, as the generated statements
  transcribed above do, is counted under \<open>OTHER\<close>, whatever its SQL does, with its hash and its outcome.\<close>

lemma generated_queries_labelled_other:
  assumes "qr_sql q = sqlc_text name cmd body" and "\<not> IsZero (qr_begin q)"
  shows "dbQueryTotal (trace_query hashSQL q m) =
    add_mset (''OTHER'', hashSQL (qr_sql q), if qr_failed q then ''error'' else ''ok'') (dbQueryTotal m)"
  using assms by (simp add: trace_query_def TraceQueryStart_def TraceQueryEnd_def opOf_sqlc_text)

definition sample_query :: query_run where
  "sample_query = \<lparr>qr_sql = deactivateAccount_sql, qr_begin = \<lparr>unix_ns = 5, zone_off = 0\<rparr>, qr_over = \<lparr>unix_ns = 9, zone_off = 0\<rparr>,
     qr_failed = True\<rparr>"

lemma generated_queries_labelled_other_sample:
  "dbQueryTotal (trace_query (\<lambda>_. ''h'') sample_query no_metrics) = {#(''OTHER'', ''h'', ''error'')#}"
proof -
  have q: "qr_sql sample_query = sqlc_text ''DeactivateAccount'' ''exec''
      (''UPDATE accounts SET is_active = FALSE WHERE id = $1'' @ [CHR 0x0A])"
    by (simp add: sample_query_def deactivateAccount_sql_def)
  have "\<not> IsZero (qr_begin sample_query)" by code_simp
  from generated_queries_labelled_other [OF q this, of "\<lambda>_. ''h''" no_metrics] show ?thesis
    by (simp add: no_metrics_def sample_query_def)
qed

end
