(* ===== verification/Lifecycle.thy ===== *)
theory Lifecycle
  imports Prelude
begin

text \<open>
  The life of the process (cmd/ledgerx/main.go, from the channel \<open>errCh\<close> to the end of \<open>main\<close>): the goroutines of the worker,
  the scheduler, the outbox worker and the HTTP server, the \<open>select\<close> that waits for a signal or an error, the drain of the server
  with its ten-second deadline and the deferred calls. The calls of the libraries are assumed to return; requests, ticks, signals
  and failures come at any time.
\<close>

section \<open>States\<close>

text \<open>The goroutines that may report an error, and where each is: in its call, at the send to \<open>errCh\<close>, or over.\<close>

datatype server = Worker | Sched | Api

datatype routine = Running | Sending | Finished

text \<open>The calls that \<open>main\<close> defers, and its own positions: the \<open>select\<close>, \<open>srv.Shutdown\<close>, the deferred calls still to run, the end.\<close>

datatype deferred = Stop | Sync | Pool_Close | Wrk_Shutdown | Sch_Shutdown | Cancel

datatype main_at = Select | Draining | Returning "deferred list" | Exited

datatype cause = ByError server | BySignal

record process =
  pr_routine :: "server \<Rightarrow> routine"
  pr_errCh :: "server list"
  pr_ctx_done :: bool
  pr_outbox :: bool
  pr_inflight :: nat
  pr_timed_out :: bool
  pr_cause :: "cause option"
  pr_called :: "deferred list"
  pr_main :: main_at

text \<open>The \<open>defer\<close> statements in the order of \<open>main\<close>: those of the context, the logger and the pool, those of the worker and the
  scheduler, and that of the context of the shutdown. Go runs them last first.\<close>

definition startup_defers :: "deferred list" where
  "startup_defers = [Stop, Sync, Pool_Close]"

definition worker_defers :: "deferred list" where
  "worker_defers = [Wrk_Shutdown, Sch_Shutdown]"

definition drain_defers :: "deferred list" where
  "drain_defers = [Cancel]"

definition defers :: "deferred list" where
  "defers = startup_defers @ worker_defers @ drain_defers"

lemma defers_eq: "defers = [Stop, Sync, Pool_Close, Wrk_Shutdown, Sch_Shutdown, Cancel]"
  by (simp add: defers_def startup_defers_def worker_defers_def drain_defers_def)

definition booted :: process where
  "booted = \<lparr>pr_routine = (\<lambda>_. Running), pr_errCh = [], pr_ctx_done = False, pr_outbox = True, pr_inflight = 0,
     pr_timed_out = False, pr_cause = None, pr_called = [], pr_main = Select\<rparr>"

section \<open>Steps\<close>

text \<open>What may happen next. The first group comes from outside; the rest are steps of the program.\<close>

datatype event = Signal | Tick | Accept | Complete
  | Return server | Fail server | Send server | Outbox_Return
  | Take_Signal | Take_Error | Drained | Deadline | Deferred | Exit

abbreviation "when b x \<equiv> (if b then Some x else None)"

text \<open>A goroutine. \<open>wrk.Start\<close> and \<open>sch.Start\<close> return nil or an error; \<open>ListenAndServe\<close> returns an error, and
  \<open>ErrServerClosed\<close>, which is not reported, once \<open>Shutdown\<close> was called. \<open>errCh\<close> holds two errors; a third send blocks.\<close>

definition shutting_down :: "process \<Rightarrow> bool" where
  "shutting_down p \<longleftrightarrow> pr_main p \<noteq> Select"

definition goes :: "server \<Rightarrow> routine \<Rightarrow> process \<Rightarrow> process" where
  "goes c r p = p\<lparr>pr_routine := (pr_routine p)(c := r)\<rparr>"

definition start_returns :: "server \<Rightarrow> process \<Rightarrow> process option" where
  "start_returns c p = when (pr_routine p c = Running \<and> (c = Api \<longrightarrow> shutting_down p)) (goes c Finished p)"

definition start_fails :: "server \<Rightarrow> process \<Rightarrow> process option" where
  "start_fails c p = when (pr_routine p c = Running) (goes c Sending p)"

definition send_err :: "server \<Rightarrow> process \<Rightarrow> process option" where
  "send_err c p = when (pr_routine p c = Sending \<and> length (pr_errCh p) < 2) (goes c Finished (p\<lparr>pr_errCh := pr_errCh p @ [c]\<rparr>))"

text \<open>The \<open>select\<close> of \<open>main\<close>: either case when it is ready; then \<open>srv.Shutdown\<close> stops accepting.\<close>

definition take_signal :: "process \<Rightarrow> process option" where
  "take_signal p = when (pr_main p = Select \<and> pr_ctx_done p) (p\<lparr>pr_main := Draining, pr_cause := Some BySignal\<rparr>)"

definition take_error :: "process \<Rightarrow> process option" where
  "take_error p =
     (case pr_errCh p of
        [] \<Rightarrow> None
      | c # cs \<Rightarrow> when (pr_main p = Select) (p\<lparr>pr_errCh := cs, pr_main := Draining, pr_cause := Some (ByError c)\<rparr>))"

text \<open>\<open>srv.Shutdown\<close> returns when no request is in flight or when the deadline is over; then \<open>main\<close> returns.\<close>

definition drained :: "process \<Rightarrow> process option" where
  "drained p = when (pr_main p = Draining \<and> pr_inflight p = 0) (p\<lparr>pr_main := Returning (rev defers)\<rparr>)"

definition deadline :: "process \<Rightarrow> process option" where
  "deadline p = when (pr_main p = Draining \<and> pr_inflight p \<noteq> 0) (p\<lparr>pr_main := Returning (rev defers), pr_timed_out := True\<rparr>)"

text \<open>The next deferred call; \<open>stop\<close> also ends the context that the outbox worker watches.\<close>

definition run_deferred :: "process \<Rightarrow> process option" where
  "run_deferred p =
     (case pr_main p of
        Returning (d # ds) \<Rightarrow>
          Some (p\<lparr>pr_main := Returning ds, pr_called := pr_called p @ [d], pr_ctx_done := (pr_ctx_done p \<or> d = Stop)\<rparr>)
      | _ \<Rightarrow> None)"

fun act :: "event \<Rightarrow> process \<Rightarrow> process option" where
  "act Signal p = when (\<not> pr_ctx_done p) (p\<lparr>pr_ctx_done := True\<rparr>)"
| "act Tick p = when (pr_outbox p) p"
| "act Accept p = when (pr_routine p Api = Running \<and> \<not> shutting_down p) (p\<lparr>pr_inflight := Suc (pr_inflight p)\<rparr>)"
| "act Complete p = when (pr_inflight p \<noteq> 0) (p\<lparr>pr_inflight := pr_inflight p - 1\<rparr>)"
| "act (Return c) p = start_returns c p"
| "act (Fail c) p = start_fails c p"
| "act (Send c) p = send_err c p"
| "act Outbox_Return p = when (pr_outbox p \<and> pr_ctx_done p) (p\<lparr>pr_outbox := False\<rparr>)"
| "act Take_Signal p = take_signal p"
| "act Take_Error p = take_error p"
| "act Drained p = drained p"
| "act Deadline p = deadline p"
| "act Deferred p = run_deferred p"
| "act Exit p = when (pr_main p = Returning []) (p\<lparr>pr_main := Exited\<rparr>)"

text \<open>When \<open>main\<close> returned the process is over, and every goroutine with it.\<close>

inductive pstep :: "process \<Rightarrow> event \<Rightarrow> process \<Rightarrow> bool" where
  "pr_main p \<noteq> Exited \<Longrightarrow> act e p = Some q \<Longrightarrow> pstep p e q"

inductive history :: "event list \<Rightarrow> process \<Rightarrow> bool" where
  boot: "history [] booted"
| further: "history es p \<Longrightarrow> pstep p e q \<Longrightarrow> history (es @ [e]) q"

inductive_simps pstep_iff: "pstep p e q"

fun own :: "event \<Rightarrow> bool" where
  "own Signal = False" | "own Tick = False" | "own Accept = False" | "own Complete = False" | "own _ = True"

fun of_main :: "event \<Rightarrow> bool" where
  "of_main Take_Signal = True" | "of_main Take_Error = True" | "of_main Drained = True" | "of_main Deadline = True"
| "of_main Deferred = True" | "of_main Exit = True" | "of_main _ = False"

section \<open>Every program step counts down\<close>

fun routine_left :: "routine \<Rightarrow> nat" where
  "routine_left Running = 2" | "routine_left Sending = 1" | "routine_left Finished = 0"

fun main_left :: "main_at \<Rightarrow> nat" where
  "main_left Select = 9" | "main_left Draining = 8" | "main_left (Returning ds) = Suc (length ds)" | "main_left Exited = 0"

definition left_over :: "process \<Rightarrow> nat" where
  "left_over p = routine_left (pr_routine p Worker) + routine_left (pr_routine p Sched) + routine_left (pr_routine p Api) +
     (if pr_outbox p then 1 else 0) + main_left (pr_main p)"

lemmas act_defs = goes_def start_returns_def start_fails_def send_err_def take_signal_def take_error_def drained_def deadline_def
  run_deferred_def

lemma pstep_counts_down:
  assumes "pstep p e q"
  shows "left_over q + (if own e then 1 else 0) \<le> left_over p"
proof (cases "\<exists>c. e \<in> {Return c, Fail c, Send c}")
  case True
  then obtain c where c: "e \<in> {Return c, Fail c, Send c}" by blast
  then show ?thesis using assms
    by (cases c) (auto simp: pstep_iff act_defs left_over_def split: if_splits)
next
  case False
  then show ?thesis using assms
    by (cases e) (auto simp: pstep_iff act_defs left_over_def defers_eq split: if_splits main_at.splits list.splits)
qed

lemma history_counts_down: "history es p \<Longrightarrow> left_over p + length (filter own es) \<le> left_over booted"
proof (induction rule: history.induct)
  case (further es p e q)
  then show ?case using pstep_counts_down [OF further(2)] by (cases "own e") auto
qed simp

section \<open>The invariant\<close>

definition tidy :: "process \<Rightarrow> bool" where
  "tidy p \<longleftrightarrow>
     (case pr_main p of
        Select \<Rightarrow> pr_called p = [] \<and> \<not> pr_timed_out p \<and> pr_cause p = None
      | Draining \<Rightarrow> pr_called p = [] \<and> \<not> pr_timed_out p \<and> pr_cause p \<noteq> None
      | Returning ds \<Rightarrow> pr_called p @ ds = rev defers \<and> (pr_timed_out p \<or> pr_inflight p = 0) \<and> pr_cause p \<noteq> None
      | Exited \<Rightarrow> pr_called p = rev defers \<and> (pr_timed_out p \<or> pr_inflight p = 0) \<and> pr_cause p \<noteq> None)"

lemma tidy_booted: "tidy booted"
  by (simp add: tidy_def booted_def)

lemma tidy_pstep: "pstep p e q \<Longrightarrow> tidy p \<Longrightarrow> tidy q"
  by (cases e) (auto simp: pstep_iff act_defs tidy_def shutting_down_def split: if_splits main_at.splits list.splits)

lemma history_tidy: "history es p \<Longrightarrow> tidy p"
  by (induction rule: history.induct) (auto intro: tidy_booted tidy_pstep)

text \<open>Errors received, errors in the channel, and goroutines that may still report one.\<close>

definition may_report :: "server \<Rightarrow> process \<Rightarrow> nat" where
  "may_report c p = (if pr_routine p c = Finished then 0 else 1)"

definition received :: "process \<Rightarrow> nat" where
  "received p = (case pr_cause p of Some (ByError c) \<Rightarrow> 1 | _ \<Rightarrow> 0)"

definition reports :: "process \<Rightarrow> nat" where
  "reports p = received p + length (pr_errCh p) + may_report Worker p + may_report Sched p + may_report Api p"

lemma reports_pstep:
  assumes "pstep p e q" "tidy p"
  shows "reports q \<le> reports p"
proof (cases "\<exists>c. e \<in> {Return c, Fail c, Send c}")
  case True
  then obtain c where c: "e \<in> {Return c, Fail c, Send c}" by blast
  then have "received q = received p" using assms(1) by (auto simp: pstep_iff act_defs received_def split: if_splits)
  moreover have "length (pr_errCh q) + may_report c q \<le> length (pr_errCh p) + may_report c p" using assms(1) c
    by (auto simp: pstep_iff act_defs may_report_def split: if_splits)
  moreover have "may_report d q = may_report d p" if "d \<noteq> c" for d using assms(1) c that
    by (auto simp: pstep_iff act_defs may_report_def split: if_splits)
  ultimately show ?thesis by (cases c) (simp_all add: reports_def)
next
  case False
  then have "may_report c q = may_report c p" for c using assms(1)
    by (cases e) (auto simp: pstep_iff act_defs may_report_def split: if_splits main_at.splits list.splits)
  moreover have "received q + length (pr_errCh q) \<le> received p + length (pr_errCh p)" using assms False
    by (cases e) (auto simp: pstep_iff act_defs received_def tidy_def split: if_splits main_at.splits list.splits)
  ultimately show ?thesis by (simp add: reports_def)
qed

lemma history_reports: "history es p \<Longrightarrow> reports p \<le> 3"
proof (induction rule: history.induct)
  case (further es p e q)
  then show ?case using reports_pstep [OF further(2) history_tidy [OF further(1)]] by simp
qed (simp add: reports_def received_def may_report_def booted_def)

text \<open>The capacity of \<open>errCh\<close> is enough: when \<open>main\<close> ended because of an error, no other goroutine that reports one is blocked.\<close>

lemma send_not_blocked:
  assumes "history es p" "pr_cause p = Some (ByError d)" "pr_routine p c = Sending"
  shows "\<exists>q. act (Send c) p = Some q"
proof -
  have "0 < may_report Worker p + may_report Sched p + may_report Api p" using assms(3) by (cases c) (auto simp: may_report_def)
  moreover have "received p = 1" using assms(2) by (simp add: received_def)
  ultimately have "length (pr_errCh p) < 2" using history_reports [OF assms(1)] unfolding reports_def by linarith
  then show ?thesis using assms(3) by (simp add: send_err_def)
qed

section \<open>Shutdown\<close>

definition shutdown_due :: "process \<Rightarrow> bool" where
  "shutdown_due p \<longleftrightarrow> pr_ctx_done p \<or> pr_errCh p \<noteq> [] \<or> shutting_down p"

lemma main_goes_on:
  assumes "shutdown_due p" "pr_main p \<noteq> Exited"
  shows "\<exists>e q. of_main e \<and> pstep p e q"
proof (cases "pr_main p")
  case Select
  then have "(\<exists>q. pstep p Take_Signal q) \<or> (\<exists>q. pstep p Take_Error q)" using assms
    by (auto simp: shutdown_due_def shutting_down_def pstep_iff take_signal_def take_error_def split: list.splits)
  then show ?thesis by (metis of_main.simps(1,2))
next
  case Draining
  then have "(\<exists>q. pstep p Drained q) \<or> (\<exists>q. pstep p Deadline q)" by (auto simp: pstep_iff drained_def deadline_def)
  then show ?thesis by (metis of_main.simps(3,4))
next
  case (Returning ds)
  then have "(\<exists>q. pstep p Deferred q) \<or> (\<exists>q. pstep p Exit q)" by (cases ds) (auto simp: pstep_iff run_deferred_def)
  then show ?thesis by (metis of_main.simps(5,6))
qed (use assms in simp)

text \<open>C16. The process shuts down. In every run of the process there are at most sixteen steps of the program itself, whatever signals,
  failures, requests and ticks come; once a signal was received or an error was reported, \<open>main\<close> always has a next step until
  it has exited; and when it has exited it has stopped the scheduler, the worker, the pool and the log in exactly this order, after
  all requests in flight were served or the drain ran into its deadline.\<close>

theorem shutdown_terminates:
  assumes "history es p"
  shows "length (filter own es) \<le> 16 \<and>
    (shutdown_due p \<longrightarrow> pr_main p = Exited \<or> (\<exists>e q. of_main e \<and> pstep p e q)) \<and>
    (pr_main p = Exited \<longrightarrow>
       pr_called p = [Cancel, Sch_Shutdown, Wrk_Shutdown, Pool_Close, Sync, Stop] \<and> (pr_inflight p = 0 \<or> pr_timed_out p))"
proof (intro conjI impI)
  have "left_over booted = 16" by (simp add: left_over_def booted_def)
  then show "length (filter own es) \<le> 16" using history_counts_down [OF assms] by linarith
  show "pr_main p = Exited \<or> (\<exists>e q. of_main e \<and> pstep p e q)" if "shutdown_due p" using main_goes_on [OF that] by blast
  assume "pr_main p = Exited"
  then have "pr_called p = rev defers" "pr_timed_out p \<or> pr_inflight p = 0" using history_tidy [OF assms] by (auto simp: tidy_def)
  then show "pr_called p = [Cancel, Sch_Shutdown, Wrk_Shutdown, Pool_Close, Sync, Stop]" "pr_inflight p = 0 \<or> pr_timed_out p"
    by (auto simp: defers_eq)
qed

fun acts :: "event list \<Rightarrow> process \<Rightarrow> process option" where
  "acts [] p = Some p"
| "acts (e # es) p = (if pr_main p = Exited then None else case act e p of None \<Rightarrow> None | Some q \<Rightarrow> acts es q)"

lemma acts_history: "history es p \<Longrightarrow> acts fs p = Some q \<Longrightarrow> history (es @ fs) q"
proof (induction fs arbitrary: es p)
  case (Cons e fs)
  then obtain p1 where p1: "pstep p e p1" "acts fs p1 = Some q" by (auto simp: pstep_iff split: if_splits option.splits)
  from Cons.IH [OF history.further [OF Cons.prems(1) p1(1)] p1(2)] show ?case by simp
qed simp

definition sample_events :: "event list" where
  "sample_events = [Return Worker, Accept, Tick, Fail Sched, Signal, Send Sched, Take_Error, Return Api, Complete, Drained,
     Deferred, Deferred, Deferred, Deferred, Deferred, Deferred, Outbox_Return, Exit]"

theorem shutdown_terminates_witness:
  "\<exists>p. history sample_events p \<and> pr_main p = Exited \<and>
     pr_called p = [Cancel, Sch_Shutdown, Wrk_Shutdown, Pool_Close, Sync, Stop] \<and> (pr_inflight p = 0 \<or> pr_timed_out p)"
proof -
  have "map_option pr_main (acts sample_events booted) = Some Exited" by code_simp
  then obtain p where p: "acts sample_events booted = Some p" "pr_main p = Exited" by auto
  have h: "history sample_events p" using acts_history [OF history.boot p(1)] by simp
  from shutdown_terminates [OF h] h p(2) show ?thesis by blast
qed

end
