(* ===== verification/Spec2Isabelle.thy ===== *)
theory Spec2Isabelle
  imports Staleness Corners Contention Paging Tasks Observability Lifecycle
begin

text \<open>
  \<^bold>\<open>LedgerX: a verification development\<close>

  LedgerX is a personal ledger with an HTTP interface, written in Go over PostgreSQL and Redis. A request passes the middleware (cross-origin
  headers, token, rate limit), a handler decodes it and calls a service, and the service runs SQL statements inside database
  transactions. In the background a worker takes nightly balance snapshots and writes CSV exports, and another publishes the
  events of the outbox table. All amounts are 64-bit integers in minor units; every transaction is a set of postings that sum to
  zero, with an external account per user for money that enters or leaves.

  \<^bold>\<open>The model.\<close> A \<open>world\<close> holds the database (one list of rows per table, in insertion order, with the sequences), the clock in
  nanoseconds, the Redis cache, and two lists of faults: what the next statements of the database and the next calls of Redis
  will do (succeed, fail, or, for a commit, fail with unknown outcome). A statement is a function of the time and the database;
  \<open>run\<close> executes it against the world and consumes a fault. Errors are values of sum types. Ids are integers with the bound of
  their column, amounts are 64-bit words, times are nanoseconds with a zone offset; strings are lists of bytes. What the program calls outside
  its own source is a parameter: SHA-256, the zones of the process and the session (record \<open>env\<close>), bcrypt and JWT (record
  \<open>libs\<close>), the S3 client, the task queue (accepts a task or not), environment variables.

  \<^bold>\<open>The theories,\<close> with the code they model (paths under src/):

  \<^item> Prelude: interfaces as locales (\<open>codec\<close>: encode and decode; \<open>stable\<close>, \<open>monotone_in\<close>: a step relation with an
    invariant, and with a quantity that only grows; \<open>frame\<close>: what a call keeps, extended in Upkeep to whole database transactions by
    \<open>world_frame\<close>) and lemmas on lists and sums.
  \<^item> GoText, GoTime, GoTimeText: what the code uses of strconv, strings, base64 and time (calendar, RFC 3339 and date layouts), with
    round trips as interpretations of \<open>codec\<close>.
  \<^item> Schema, Queries, Sessions: migrations/ and internal/repo/sqlc: tables, constraints, the deferred zero-sum trigger, every query;
    begin, commit and rollback under faults.
  \<^item> Summary, Transactions, Balance: internal/service: the cached monthly summary, the transaction service (Create, Transfer, Reverse
    with idempotency, leg checks, outbox event and cached response), balances from snapshots; the snapshot tasks of
    internal/worker/snapshot_worker.go.
  \<^item> Booking, Outcomes, Ledger, Progress, Idempotency, Effects, Freshness: the abstract ledger (one booking is one append), that every
    call refines it, the invariant \<open>ledger_ok\<close>, what calls return without faults, exactly-once booking, the cached summary after a booking.
  \<^item> Contention: requests with one idempotency key at the same moment: the statements of \<open>claimIdempotency\<close> and the commit as steps of
    many attempts that interleave.
  \<^item> Http, Cursor, Entries, Paging, Handlers: internal/transport/http: decoding, replies, the history with its cursor, reading it
    page by page while it grows, the handlers.
  \<^item> RateLimit, Auth, Server: ratelimit.go, auth.go, middleware.go, cors.go, the health endpoints, configuration.
  \<^item> Storage, Exports: internal/storage (interface \<open>object_store\<close>, both backends), exports.go and csv-export.go with the CSV format.
  \<^item> Outbox: internal/worker/outbox.go.
  \<^item> Routes: cmd/ledgerx/main.go, internal/repo/db.go and the Routes methods: start-up, the routing table, the chain in front of each route.
  \<^item> Lifecycle: the rest of main: goroutines, the error channel, waiting for a signal or an error, the drain and the deferred calls, as a
    transition system labelled with events (\<open>act\<close>, one definition per kind of step).
  \<^item> Observability: internal/observability: the request middleware and the query tracer on multisets of labels.
  \<^item> Tasks: internal/worker/jobs.go: tasks as messages, and the worker's mux.
  \<^item> Upkeep, System, Reach: the transition system of all of this. A step serves one request, runs one task, publishes one batch,
    schedules the nightly task, deactivates an account, or lets time pass and chooses new faults; \<open>system_ok\<close> is its invariant.
  \<^item> Staleness: the age of a cached summary along a run.
  \<^item> Sample, Run: a small concrete system and runs of it from an empty database, on which the theorems are applied.
  \<^item> Corners: concrete states in which the program does not do what it means to.

  \<^bold>\<open>What is shown.\<close> Under any faults, a call of the transaction service leaves the tables alone or appends one complete booking of an
  admitted request, at most once per idempotency key; without faults an admitted request is booked and a refused one gets
  exactly its error. Balances move by exactly the amounts. Following the cursors shows every entry dated before 9999-01-01, the sentinel of the
  first page, once, also while the history grows. The CSV file of an export holds exactly the postings of the user's calendar month, in a
  session in UTC. The process shuts down in bounded many steps and in order. A cached summary is never five minutes old. Limits, tokens, exports, storage
  paths and the outbox keep their promises. This theory adds what holds in every state that is reachable from an empty
  database, whatever is requested, by whom, in which order and with which faults: the books balance, records agree with
  each other, reported balances are exact, history is append-only, only an owner moves the money of an account, published
  events and finished exports are what they claim to be.

  \<^bold>\<open>Bounds and fuel.\<close> Loops of the code are structural recursions, so no fuel is needed there. The client that follows cursors
  (\<open>read_all\<close>, \<open>read_across\<close>) has fuel, and one page more than the number of entries in the end is enough. The process has a measure:
  sixteen steps of its own, whatever comes from outside. The decimal printer and the readers of formats have
  termination proofs.

  \<^bold>\<open>Not modelled.\<close> Concurrency inside a step of the system: every step is atomic there. Sessions that interleave are modelled for the
  claim of an idempotency key (Contention), with the body of a transaction as one step; a posting that is committed while a snapshot of its day is
  taken is a corner case (Corners); row locks of other workers are the argument of the outbox batch. The down migrations and the one-off backfill of migration 12: the model starts from the migrated
  empty schema. The Prometheus and zap libraries and the \<open>/metrics\<close> page. Chi's path matching, panic recovery, timeout and real-address
  middleware. What the Shutdown calls of the libraries do inside, and that they return. asynq itself: a task it accepted may run at any later time, any number of times. The runs of the system
  keep exports in the local store, also when the configuration selects S3, whose backend is modelled in Storage with its client as a
  parameter. Text that PostgreSQL refuses: a NUL byte or invalid UTF-8 in a note, a name or an address is stored as it is. Rows of one
  \<open>created_at\<close> come in the order of insertion where the SQL leaves their order open (the outbox batch). Response headers of a
  download, the web interface and scripts. Unicode beyond ASCII in case mapping, in trimming and in the leading space of a CSV field.
\<close>

section \<open>What every reachable state satisfies\<close>

lemma GetCurrent_200:
  assumes "GetCurrent E rq w = (rep, w')" and "status rep = 200"
  shows "\<exists>uid aid acc w1 res. path_id rq = Some aid \<and> ownedAccount uid aid w = (Inr acc, w1) \<and>
    CurrentBalance aid (time_Now E w1) w1 = (Inr res, w') \<and> rep = writeJSON 200 (Some (balance_json res))"
proof -
  have "status (writeServiceError e) \<noteq> 200" for e using status_writeServiceError(1) [of e] by auto
  then show ?thesis using assms by (auto simp: GetCurrent_def split: option.splits prod.splits sum.splits)
qed

text \<open>C1. In every state the system can reach, whatever the requests, the tasks, the workers and the faults, every stored transaction has
  postings and they sum to exactly zero; every posting is non-zero and belongs to a stored transaction and to an account of the same
  user, in the currency of the transaction unless the account is external; names of accounts are unique per user, and a user has
  at most one external account.\<close>

theorem ledger_always_consistent:
  assumes "reachable C dir T"
  shows "zero_sum (db (sy_world T)) \<and> refs_ok (db (sy_world T)) \<and> accounts_ok (db (sy_world T))"
  using reachable_state(1) [OF assms] by (simp add: ledger_ok_def)

theorem ledger_always_consistent_witness:
  "length (transactions (db (sy_world sample_state))) = 1 \<and> zero_sum (db (sy_world sample_state))"
  using ledger_always_consistent [OF sample_states(4)] sample_state_values by (simp add: Let_def)

text \<open>C2. The books of every user balance: in every reachable state the balances of all accounts of a user, the external account included,
  sum to exactly zero, so money only moves between accounts.\<close>

theorem books_balance:
  assumes "reachable C dir T"
  shows "(\<Sum>a\<leftarrow>accounts_of u (db (sy_world T)). account_sum (a_id a) (db (sy_world T))) = 0"
  by (rule books_sum [OF reachable_state(1) [OF assms]])

theorem books_balance_witness:
  "account_sum 1 (db (sy_world sample_state)) = 500 \<and> account_sum 2 (db (sy_world sample_state)) = - 500"
proof -
  let ?d = "db (sy_world sample_state)"
  have "(\<Sum>i\<leftarrow>map a_id (accounts_of 1 ?d). account_sum i ?d) = 0"
    using books_balance [OF sample_states(4), of 1] by (simp add: o_def map_map)
  moreover have "map a_id (accounts_of 1 ?d) = [1, 2]" using sample_state_values by (simp add: Let_def)
  ultimately have "account_sum 1 ?d + account_sum 2 ?d = 0" by (simp del: map_map)
  then show ?thesis using sample_state_values by (simp add: Let_def)
qed

text \<open>C7. In every reachable state a transaction is reversed at most once, by a transaction of the same user and currency whose
  postings are its own negated, and a reversal is never itself reversed; every idempotency key is unique for its user and holds the
  response of the stored transaction it names; the outbox has exactly one event per transaction, in the same order.\<close>

theorem records_always_agree:
  assumes "reachable C dir T"
  shows "reversals_ok (db (sy_world T)) \<and> keys_ok (db (sy_world T)) \<and> journal_ok (db (sy_world T))"
  using reachable_state(1) [OF assms] by (simp add: ledger_ok_def)

theorem records_always_agree_witness:
  "journal_ok (db (sy_world sample_state)) \<and> length (outbox (db (sy_world sample_state))) = 1"
proof -
  have j: "journal_ok (db (sy_world sample_state))" using records_always_agree [OF sample_states(4)] by simp
  then have "length (map event_tx (outbox (db (sy_world sample_state)))) = length (transactions (db (sy_world sample_state)))"
    unfolding journal_ok_def by simp
  then show ?thesis using j sample_state_values by (simp add: Let_def)
qed

text \<open>C6. The balance endpoint tells the truth in every reachable state: whichever snapshots were taken, whenever and however often, and
  whatever faults the request meets, a reply 200 holds the exact sum of the account's postings (as a 64-bit integer).\<close>

theorem reported_balance_exact:
  assumes "reachable C dir T" and "GetCurrent E rq (sy_world T) = (rep, w)" and "status rep = 200"
  shows "\<exists>aid as_of. path_id rq = Some aid \<and>
    rep = writeJSON 200 (Some (balance_json \<lparr>br_AccountID = aid, br_AsOfISO = as_of,
      br_Balance = word_of_int (account_sum aid (db (sy_world T)))\<rparr>))"
proof -
  obtain uid aid acc w1 res where p: "path_id rq = Some aid" and o: "ownedAccount uid aid (sy_world T) = (Inr acc, w1)"
    and b: "CurrentBalance aid (time_Now E w1) w1 = (Inr res, w)" and rep: "rep = writeJSON 200 (Some (balance_json res))"
    using GetCurrent_200 [OF assms(2,3)] by blast
  have r: "db w1 = db (sy_world T)" "pg_now w1 = pg_now (sy_world T)" using reads_ownedAccount [OF o] by (simp_all add: reads_def pg_now_def)
  have "snapshots_ok w1" using reachable_state(2) [OF assms(1)] r by (simp add: snapshots_ok_def)
  from CurrentBalance_sum [OF this b] have "br_AccountID res = aid" "br_Balance res = word_of_int (account_sum aid (db (sy_world T)))"
    by (simp_all add: r)
  then have "res = \<lparr>br_AccountID = aid, br_AsOfISO = br_AsOfISO res, br_Balance = word_of_int (account_sum aid (db (sy_world T)))\<rparr>" by simp
  then show ?thesis using p rep by metis
qed

theorem reported_balance_exact_witness:
  "\<exists>as_of. fst (GetCurrent sample_env sample_request (sy_world sample_state))
     = writeJSON 200 (Some (balance_json \<lparr>br_AccountID = 1, br_AsOfISO = as_of, br_Balance = 500\<rparr>))"
proof -
  have "status (fst (GetCurrent sample_env sample_request (sy_world sample_state))) = 200" using sample_state_values by (simp add: Let_def)
  from reported_balance_exact [OF sample_states(4) surjective_pairing this] obtain aid as_of where a: "path_id sample_request = Some aid"
    and r: "fst (GetCurrent sample_env sample_request (sy_world sample_state)) = writeJSON 200 (Some (balance_json \<lparr>br_AccountID = aid, br_AsOfISO = as_of,
      br_Balance = word_of_int (account_sum aid (db (sy_world sample_state)))\<rparr>))" by blast
  have "path_id sample_request = Some 1" by code_simp
  then have "aid = 1" using a by simp
  moreover have "account_sum 1 (db (sy_world sample_state)) = 500" using sample_state_values by (simp add: Let_def)
  ultimately show ?thesis using r by auto
qed

text \<open>C30. Every e-mail address of a reachable state is stored in normal form, lower case and trimmed, and no two users have the same.\<close>

theorem emails_unique:
  assumes "reachable C dir T"
  shows "distinct (map u_email (users (db (sy_world T)))) \<and>
    (\<forall>u\<in>set (users (db (sy_world T))). normal_email (u_email u) = u_email u)"
  using reachable_state(5) [OF assms] by (simp add: emails_ok_def)

theorem emails_unique_witness:
  "map u_email (users (db (sy_world sample_state))) = [''ann@x.org''] \<and> distinct (map u_email (users (db (sy_world sample_state))))"
  using emails_unique [OF sample_states(4)] sample_state_values by (simp add: Let_def)

text \<open>C28. An event is marked processed only after it was published: in every reachable state the message of every processed outbox row is
  among those published.\<close>

theorem processed_events_published:
  assumes "reachable C dir T" and "x \<in> set (outbox (db (sy_world T)))" and "o_processed_at x \<noteq> None"
  shows "message x \<in> set (sy_published T)"
  using reachable_state(6) [OF assms(1)] assms(2,3) by (auto simp: published_ok_def)

theorem processed_events_published_witness:
  "\<exists>x\<in>set (outbox (db (sy_world sample_state6))). o_processed_at x = Some 3 \<and> message x \<in> set (sy_published sample_state6)"
proof -
  obtain m where m: "sy_published sample_state6 = [m]" using sample_published by (auto simp: Let_def length_Suc_conv)
  then have "map (\<lambda>x. (message x, o_processed_at x)) (outbox (db (sy_world sample_state6))) = [(m, Some 3)]"
    using sample_published by (simp add: Let_def)
  then obtain x where x: "x \<in> set (outbox (db (sy_world sample_state6)))" "o_processed_at x = Some 3" by auto
  with processed_events_published [OF sample_states(7) x(1)] show ?thesis by auto
qed

text \<open>C29. A finished export can be downloaded in every reachable state: its owner gets 200 with the stored file.\<close>

theorem done_exports_download:
  assumes "reachable C dir T" and "db_faults (sy_world T) = []"
    and "e \<in> set (exports (db (sy_world T)))" and "e_status e = ''done''"
    and "user_of rq = Some (e_user_id e)" and "path_id rq = Some (e_id e)"
  shows "\<exists>body. Local_Open dir (export_key (e_id e)) (sy_disk T) = Some body \<and>
    Download (Local_Open dir) rq (sy_world T) (sy_disk T) = (Reply 200 (File body), sy_world T)"
  using local_store.Download_served [OF assms(2) reachable_state(3) [OF assms(1)] reachable_state(4) [OF assms(1)] assms(3-6)] .

theorem done_exports_download_witness:
  "\<exists>body. Download (Local_Open ''exports'') sample_request (sy_world sample_state5) (sy_disk sample_state5)
     = (Reply 200 (File body), sy_world sample_state5)"
proof -
  have v: "map (\<lambda>e. (e_id e, e_user_id e, e_status e)) (exports (db (sy_world sample_state5))) = [(1, 1, ''done'')]"
    "db_faults (sy_world sample_state5) = []" using sample_exports by (simp_all add: Let_def)
  then obtain e where e: "exports (db (sy_world sample_state5)) = [e]" "e_id e = 1" "e_user_id e = 1" "e_status e = ''done''" by auto
  moreover have "path_id sample_request = Some 1" "user_of sample_request = Some 1" by code_simp+
  ultimately show ?thesis using done_exports_download [OF sample_states(6) v(2), of e sample_request] by auto
qed

section \<open>What no step can do\<close>

text \<open>C8. History is append-only: between two moments of a run the transactions and the postings only grow at the end, nothing is changed
  or removed.\<close>

theorem history_append_only:
  assumes "reachable C dir S" and "reaches (step C dir) S T"
  shows "\<exists>ts ps. transactions (db (sy_world T)) = transactions (db (sy_world S)) @ ts \<and>
    postings (db (sy_world T)) = postings (db (sy_world S)) @ ps"
  using history.reaches_grows [OF assms(2) reachable_ok [OF assms(1)]] by (simp add: extends_def)

theorem history_append_only_witness:
  "\<exists>ts ps. transactions (db (sy_world sample_state6)) = transactions (db (sy_world sample_state)) @ ts \<and>
    postings (db (sy_world sample_state6)) = postings (db (sy_world sample_state)) @ ps"
proof (rule history_append_only [OF sample_states(4)])
  obtain msgs w where p: "ProcessBatch [] (sy_world sample_state) = (msgs, w)" by fastforce
  from step.publish [OF p] show "reaches (step sample_config ''exports'') sample_state sample_state6"
    by (intro reaches_one) (simp add: sample_state6_def p)
qed

text \<open>C3. Only its owner moves the money of an account: when a step changes the balance of an account, the step serves a request that
  carries a valid token of the owner. No other user's request and no background task changes it.\<close>

theorem money_moves_by_owner:
  assumes "reachable C dir S" and "step C dir S T" and "a \<in> set (accounts (db (sy_world T)))"
    and "account_sum (a_id a) (db (sy_world T)) \<noteq> account_sum (a_id a) (db (sy_world S))"
  shows "\<exists>r sc rq hs rep ts w s. r \<in> set (main_routes C) \<and>
    respond C r sc rq (sy_counters S) (sy_world S) = (hs, (rep, ts, w), s) \<and>
    T = S\<lparr>sy_world := w, sy_counters := s, sy_tasks := sy_tasks S @ ts\<rparr> \<and>
    token_user C rq (sy_world S) = Some (a_user_id a)"
proof -
  from step_grown [OF assms(2) reachable_ok [OF assms(1)]] assms(4)
  obtain r sc rq hs rep ts w s where r: "r \<in> set (main_routes C)" "respond C r sc rq (sy_counters S) (sy_world S) = (hs, (rep, ts, w), s)"
    "T = S\<lparr>sy_world := w, sy_counters := s, sy_tasks := sy_tasks S @ ts\<rparr>"
    and g: "grown (set_option (token_user C rq (sy_world S))) (sy_world S) w" by (fastforce simp: account_sum_def)
  have "ledger_ok (db w)" using reachable_state(1) [OF reachable_step [OF assms(1,2)]] by (simp add: r(3))
  then have "a_user_id a \<in> set_option (token_user C rq (sy_world S))"
    using grown_isolated [OF g _ _ ] assms(3,4) by (auto simp: r(3))
  then show ?thesis using r by fastforce
qed

theorem money_moves_by_owner_witness:
  "\<exists>r sc rq hs rep ts w s. respond sample_config r sc rq (sy_counters sample_state2) (sy_world sample_state2) = (hs, (rep, ts, w), s) \<and>
    sample_state = sample_state2\<lparr>sy_world := w, sy_counters := s, sy_tasks := sy_tasks sample_state2 @ ts\<rparr> \<and>
    token_user sample_config rq (sy_world sample_state2) = Some 1"
proof -
  have "map a_id (accounts_of 1 (db (sy_world sample_state))) = [1, 2]" and s: "account_sum 1 (db (sy_world sample_state)) = 500"
    using sample_state_values by (simp_all add: Let_def)
  then have "1 \<in> a_id ` set (accounts_of 1 (db (sy_world sample_state)))" by (metis list.set_intros(1) list.set_map)
  then obtain a where a: "a \<in> set (accounts (db (sy_world sample_state)))" "a_id a = 1" "a_user_id a = 1" by (auto simp: accounts_of_def)
  have "account_sum 1 (db (sy_world sample_state2)) = 0" by (simp add: account_sum_def amount_sum_def sample_state2_values)
  then have "account_sum (a_id a) (db (sy_world sample_state)) \<noteq> account_sum (a_id a) (db (sy_world sample_state2))" using s a by simp
  from money_moves_by_owner [OF sample_states(3) sample_steps(3) a(1) this] show ?thesis unfolding a(3) by blast
qed

end
